(* ===== verification/Prelude.thy ===== *)
theory Prelude
  imports Main "HOL-Library.List_Lexorder" "HOL-Library.Char_ord"
begin

text \<open>
  What every component of the model shares: the widths of the Rust integers the code saturates
  at, the subtraction that can underflow, the \<open>Vec\<close> operations of the standard library the code
  uses (\<open>position\<close>, \<open>rposition\<close>, \<open>insert\<close>, \<open>remove\<close>, \<open>truncate\<close>), and lemmas about
  sums over lists, which the ledgers of the components rest on.

  Unsigned integers are natural numbers. Where the code saturates the model saturates
  (\<open>sat64\<close>, \<open>sat32\<close>, \<open>sat8\<close>); where the code subtracts without a check in
  front of it the model uses \<open>sub_ck\<close>, whose \<open>None\<close> is the arithmetic overflow (a panic in a
  debug build); where a check stands in front of the subtraction it is written \<open>-\<close>.
\<close>

named_theorems ledger "equations that move a quantity from one place to another"

section \<open>Integers\<close>

definition u8_max :: nat where "u8_max = 255"
definition u16_max :: nat where "u16_max = 65535"
definition u32_max :: nat where "u32_max = 4294967295"
definition u64_max :: nat where "u64_max = 18446744073709551615"

definition sat64 :: "nat \<Rightarrow> nat" where "sat64 n = min n u64_max"
definition sat32 :: "nat \<Rightarrow> nat" where "sat32 n = min n u32_max"
definition sat16 :: "nat \<Rightarrow> nat" where "sat16 n = min n u16_max"
definition sat8 :: "nat \<Rightarrow> nat" where "sat8 n = min n u8_max"

definition sub_ck :: "nat \<Rightarrow> nat \<Rightarrow> nat option" where
  "sub_ck a b = (if b \<le> a then Some (a - b) else None)"

definition div_ceil :: "nat \<Rightarrow> nat \<Rightarrow> nat" where
  "div_ceil a b = (if a mod b = 0 then a div b else a div b + 1)"

lemma sat64_le [simp]: "sat64 n \<le> n" "sat64 n \<le> u64_max"
  by (simp_all add: sat64_def)

lemma sat64_id [simp]: "n \<le> u64_max \<Longrightarrow> sat64 n = n"
  by (simp add: sat64_def)

lemma sub_ck_Some_iff [simp]: "sub_ck a b = Some c \<longleftrightarrow> a = b + c"
  by (auto simp: sub_ck_def)

lemma sub_ck_None_iff [simp]: "sub_ck a b = None \<longleftrightarrow> a < b"
  by (auto simp: sub_ck_def)

lemma div_add_le: "(a::nat) div c + b div c \<le> (a + b) div c"
proof (cases "c = 0")
  case False
  have "a div c * c + b div c * c \<le> a + b"
    by (intro add_mono) simp_all
  then have "(a div c + b div c) * c \<le> a + b"
    by (simp add: add_mult_distrib)
  with False show ?thesis
    by (simp add: less_eq_div_iff_mult_less_eq)
qed simp

section \<open>Vectors\<close>

text \<open>\<open>Iterator::position\<close>: the index of the first element that satisfies the predicate.\<close>

fun position :: "('a \<Rightarrow> bool) \<Rightarrow> 'a list \<Rightarrow> nat option" where
  "position P [] = None"
| "position P (x # xs) = (if P x then Some 0 else map_option Suc (position P xs))"

text \<open>\<open>Iterator::rposition\<close>: the index of the last one.\<close>

fun rposition :: "('a \<Rightarrow> bool) \<Rightarrow> 'a list \<Rightarrow> nat option" where
  "rposition P [] = None"
| "rposition P (x # xs) =
     (case rposition P xs of Some i \<Rightarrow> Some (Suc i) | None \<Rightarrow> (if P x then Some 0 else None))"

definition insert_at :: "nat \<Rightarrow> 'a \<Rightarrow> 'a list \<Rightarrow> 'a list" where
  "insert_at i x xs = take i xs @ x # drop i xs"

definition remove_at :: "nat \<Rightarrow> 'a list \<Rightarrow> 'a list" where
  "remove_at i xs = take i xs @ drop (Suc i) xs"

lemma position_Some:
  "position P xs = Some i \<Longrightarrow> i < length xs \<and> P (xs ! i) \<and> (\<forall>j<i. \<not> P (xs ! j))"
proof (induction xs arbitrary: i)
  case (Cons x xs)
  show ?case
  proof (cases "P x")
    case False
    with Cons.prems obtain k where "position P xs = Some k" "i = Suc k" by auto
    with Cons.IH [of k] False show ?thesis by (auto simp: nth_Cons' less_Suc_eq_0_disj)
  qed (use Cons.prems in auto)
qed simp

lemma position_None: "position P xs = None \<longleftrightarrow> (\<forall>x\<in>set xs. \<not> P x)"
  by (induction xs) auto

lemma rposition_Some: "rposition P xs = Some i \<Longrightarrow> i < length xs \<and> P (xs ! i)"
  by (induction xs arbitrary: i) (auto split: option.splits if_splits)

lemma rposition_None: "rposition P xs = None \<longleftrightarrow> (\<forall>x\<in>set xs. \<not> P x)"
  by (induction xs) (auto split: option.splits)

lemma set_insert_at [simp]: "set (insert_at i x xs) = insert x (set xs)"
  by (metis (no_types, lifting) append_take_drop_id insert_at_def list.simps(15) set_append
      Un_insert_right)

lemma length_insert_at [simp]: "length (insert_at i x xs) = Suc (length xs)"
  by (simp add: insert_at_def)

lemma length_remove_at: "i < length xs \<Longrightarrow> length (remove_at i xs) = length xs - 1"
  by (simp add: remove_at_def)

lemma set_remove_at: "set (remove_at i xs) \<subseteq> set xs"
  by (auto simp: remove_at_def dest: in_set_takeD in_set_dropD)

lemma remove_at_0 [simp]: "remove_at 0 (x # xs) = xs"
  by (simp add: remove_at_def)

lemma sum_list_insert_at [ledger]:
  fixes f :: "'a \<Rightarrow> 'b::comm_monoid_add"
  shows "sum_list (map f (insert_at i x xs)) = f x + sum_list (map f xs)"
proof -
  have "sum_list (map f xs) = sum_list (map f (take i xs)) + sum_list (map f (drop i xs))"
    by (metis append_take_drop_id map_append sum_list_append)
  then show ?thesis by (simp add: insert_at_def add.left_commute)
qed

lemma sum_list_remove_at [ledger]:
  fixes f :: "'a \<Rightarrow> 'b::comm_monoid_add"
  assumes "i < length xs"
  shows "f (xs ! i) + sum_list (map f (remove_at i xs)) = sum_list (map f xs)"
proof -
  have "map f xs = map f (take i xs) @ f (xs ! i) # map f (drop (Suc i) xs)"
    using assms by (metis id_take_nth_drop list.simps(9) map_append)
  then show ?thesis by (simp add: remove_at_def add.left_commute)
qed

lemma filter_length_remove_at:
  assumes "i < length xs"
  shows "length (filter P (remove_at i xs)) + (if P (xs ! i) then 1 else 0) = length (filter P xs)"
proof -
  have "filter P xs = filter P (take i xs) @ filter P [xs ! i] @ filter P (drop (Suc i) xs)"
    using assms by (metis append_Cons append_Nil filter_append id_take_nth_drop)
  then show ?thesis by (simp add: remove_at_def)
qed

lemma filter_length_insert_at:
  "length (filter P (insert_at i x xs)) = length (filter P xs) + (if P x then 1 else 0)"
proof -
  have "filter P xs = filter P (take i xs) @ filter P (drop i xs)"
    by (metis append_take_drop_id filter_append)
  then show ?thesis by (simp add: insert_at_def)
qed

lemma distinct_remove_at: "distinct xs \<Longrightarrow> distinct (remove_at i xs)"
proof -
  assume "distinct xs"
  then have "distinct (take i xs @ drop i xs)" by simp
  moreover have "set (drop (Suc i) xs) \<subseteq> set (drop i xs)" by (rule set_drop_subset_set_drop) simp
  moreover have "distinct (drop (Suc i) xs)" using \<open>distinct xs\<close> by simp
  ultimately show ?thesis unfolding remove_at_def distinct_append by blast
qed

lemma nth_notin_remove_at:
  assumes "distinct xs" "i < length xs" shows "xs ! i \<notin> set (remove_at i xs)"
proof -
  have "distinct (take i xs @ xs ! i # drop (Suc i) xs)" using assms by (simp flip: id_take_nth_drop)
  then show ?thesis by (simp add: remove_at_def)
qed

lemma map_remove_at: "map f (remove_at i xs) = remove_at i (map f xs)"
  by (simp add: remove_at_def take_map drop_map)

text \<open>An element put before the first one with a greater key keeps a list sorted by that key.\<close>

definition insert_by :: "('a \<Rightarrow> 'k::linorder) \<Rightarrow> 'a \<Rightarrow> 'a list \<Rightarrow> 'a list" where
  "insert_by key a xs =
     insert_at (case position (\<lambda>u. key a < key u) xs of Some i \<Rightarrow> i | None \<Rightarrow> length xs) a xs"

lemma sorted_insert_by:
  assumes "sorted (map key xs)"
  shows "sorted (map key (insert_by key a xs))"
proof (cases "position (\<lambda>u. key a < key u) xs")
  case None
  then have "insert_by key a xs = xs @ [a]" by (simp add: insert_by_def insert_at_def)
  with None show ?thesis
    using assms by (auto simp: sorted_append position_None not_less)
next
  case (Some i)
  then have i: "i < length xs" "key a < key (xs ! i)" "\<And>j. j < i \<Longrightarrow> \<not> key a < key (xs ! j)"
    by (auto dest: position_Some)
  have pre: "key u \<le> key a" if "u \<in> set (take i xs)" for u
    using that i(1,3) by (auto simp: in_set_conv_nth not_less)
  have post: "key a \<le> key u" if "u \<in> set (drop i xs)" for u
  proof -
    from that obtain k where k: "i + k < length xs" "u = xs ! (i + k)"
      unfolding in_set_conv_nth using i(1) by (force simp: less_diff_conv add.commute)
    then have "key (xs ! i) \<le> key (xs ! (i + k))"
      using assms by (auto simp: sorted_iff_nth_mono)
    with i(2) k show ?thesis by simp
  qed
  have "map key xs = map key (take i xs) @ map key (drop i xs)"
    by (metis append_take_drop_id map_append)
  then have "sorted (map key (take i xs) @ map key (drop i xs))"
    using assms by simp
  then show ?thesis
    using pre post Some by (auto simp: insert_by_def insert_at_def sorted_append)
qed

lemma set_insert_by [simp]: "set (insert_by key a xs) = insert a (set xs)"
  by (simp add: insert_by_def)

lemma length_insert_by [simp]: "length (insert_by key a xs) = Suc (length xs)"
  by (simp add: insert_by_def)

lemma sum_list_insert_by [ledger]:
  fixes f :: "'a \<Rightarrow> 'b::comm_monoid_add"
  shows "sum_list (map f (insert_by key a xs)) = f a + sum_list (map f xs)"
  by (simp add: insert_by_def sum_list_insert_at)

lemma sorted_wrt_remove_at: "sorted_wrt P xs \<Longrightarrow> sorted_wrt P (remove_at i xs)"
proof -
  assume "sorted_wrt P xs"
  then have "sorted_wrt P (take i xs @ drop i xs)" by simp
  moreover have "set (drop (Suc i) xs) \<subseteq> set (drop i xs)"
    by (rule set_drop_subset_set_drop) simp
  moreover have "sorted_wrt P (drop (Suc i) xs)"
    using \<open>sorted_wrt P xs\<close> by (rule sorted_wrt_drop)
  ultimately show ?thesis
    unfolding remove_at_def sorted_wrt_append by blast
qed

lemma sorted_map_remove_at: "sorted (map key xs) \<Longrightarrow> sorted (map key (remove_at i xs))"
  by (simp add: sorted_map sorted_wrt_remove_at)

end
