(* ===== verification/BMap.thy ===== *)
theory BMap
  imports Prelude
begin

text \<open>
  The standard library's \<open>BTreeMap\<close>: a finite map whose iteration is in key order. Its
  representation is the association list of its entries, strictly sorted by key, so the order the
  code iterates in is part of the model and sums over its entries are sums over a list.

  \<open>bget\<close> is \<open>get\<close>, \<open>bput\<close> is \<open>insert\<close>, \<open>bdel\<close> is \<open>remove\<close>, \<open>bupd d f k\<close> is
  \<open>entry(k).or_insert(d)\<close> followed by an update through the reference it returns, \<open>entries\<close> is
  \<open>iter\<close>, \<open>bmapv\<close> an update of every value in place, and \<open>bsum f\<close> the sum of \<open>f\<close> over
  the values.
\<close>

section \<open>Sorted association lists\<close>

definition ssorted :: "('k::linorder \<times> 'v) list \<Rightarrow> bool" where
  "ssorted xs \<longleftrightarrow> sorted_wrt (<) (map fst xs)"

fun al_put :: "'k::linorder \<Rightarrow> 'v \<Rightarrow> ('k \<times> 'v) list \<Rightarrow> ('k \<times> 'v) list" where
  "al_put k v [] = [(k, v)]"
| "al_put k v ((a, b) # xs) =
     (if k < a then (k, v) # (a, b) # xs
      else if k = a then (k, v) # xs
      else (a, b) # al_put k v xs)"

lemma fst_al_put: "fst ` set (al_put k v xs) = insert k (fst ` set xs)"
  by (induction k v xs rule: al_put.induct) auto

lemma ssorted_al_put: "ssorted xs \<Longrightarrow> ssorted (al_put k v xs)"
  unfolding ssorted_def
  by (induction k v xs rule: al_put.induct)
    (auto simp: fst_al_put [unfolded image_set, simplified] fst_al_put image_iff)

lemma ssorted_filter: "ssorted xs \<Longrightarrow> ssorted (filter P xs)"
  unfolding ssorted_def by (induction xs) auto

lemma ssorted_distinct: "ssorted xs \<Longrightarrow> distinct (map fst xs)"
  unfolding ssorted_def by (simp add: strict_sorted_iff)

lemma map_of_al_put: "map_of (al_put k v xs) = (map_of xs)(k \<mapsto> v)"
  by (induction k v xs rule: al_put.induct) auto

lemma map_of_filter_key: "map_of (filter (\<lambda>e. fst e \<noteq> k) xs) = (map_of xs)(k := None)"
  by (induction xs) (auto simp: fun_eq_iff)

lemma ssorted_map_snd: "ssorted xs \<Longrightarrow> ssorted (map (\<lambda>(k, v). (k, f k v)) xs)"
  unfolding ssorted_def by (simp add: comp_def case_prod_beta)

lemma ssorted_eqI:
  assumes "ssorted xs" "ssorted ys" "map_of xs = map_of ys"
  shows "xs = ys"
proof -
  have d: "distinct (map fst xs)" "distinct (map fst ys)"
    using assms(1,2) by (simp_all add: ssorted_distinct)
  with assms(3) have "set xs = set ys"
    by (simp add: map_of_inject_set)
  moreover from assms(1,2) have "sorted (map fst xs)" "sorted (map fst ys)"
    by (simp_all add: ssorted_def strict_sorted_iff)
  moreover from d have "inj_on fst (set xs \<union> set ys)"
    using \<open>set xs = set ys\<close> by (simp add: distinct_map)
  ultimately show ?thesis
    using d by (auto intro: map_sorted_distinct_set_unique simp: distinct_map)
qed

section \<open>The type\<close>

typedef (overloaded) ('k, 'v) bmap = "{xs :: ('k::linorder \<times> 'v) list. ssorted xs}"
  morphisms entries BMap_of
proof
  show "[] \<in> {xs :: ('k::linorder \<times> 'v) list. ssorted xs}" by (simp add: ssorted_def)
qed

setup_lifting type_definition_bmap

lemma entries_sorted [simp]: "ssorted (entries m)"
  using entries [of m] by simp

lift_definition bempty :: "('k::linorder, 'v) bmap" is "[]"
  by (simp add: ssorted_def)

lift_definition bget :: "('k::linorder, 'v) bmap \<Rightarrow> 'k \<Rightarrow> 'v option" is map_of .

lift_definition bput :: "'k::linorder \<Rightarrow> 'v \<Rightarrow> ('k, 'v) bmap \<Rightarrow> ('k, 'v) bmap" is al_put
  by (rule ssorted_al_put)

lift_definition bdel :: "'k::linorder \<Rightarrow> ('k, 'v) bmap \<Rightarrow> ('k, 'v) bmap"
  is "\<lambda>k. filter (\<lambda>e. fst e \<noteq> k)"
  by (rule ssorted_filter)

lift_definition bmapv :: "('k \<Rightarrow> 'v \<Rightarrow> 'w) \<Rightarrow> ('k::linorder, 'v) bmap \<Rightarrow> ('k, 'w) bmap"
  is "\<lambda>f. map (\<lambda>(k, v). (k, f k v))"
  by (rule ssorted_map_snd)

definition bupd :: "'v \<Rightarrow> ('v \<Rightarrow> 'v) \<Rightarrow> 'k::linorder \<Rightarrow> ('k, 'v) bmap \<Rightarrow> ('k, 'v) bmap" where
  "bupd d f k m = bput k (f (case bget m k of None \<Rightarrow> d | Some v \<Rightarrow> v)) m"

definition bvals :: "('k::linorder, 'v) bmap \<Rightarrow> 'v list" where
  "bvals m = map snd (entries m)"

definition bkeys :: "('k::linorder, 'v) bmap \<Rightarrow> 'k list" where
  "bkeys m = map fst (entries m)"

definition bsum :: "('v \<Rightarrow> nat) \<Rightarrow> ('k::linorder, 'v) bmap \<Rightarrow> nat" where
  "bsum f m = sum_list (map f (bvals m))"

definition bor :: "'v \<Rightarrow> 'v option \<Rightarrow> 'v" where
  "bor d x = (case x of None \<Rightarrow> d | Some v \<Rightarrow> v)"

lemma bor_simps [simp]: "bor d None = d" "bor d (Some v) = v"
  by (simp_all add: bor_def)

section \<open>Lookup after an update\<close>

lemma entries_bempty [simp]: "entries bempty = []"
  by (rule bempty.rep_eq)

lemma entries_bput [simp]: "entries (bput k v m) = al_put k v (entries m)"
  by (rule bput.rep_eq)

lemma entries_bdel [simp]: "entries (bdel k m) = filter (\<lambda>e. fst e \<noteq> k) (entries m)"
  by (rule bdel.rep_eq)

lemma entries_bmapv [simp]: "entries (bmapv f m) = map (\<lambda>(k, v). (k, f k v)) (entries m)"
  by (rule bmapv.rep_eq)

lemma bget_bempty [simp]: "bget bempty = Map.empty"
  by (simp add: bget.rep_eq)

lemma bget_bput [simp]: "bget (bput k v m) = (bget m)(k \<mapsto> v)"
  by (simp add: bget.rep_eq map_of_al_put)

lemma bget_bdel [simp]: "bget (bdel k m) = (bget m)(k := None)"
  by (simp add: bget.rep_eq map_of_filter_key)

lemma bget_bupd [simp]: "bget (bupd d f k m) = (bget m)(k \<mapsto> f (bor d (bget m k)))"
  by (simp add: bupd_def bor_def)

lemma bget_bmapv [simp]: "bget (bmapv f m) k = map_option (f k) (bget m k)"
proof -
  have "map_of (map (\<lambda>(k, v). (k, f k v)) xs) k = map_option (f k) (map_of xs k)" for xs
    by (induction xs) auto
  then show ?thesis by (simp add: bget.rep_eq)
qed

lemma bmap_eqI: "(\<And>k. bget m k = bget n k) \<Longrightarrow> m = n"
  by (metis bget.rep_eq entries_inject entries_sorted ext ssorted_eqI)

lemma bget_entries: "bget m k = Some v \<longleftrightarrow> (k, v) \<in> set (entries m)"
  by (simp add: bget.rep_eq ssorted_distinct)

lemma bput_same [simp]: "bget m k = Some v \<Longrightarrow> bput k v m = m"
  by (rule bmap_eqI) auto

lemma bdel_notin [simp]: "bget m k = None \<Longrightarrow> bdel k m = m"
  by (rule bmap_eqI) auto

lemma bput_bput [simp]: "bput k v (bput k w m) = bput k v m"
  by (rule bmap_eqI) simp

lemma bdel_bput [simp]: "bdel k (bput k v m) = bdel k m"
  by (rule bmap_eqI) simp

lemma set_bvals: "v \<in> set (bvals m) \<longleftrightarrow> (\<exists>k. bget m k = Some v)"
  by (auto simp: bvals_def bget_entries image_iff) (metis snd_conv)+

lemma set_bkeys: "k \<in> set (bkeys m) \<longleftrightarrow> bget m k \<noteq> None"
  by (auto simp: bkeys_def bget.rep_eq map_of_eq_None_iff image_iff)

section \<open>Sums over the values\<close>

lemma al_put_sum:
  fixes f :: "'v \<Rightarrow> nat"
  assumes "ssorted xs"
  shows "sum_list (map (f \<circ> snd) (al_put k v xs)) + (case map_of xs k of None \<Rightarrow> 0 | Some w \<Rightarrow> f w)
       = sum_list (map (f \<circ> snd) xs) + f v"
  using assms
proof (induction k v xs rule: al_put.induct)
  case (2 k v a b xs)
  have tail: "ssorted xs" and lt: "\<forall>x\<in>set xs. a < fst x"
    using "2.prems" by (auto simp: ssorted_def)
  have "map_of xs k = None" if "k < a \<or> k = a"
    using lt that by (force simp: map_of_eq_None_iff)
  with "2.IH" [OF _ _ tail] show ?case by (auto split: if_splits)
qed simp

lemma filter_key_sum:
  fixes f :: "'v \<Rightarrow> nat"
  assumes "distinct (map fst xs)"
  shows "sum_list (map (f \<circ> snd) (filter (\<lambda>e. fst e \<noteq> k) xs))
           + (case map_of xs k of None \<Rightarrow> 0 | Some w \<Rightarrow> f w)
       = sum_list (map (f \<circ> snd) xs)"
  using assms
proof (induction xs)
  case (Cons x xs)
  have "filter (\<lambda>e. fst e \<noteq> k) xs = xs" if "fst x = k"
    using Cons.prems that by (auto simp: filter_id_conv image_iff)
  with Cons show ?case by (cases x) auto
qed simp

lemma bsum_bempty [simp]: "bsum f bempty = 0"
  by (simp add: bsum_def bvals_def)

lemma bsum_bput [ledger]:
  "bsum f (bput k v m) + (case bget m k of None \<Rightarrow> 0 | Some w \<Rightarrow> f w) = bsum f m + f v"
  using al_put_sum [OF entries_sorted, of f k v m] by (simp add: bsum_def bvals_def bget.rep_eq)

lemma bsum_bput_new [simp]: "bget m k = None \<Longrightarrow> bsum f (bput k v m) = bsum f m + f v"
  using bsum_bput [of f k v m] by simp

lemma bsum_bput_old: "bget m k = Some w \<Longrightarrow> bsum f (bput k v m) + f w = bsum f m + f v"
  using bsum_bput [of f k v m] by simp

lemma bsum_bdel [ledger]:
  "bsum f (bdel k m) + (case bget m k of None \<Rightarrow> 0 | Some w \<Rightarrow> f w) = bsum f m"
  using filter_key_sum [OF ssorted_distinct [OF entries_sorted], of f k m]
  by (simp add: bsum_def bvals_def bget.rep_eq)

lemma bsum_bdel_old: "bget m k = Some w \<Longrightarrow> bsum f (bdel k m) + f w = bsum f m"
  using bsum_bdel [of f k m] by simp

lemma bsum_bupd [ledger]:
  "bsum f (bupd d g k m) + (case bget m k of None \<Rightarrow> 0 | Some w \<Rightarrow> f w)
     = bsum f m + f (g (bor d (bget m k)))"
  unfolding bupd_def bor_def by (rule bsum_bput)

lemma bsum_bupd_add:
  assumes "f (g (bor d (bget m k))) = f (bor d (bget m k)) + n" and "f d = 0"
  shows "bsum f (bupd d g k m) = bsum f m + n"
  using bsum_bupd [of f d g k m] assms by (cases "bget m k") auto

lemma bsum_ge: "bget m k = Some v \<Longrightarrow> f v \<le> bsum f m"
  by (metis bsum_bdel_old le_add2)

lemma bsum_cong: "(\<And>k v. bget m k = Some v \<Longrightarrow> f v = g v) \<Longrightarrow> bsum f m = bsum g m"
  unfolding bsum_def by (intro arg_cong [where f = sum_list] map_cong) (auto simp: set_bvals)

lemma bsum_zero: "(\<And>k v. bget m k = Some v \<Longrightarrow> f v = 0) \<Longrightarrow> bsum f m = 0"
  using bsum_cong [of m f "\<lambda>_. 0"] by (simp add: bsum_def)

lemma bsum_add: "bsum (\<lambda>v. f v + g v) m = bsum f m + bsum g m"
  by (simp add: bsum_def sum_list_addf)

section \<open>The map interface\<close>

text \<open>What a client of a map relies on: lookup after an insertion and after a removal.\<close>

locale finite_map =
  fixes empty_m :: "'m" and put :: "'k \<Rightarrow> 'v \<Rightarrow> 'm \<Rightarrow> 'm" and del :: "'k \<Rightarrow> 'm \<Rightarrow> 'm"
    and get :: "'m \<Rightarrow> 'k \<Rightarrow> 'v option"
  assumes get_empty: "get empty_m k = None"
    and get_put: "get (put k v m) k' = (if k' = k then Some v else get m k')"
    and get_del: "get (del k m) k' = (if k' = k then None else get m k')"
    and map_ext: "(\<And>k. get m k = get n k) \<Longrightarrow> m = n"
begin

lemma put_commute: "k \<noteq> k' \<Longrightarrow> put k v (put k' v' m) = put k' v' (put k v m)"
  by (rule map_ext) (simp add: get_put)

lemma del_put_other: "k \<noteq> k' \<Longrightarrow> del k (put k' v m) = put k' v (del k m)"
  by (rule map_ext) (simp add: get_put get_del)

lemma put_del_restore: "get m k = Some v \<Longrightarrow> put k v (del k m) = m"
  by (rule map_ext) (simp add: get_put get_del)

lemma del_empty: "del k empty_m = empty_m"
  by (rule map_ext) (simp add: get_empty get_del)

end

interpretation bm: finite_map bempty bput bdel bget
  by unfold_locales (auto intro: bmap_eqI)

end
