(* ===== verification/Items.thy ===== *)
theory Items
  imports BMap
begin

text \<open>
  What can sit in a hangar's stores (\<open>crates/bc-econ/src/item.rs\<close>): the ores, materials, suit
  parts, weapons, equipment modules and consumables, and the small enums of the wire format and
  the content tables they are made of (\<open>crates/bc-proto/src/types.rs\<close>,
  \<open>crates/bc-sim/src/content/\<close>). An item has a slug, which is how it travels and is saved, and
  a code, which orders it. The lemmas show that the code orders items totally (no two items
  share one), and that every valid item is read back from its slug.
\<close>

section \<open>The wire format's enums\<close>

text \<open>\<open>bc_proto::types\<close>: suit frames, parts and weapons, in the order of their discriminants.\<close>

datatype frame_id = Argo
  | Altair
  | Corvus
  | Cetus
  | Antares
  | Algol
  | Canopus
  | Thuban
  | Aquila
  | Sagittarius
  | Corona

definition frame_all :: "frame_id list" where
  "frame_all = [Argo, Altair, Corvus, Cetus, Antares, Algol, Canopus, Thuban, Aquila, Sagittarius, Corona]"

fun frame_slug :: "frame_id \<Rightarrow> string" where
  "frame_slug Argo = ''argo''"
| "frame_slug Altair = ''altair''"
| "frame_slug Corvus = ''corvus''"
| "frame_slug Cetus = ''cetus''"
| "frame_slug Antares = ''antares''"
| "frame_slug Algol = ''algol''"
| "frame_slug Canopus = ''canopus''"
| "frame_slug Thuban = ''thuban''"
| "frame_slug Aquila = ''aquila''"
| "frame_slug Sagittarius = ''sagittarius''"
| "frame_slug Corona = ''corona''"

definition old_frame_slugs :: "(string \<times> frame_id) list" where
  "old_frame_slugs =
     [(''leo'', Argo), (''wingzero'', Altair), (''wing'', Altair), (''zero'', Altair),
      (''taurus'', Corvus), (''virgo'', Cetus), (''heavyarms'', Antares), (''deathscythe'', Algol),
      (''sandrock'', Canopus), (''shenlong'', Thuban), (''neobird'', Aquila)]"

datatype part = Head | Torso | ArmL | ArmR | Legs | Backpack

definition part_all :: "part list" where
  "part_all = [Head, Torso, ArmL, ArmR, Legs, Backpack]"

datatype weapon_kind = BeamRifle
  | MachineCannon
  | BeamSaber
  | HeavyBeamRifle
  | BeamCannon
  | BeamGatling
  | HomingMissile
  | CombatKnife
  | ChestGatling
  | MicroMissile
  | ClawShield
  | HeadGun
  | BeamScythe
  | BeamMachineGun
  | HeatBlade
  | PincerStrike
  | Talon
  | Flamethrower
  | BeamGlaive
  | BeamRifleCharged
  | Reactor
  | ReactorCannon
  | BeamGun

definition weapon_all :: "weapon_kind list" where
  "weapon_all = [BeamRifle, MachineCannon, BeamSaber, HeavyBeamRifle, BeamCannon, BeamGatling, HomingMissile, CombatKnife, ChestGatling, MicroMissile, ClawShield, HeadGun, BeamScythe, BeamMachineGun, HeatBlade, PincerStrike, Talon, Flamethrower, BeamGlaive, BeamRifleCharged, Reactor, ReactorCannon, BeamGun]"

text \<open>\<open>f as u8\<close>: the discriminants, in declaration order.\<close>

fun frame_ix :: "frame_id \<Rightarrow> nat" where
  "frame_ix Argo = 0"
| "frame_ix Altair = 1"
| "frame_ix Corvus = 2"
| "frame_ix Cetus = 3"
| "frame_ix Antares = 4"
| "frame_ix Algol = 5"
| "frame_ix Canopus = 6"
| "frame_ix Thuban = 7"
| "frame_ix Aquila = 8"
| "frame_ix Sagittarius = 9"
| "frame_ix Corona = 10"

fun part_ix :: "part \<Rightarrow> nat" where
  "part_ix Head = 0"
| "part_ix Torso = 1"
| "part_ix ArmL = 2"
| "part_ix ArmR = 3"
| "part_ix Legs = 4"
| "part_ix Backpack = 5"

fun weapon_ix :: "weapon_kind \<Rightarrow> nat" where
  "weapon_ix BeamRifle = 0"
| "weapon_ix MachineCannon = 1"
| "weapon_ix BeamSaber = 2"
| "weapon_ix HeavyBeamRifle = 3"
| "weapon_ix BeamCannon = 4"
| "weapon_ix BeamGatling = 5"
| "weapon_ix HomingMissile = 6"
| "weapon_ix CombatKnife = 7"
| "weapon_ix ChestGatling = 8"
| "weapon_ix MicroMissile = 9"
| "weapon_ix ClawShield = 10"
| "weapon_ix HeadGun = 11"
| "weapon_ix BeamScythe = 12"
| "weapon_ix BeamMachineGun = 13"
| "weapon_ix HeatBlade = 14"
| "weapon_ix PincerStrike = 15"
| "weapon_ix Talon = 16"
| "weapon_ix Flamethrower = 17"
| "weapon_ix BeamGlaive = 18"
| "weapon_ix BeamRifleCharged = 19"
| "weapon_ix Reactor = 20"
| "weapon_ix ReactorCannon = 21"
| "weapon_ix BeamGun = 22"

definition frame_from_bits :: "nat \<Rightarrow> frame_id option" where
  "frame_from_bits v = (if v < length frame_all then Some (frame_all ! v) else None)"

definition part_from_bits :: "nat \<Rightarrow> part option" where
  "part_from_bits v = (if v < length part_all then Some (part_all ! v) else None)"

definition weapon_from_bits :: "nat \<Rightarrow> weapon_kind option" where
  "weapon_from_bits v = (if v < length weapon_all then Some (weapon_all ! v) else None)"

text \<open>\<open>FrameId::from_slug\<close> ignores case, spaces, hyphens and underscores of its input.\<close>

definition ascii_lower :: "char \<Rightarrow> char" where
  "ascii_lower c = (let n = of_char c :: nat in if 65 \<le> n \<and> n \<le> 90 then char_of (n + 32) else c)"

definition same_slug :: "string \<Rightarrow> string \<Rightarrow> bool" where
  "same_slug input slug \<longleftrightarrow>
     map ascii_lower (filter (\<lambda>c. c \<noteq> CHR ''-'' \<and> c \<noteq> CHR ''_'' \<and> c \<noteq> CHR '' '') input) = slug"

definition frame_from_slug :: "string \<Rightarrow> frame_id option" where
  "frame_from_slug s =
     (case find (\<lambda>f. same_slug s (frame_slug f)) frame_all of
        Some f \<Rightarrow> Some f
      | None \<Rightarrow> map_option snd (find (\<lambda>(a, _). same_slug s a) old_frame_slugs))"

section \<open>The content tables' enums\<close>

text \<open>\<open>content::kits\<close>, \<open>content::modules\<close>, \<open>content::propellant\<close>, \<open>content::systems\<close>.\<close>

datatype kit = Patch | Coolant | Chaff | Stim

definition kit_all :: "kit list" where
  "kit_all = [Patch, Coolant, Chaff, Stim]"

fun kit_slug :: "kit \<Rightarrow> string" where
  "kit_slug Patch = ''patch_kit''"
| "kit_slug Coolant = ''coolant''"
| "kit_slug Chaff = ''chaff''"
| "kit_slug Stim = ''stim''"

fun kit_ix :: "kit \<Rightarrow> nat" where
  "kit_ix Patch = 0"
| "kit_ix Coolant = 1"
| "kit_ix Chaff = 2"
| "kit_ix Stim = 3"

definition RACK :: nat where "RACK = 3"

datatype module_kind = SensorArray
  | FireControlComputer
  | CapacitorBank
  | ReactorBooster
  | RadiatorPackage
  | CompositePlating
  | GSeat
  | DamageControl
  | AuxiliaryTank
  | ThrusterKit
  | LegVerniers
  | CargoRack
  | ExtendedTank
  | IonDrive

definition module_all :: "module_kind list" where
  "module_all = [SensorArray, FireControlComputer, CapacitorBank, ReactorBooster, RadiatorPackage, CompositePlating, GSeat, DamageControl, AuxiliaryTank, ThrusterKit, LegVerniers, CargoRack, ExtendedTank, IonDrive]"

fun module_slug :: "module_kind \<Rightarrow> string" where
  "module_slug SensorArray = ''sensor_array''"
| "module_slug FireControlComputer = ''fire_control_computer''"
| "module_slug CapacitorBank = ''capacitor_bank''"
| "module_slug ReactorBooster = ''reactor_booster''"
| "module_slug RadiatorPackage = ''radiator_package''"
| "module_slug CompositePlating = ''composite_plating''"
| "module_slug GSeat = ''g_seat''"
| "module_slug DamageControl = ''damage_control''"
| "module_slug AuxiliaryTank = ''auxiliary_tank''"
| "module_slug ThrusterKit = ''thruster_kit''"
| "module_slug LegVerniers = ''leg_verniers''"
| "module_slug CargoRack = ''cargo_rack''"
| "module_slug ExtendedTank = ''extended_tank''"
| "module_slug IonDrive = ''ion_drive''"

fun module_code :: "module_kind \<Rightarrow> nat" where
  "module_code SensorArray = 1"
| "module_code FireControlComputer = 2"
| "module_code CapacitorBank = 3"
| "module_code ReactorBooster = 4"
| "module_code RadiatorPackage = 5"
| "module_code CompositePlating = 6"
| "module_code GSeat = 7"
| "module_code DamageControl = 8"
| "module_code AuxiliaryTank = 9"
| "module_code ThrusterKit = 10"
| "module_code LegVerniers = 11"
| "module_code CargoRack = 12"
| "module_code ExtendedTank = 13"
| "module_code IonDrive = 14"

fun module_part :: "module_kind \<Rightarrow> part" where
  "module_part SensorArray = Head"
| "module_part FireControlComputer = Head"
| "module_part AuxiliaryTank = Backpack"
| "module_part ThrusterKit = Backpack"
| "module_part IonDrive = Backpack"
| "module_part LegVerniers = Legs"
| "module_part CargoRack = Legs"
| "module_part _ = Torso"

definition module_from_slug :: "string \<Rightarrow> module_kind option" where
  "module_from_slug s = find (\<lambda>k. module_slug k = s) module_all"

definition MOUNTS :: "part list" where
  "MOUNTS = [Head, Torso, Torso, Legs, Backpack]"

datatype grade = Standard | Refined | UltraPure

datatype system = Sensors
  | FireControl
  | ReactorSys
  | Tank
  | Radiators
  | Gyros
  | Cockpit
  | ActuatorL
  | ActuatorR
  | LegThrusters
  | MainThrusters
  | Boosters

definition system_all :: "system list" where
  "system_all = [Sensors, FireControl, ReactorSys, Tank, Radiators, Gyros, Cockpit, ActuatorL, ActuatorR, LegThrusters, MainThrusters, Boosters]"

fun system_ix :: "system \<Rightarrow> nat" where
  "system_ix Sensors = 0"
| "system_ix FireControl = 1"
| "system_ix ReactorSys = 2"
| "system_ix Tank = 3"
| "system_ix Radiators = 4"
| "system_ix Gyros = 5"
| "system_ix Cockpit = 6"
| "system_ix ActuatorL = 7"
| "system_ix ActuatorR = 8"
| "system_ix LegThrusters = 9"
| "system_ix MainThrusters = 10"
| "system_ix Boosters = 11"

fun system_part :: "system \<Rightarrow> part" where
  "system_part Sensors = Head"
| "system_part FireControl = Head"
| "system_part ReactorSys = Torso"
| "system_part Tank = Torso"
| "system_part Radiators = Torso"
| "system_part Gyros = Torso"
| "system_part Cockpit = Torso"
| "system_part ActuatorL = ArmL"
| "system_part ActuatorR = ArmR"
| "system_part LegThrusters = Legs"
| "system_part MainThrusters = Backpack"
| "system_part Boosters = Backpack"

fun system_slug :: "system \<Rightarrow> string" where
  "system_slug Sensors = ''sensors''"
| "system_slug FireControl = ''fire_control''"
| "system_slug ReactorSys = ''reactor''"
| "system_slug Tank = ''tank''"
| "system_slug Radiators = ''radiators''"
| "system_slug Gyros = ''gyros''"
| "system_slug Cockpit = ''cockpit''"
| "system_slug ActuatorL = ''actuators_l''"
| "system_slug ActuatorR = ''actuators_r''"
| "system_slug LegThrusters = ''leg_thrusters''"
| "system_slug MainThrusters = ''main_thrusters''"
| "system_slug Boosters = ''boosters''"

definition system_from_slug :: "string \<Rightarrow> system option" where
  "system_from_slug s = find (\<lambda>x. system_slug x = s) system_all"

definition systems_of_part :: "part \<Rightarrow> system list" where
  "systems_of_part p = filter (\<lambda>s. system_part s = p) system_all"

text \<open>
  \<open>content::frames\<close>: where a weapon is carried, the part it hangs on, and each frame's three
  loadout mounts.
\<close>

datatype arm_slot = RightArm | LeftArm | Shoulder | HeadMount | Pods | Chest | LegPods | BothArms
  | Nose | NoseGuns

fun arm_part :: "arm_slot \<Rightarrow> part" where
  "arm_part RightArm = ArmR"
| "arm_part BothArms = ArmR"
| "arm_part Nose = ArmR"
| "arm_part LeftArm = ArmL"
| "arm_part Shoulder = Torso"
| "arm_part Pods = Torso"
| "arm_part Chest = Torso"
| "arm_part NoseGuns = Torso"
| "arm_part HeadMount = Head"
| "arm_part LegPods = Legs"

fun frame_loadout :: "frame_id \<Rightarrow> (weapon_kind \<times> arm_slot) option list" where
  "frame_loadout Argo =
     [Some (BeamRifle, RightArm), Some (MachineCannon, LeftArm), Some (BeamSaber, LeftArm)]"
| "frame_loadout Altair =
     [Some (HeavyBeamRifle, RightArm), Some (MachineCannon, Shoulder), Some (BeamSaber, LeftArm)]"
| "frame_loadout Corvus = [Some (BeamRifle, RightArm), None, None]"
| "frame_loadout Cetus = [Some (BeamCannon, RightArm), None, None]"
| "frame_loadout Antares =
     [Some (BeamGatling, RightArm), Some (HomingMissile, Pods), Some (CombatKnife, LeftArm)]"
| "frame_loadout Algol =
     [Some (ClawShield, LeftArm), Some (HeadGun, HeadMount), Some (BeamScythe, RightArm)]"
| "frame_loadout Canopus =
     [Some (BeamMachineGun, RightArm), Some (HomingMissile, Pods), Some (HeatBlade, BothArms)]"
| "frame_loadout Thuban =
     [Some (Talon, RightArm), Some (Flamethrower, RightArm), Some (BeamGlaive, LeftArm)]"
| "frame_loadout Aquila = [Some (HeavyBeamRifle, Nose), Some (MachineCannon, NoseGuns), None]"
| "frame_loadout Sagittarius = [Some (ReactorCannon, RightArm), None, None]"
| "frame_loadout Corona = [Some (BeamGun, RightArm), None, Some (BeamSaber, LeftArm)]"

fun is_lodestar :: "frame_id \<Rightarrow> bool" where
  "is_lodestar Altair = True"
| "is_lodestar Aquila = True"
| "is_lodestar Antares = True"
| "is_lodestar Algol = True"
| "is_lodestar Canopus = True"
| "is_lodestar Thuban = True"
| "is_lodestar _ = False"

section \<open>Ores and materials\<close>

datatype ore = NickelIron | Titanium | Volatiles | Exotics

definition ore_all :: "ore list" where
  "ore_all = [NickelIron, Titanium, Volatiles, Exotics]"

fun ore_slug :: "ore \<Rightarrow> string" where
  "ore_slug NickelIron = ''nickel_iron''"
| "ore_slug Titanium = ''titanium''"
| "ore_slug Volatiles = ''volatiles''"
| "ore_slug Exotics = ''exotics''"

fun ore_ix :: "ore \<Rightarrow> nat" where
  "ore_ix NickelIron = 0"
| "ore_ix Titanium = 1"
| "ore_ix Volatiles = 2"
| "ore_ix Exotics = 3"

definition ore_from_cargo :: "nat \<Rightarrow> ore option" where
  "ore_from_cargo k = (if k < length ore_all then Some (ore_all ! k) else None)"

datatype material = Steel
  | TitaniumAlloy
  | Propellant
  | Electronics
  | Munitions
  | Siderium
  | Components
  | RefinedPropellant
  | UltraPropellant

definition material_all :: "material list" where
  "material_all = [Steel, TitaniumAlloy, Propellant, Electronics, Munitions, Siderium, Components, RefinedPropellant, UltraPropellant]"

fun material_slug :: "material \<Rightarrow> string" where
  "material_slug Steel = ''steel''"
| "material_slug TitaniumAlloy = ''ti_alloy''"
| "material_slug Propellant = ''propellant''"
| "material_slug Electronics = ''electronics''"
| "material_slug Munitions = ''munitions''"
| "material_slug Siderium = ''siderium''"
| "material_slug Components = ''components''"
| "material_slug RefinedPropellant = ''propellant_refined''"
| "material_slug UltraPropellant = ''propellant_ultra''"

fun material_ix :: "material \<Rightarrow> nat" where
  "material_ix Steel = 0"
| "material_ix TitaniumAlloy = 1"
| "material_ix Propellant = 2"
| "material_ix Electronics = 3"
| "material_ix Munitions = 4"
| "material_ix Siderium = 5"
| "material_ix Components = 6"
| "material_ix RefinedPropellant = 7"
| "material_ix UltraPropellant = 8"

section \<open>Lines, weapons and items\<close>

text \<open>The frame lines a pilot can build (\<open>PLAYABLE_ORDER\<close>), and their slugs, old and new.\<close>

definition LINES :: "frame_id list" where
  "LINES = [Argo, Altair, Antares, Algol, Canopus, Thuban]"

definition is_line :: "frame_id \<Rightarrow> bool" where
  "is_line l \<longleftrightarrow> l \<in> set LINES"

definition line_from_slug :: "string \<Rightarrow> frame_id option" where
  "line_from_slug s =
     find (\<lambda>l. frame_slug l = s \<or> (\<exists>(a, f)\<in>set old_frame_slugs. f = l \<and> a = s)) LINES"

fun line_of :: "frame_id \<Rightarrow> frame_id" where
  "line_of Aquila = Altair"
| "line_of f = f"

fun part_slug :: "part \<Rightarrow> string" where
  "part_slug Head = ''head''"
| "part_slug Torso = ''torso''"
| "part_slug ArmL = ''arm_l''"
| "part_slug ArmR = ''arm_r''"
| "part_slug Legs = ''legs''"
| "part_slug Backpack = ''backpack''"

definition parse_part :: "string \<Rightarrow> part option" where
  "parse_part s = find (\<lambda>p. part_slug p = s) part_all"

fun weapon_slug :: "weapon_kind \<Rightarrow> string" where
  "weapon_slug BeamRifle = ''beam_rifle''"
| "weapon_slug MachineCannon = ''machine_cannon''"
| "weapon_slug BeamSaber = ''beam_saber''"
| "weapon_slug HeavyBeamRifle = ''heavy_beam_rifle''"
| "weapon_slug BeamCannon = ''beam_cannon''"
| "weapon_slug BeamGatling = ''beam_gatling''"
| "weapon_slug HomingMissile = ''homing_missiles''"
| "weapon_slug CombatKnife = ''combat_knife''"
| "weapon_slug ChestGatling = ''chest_gatlings''"
| "weapon_slug MicroMissile = ''micro_missiles''"
| "weapon_slug ClawShield = ''claw_shield''"
| "weapon_slug HeadGun = ''head_guns''"
| "weapon_slug BeamScythe = ''beam_scythe''"
| "weapon_slug BeamMachineGun = ''beam_machine_gun''"
| "weapon_slug HeatBlade = ''heat_blades''"
| "weapon_slug PincerStrike = ''pincer_strike''"
| "weapon_slug Talon = ''talon''"
| "weapon_slug Flamethrower = ''flamethrower''"
| "weapon_slug BeamGlaive = ''beam_glaive''"
| "weapon_slug BeamRifleCharged = ''beam_rifle_charged''"
| "weapon_slug Reactor = ''reactor''"
| "weapon_slug ReactorCannon = ''reactor_cannon''"
| "weapon_slug BeamGun = ''beam_gun''"

definition OLD_SIDERIUM_SLUG :: string where "OLD_SIDERIUM_SLUG = ''gundanium''"

definition old_weapon_slugs :: "(string \<times> weapon_kind) list" where
  "old_weapon_slugs =
     [(''twin_buster_rifle'', HeavyBeamRifle), (''army_knife'', CombatKnife), (''buster_shield'', ClawShield), (''head_vulcans'', HeadGun), (''heat_shotels'', HeatBlade), (''cross_crusher'', PincerStrike), (''dragon_fang'', Talon)]"

text \<open>The weapons that are items: every weapon on a buildable line's loadout.\<close>

definition is_item_weapon :: "weapon_kind \<Rightarrow> bool" where
  "is_item_weapon w \<longleftrightarrow>
     (\<exists>l\<in>set LINES. \<exists>m\<in>set (frame_loadout l). case m of None \<Rightarrow> False | Some (k, _) \<Rightarrow> k = w)"

definition item_weapons :: "weapon_kind list" where
  "item_weapons = filter is_item_weapon weapon_all"

datatype item = IOre ore | IMaterial material | IPart frame_id part | IWeapon weapon_kind
  | IModule module_kind | IKit kit

definition item_all :: "item list" where
  "item_all = map IOre ore_all @ map IMaterial material_all
     @ concat (map (\<lambda>l. map (IPart l) part_all) LINES)
     @ map IWeapon item_weapons @ map IModule module_all @ map IKit kit_all"

fun item_code :: "item \<Rightarrow> nat" where
  "item_code (IOre a) = ore_ix a"
| "item_code (IMaterial m) = 16 + material_ix m"
| "item_code (IPart l p) = 64 + frame_ix l * 8 + part_ix p"
| "item_code (IWeapon w) = 256 + weapon_ix w"
| "item_code (IModule k) = 512 + module_code k"
| "item_code (IKit k) = 768 + kit_ix k"

fun item_bulk :: "item \<Rightarrow> bool" where
  "item_bulk (IOre _) = True"
| "item_bulk (IMaterial _) = True"
| "item_bulk _ = False"

fun item_valid :: "item \<Rightarrow> bool" where
  "item_valid (IOre _) = True"
| "item_valid (IMaterial _) = True"
| "item_valid (IPart l _) = is_line l"
| "item_valid (IWeapon w) = is_item_weapon w"
| "item_valid (IModule _) = True"
| "item_valid (IKit _) = True"

fun item_slug :: "item \<Rightarrow> string" where
  "item_slug (IOre a) = ''ore.'' @ ore_slug a"
| "item_slug (IMaterial m) = ''mat.'' @ material_slug m"
| "item_slug (IPart l p) = ''part.'' @ frame_slug l @ ''.'' @ part_slug p"
| "item_slug (IWeapon w) = ''weapon.'' @ weapon_slug w"
| "item_slug (IModule k) = ''module.'' @ module_slug k"
| "item_slug (IKit k) = ''kit.'' @ kit_slug k"

text \<open>\<open>str::split('.')\<close>: the pieces between the separators, at least one.\<close>

fun split_on :: "char \<Rightarrow> string \<Rightarrow> string list" where
  "split_on d [] = [[]]"
| "split_on d (c # cs) =
     (if c = d then [] # split_on d cs
      else case split_on d cs of [] \<Rightarrow> [[c]] | w # ws \<Rightarrow> (c # w) # ws)"

text \<open>\<open>Item::from_str\<close>; the error is \<open>BadItem\<close> with the text that was read.\<close>

datatype bad_item = BadItem string

definition or_bad :: "string \<Rightarrow> 'a option \<Rightarrow> bad_item + 'a" where
  "or_bad s x = (case x of None \<Rightarrow> Inl (BadItem s) | Some a \<Rightarrow> Inr a)"

definition item_from_str :: "string \<Rightarrow> bad_item + item" where
  "item_from_str s =
     (case split_on (CHR ''.'') s of
        [k, a] \<Rightarrow>
          (if k = ''ore'' then or_bad s (map_option IOre (find (\<lambda>x. ore_slug x = a) ore_all))
           else if k = ''mat'' then
             (let m = (if a = OLD_SIDERIUM_SLUG then material_slug Siderium else a)
              in or_bad s (map_option IMaterial (find (\<lambda>x. material_slug x = m) material_all)))
           else if k = ''weapon'' then
             (let w = (case find (\<lambda>(old, _). old = a) old_weapon_slugs of
                         None \<Rightarrow> a | Some (_, kind) \<Rightarrow> weapon_slug kind)
              in or_bad s (map_option IWeapon (find (\<lambda>x. weapon_slug x = w) item_weapons)))
           else if k = ''module'' then or_bad s (map_option IModule (module_from_slug a))
           else if k = ''kit'' then or_bad s (map_option IKit (find (\<lambda>x. kit_slug x = a) kit_all))
           else Inl (BadItem s))
      | [k, l, p] \<Rightarrow>
          (if k = ''part'' then
             (case line_from_slug l of None \<Rightarrow> Inl (BadItem s)
              | Some line \<Rightarrow> or_bad s (map_option (IPart line) (parse_part p)))
           else Inl (BadItem s))
      | _ \<Rightarrow> Inl (BadItem s))"

text \<open>\<open>thousands\<close>: a comma before every third digit from the right.\<close>

definition thousands_of :: "string \<Rightarrow> string" where
  "thousands_of ds =
     concat (map (\<lambda>(i, c). if 0 < i \<and> (length ds - i) mod 3 = 0 then [CHR '','', c] else [c])
       (enumerate 0 ds))"

lemma frame_ix_less [simp]: "frame_ix f < 11"
  by (cases f) simp_all

lemma frame_all_nth [simp]: "frame_all ! frame_ix f = f"
  by (cases f) (simp_all add: frame_all_def)

lemma frame_ix_inject [simp]: "frame_ix f = frame_ix f' \<longleftrightarrow> f = f'"
  by (metis frame_all_nth)

lemma in_frame_all [simp]: "f \<in> set frame_all"
  by (cases f) (simp_all add: frame_all_def)

lemma part_ix_less [simp]: "part_ix p < 6"
  by (cases p) simp_all

lemma part_all_nth [simp]: "part_all ! part_ix p = p"
  by (cases p) (simp_all add: part_all_def)

lemma part_ix_inject [simp]: "part_ix p = part_ix p' \<longleftrightarrow> p = p'"
  by (metis part_all_nth)

lemma in_part_all [simp]: "p \<in> set part_all"
  by (cases p) (simp_all add: part_all_def)

lemma weapon_ix_less [simp]: "weapon_ix w < 23"
  by (cases w) simp_all

lemma weapon_all_nth [simp]: "weapon_all ! weapon_ix w = w"
  by (cases w) (simp_all add: weapon_all_def)

lemma weapon_ix_inject [simp]: "weapon_ix w = weapon_ix w' \<longleftrightarrow> w = w'"
  by (metis weapon_all_nth)

lemma in_weapon_all [simp]: "w \<in> set weapon_all"
  by (cases w) (simp_all add: weapon_all_def)

lemma kit_ix_less [simp]: "kit_ix k < 4"
  by (cases k) simp_all

lemma kit_all_nth [simp]: "kit_all ! kit_ix k = k"
  by (cases k) (simp_all add: kit_all_def)

lemma kit_ix_inject [simp]: "kit_ix k = kit_ix k' \<longleftrightarrow> k = k'"
  by (metis kit_all_nth)

lemma in_kit_all [simp]: "k \<in> set kit_all"
  by (cases k) (simp_all add: kit_all_def)

lemma system_ix_less [simp]: "system_ix s < 12"
  by (cases s) simp_all

lemma system_all_nth [simp]: "system_all ! system_ix s = s"
  by (cases s) (simp_all add: system_all_def)

lemma system_ix_inject [simp]: "system_ix s = system_ix s' \<longleftrightarrow> s = s'"
  by (metis system_all_nth)

lemma in_system_all [simp]: "s \<in> set system_all"
  by (cases s) (simp_all add: system_all_def)

lemma ore_ix_less [simp]: "ore_ix a < 4"
  by (cases a) simp_all

lemma ore_all_nth [simp]: "ore_all ! ore_ix a = a"
  by (cases a) (simp_all add: ore_all_def)

lemma ore_ix_inject [simp]: "ore_ix a = ore_ix a' \<longleftrightarrow> a = a'"
  by (metis ore_all_nth)

lemma in_ore_all [simp]: "a \<in> set ore_all"
  by (cases a) (simp_all add: ore_all_def)

lemma material_ix_less [simp]: "material_ix m < 9"
  by (cases m) simp_all

lemma material_all_nth [simp]: "material_all ! material_ix m = m"
  by (cases m) (simp_all add: material_all_def)

lemma material_ix_inject [simp]: "material_ix m = material_ix m' \<longleftrightarrow> m = m'"
  by (metis material_all_nth)

lemma in_material_all [simp]: "m \<in> set material_all"
  by (cases m) (simp_all add: material_all_def)

lemma module_code_bounds [simp]: "0 < module_code k" "module_code k < 15"
  by (cases k; simp)+

lemma module_all_nth: "module_all ! (module_code k - 1) = k"
  by (cases k) (simp_all add: module_all_def)

lemma module_code_inject [simp]: "module_code k = module_code k' \<longleftrightarrow> k = k'"
  by (metis module_all_nth)

lemma in_module_all [simp]: "k \<in> set module_all"
  by (cases k) (simp_all add: module_all_def)

lemma length_frame_all: "length frame_all = 11"
  by (simp add: frame_all_def)

lemma frame_bits_roundtrip: "frame_from_bits (frame_ix f) = Some f"
  using frame_ix_less [of f] by (simp add: frame_from_bits_def length_frame_all del: frame_ix_less)

text \<open>The bands of the code: which kind of item a code belongs to.\<close>

definition code_band :: "nat \<Rightarrow> nat" where
  "code_band c = (if c < 16 then 0 else if c < 64 then 1 else if c < 256 then 2
     else if c < 512 then 3 else if c < 768 then 4 else 5)"

fun item_band :: "item \<Rightarrow> nat" where
  "item_band (IOre _) = 0"
| "item_band (IMaterial _) = 1"
| "item_band (IPart _ _) = 2"
| "item_band (IWeapon _) = 3"
| "item_band (IModule _) = 4"
| "item_band (IKit _) = 5"

lemma part_code_less: "frame_ix l * 8 + part_ix p < 192"
  using frame_ix_less [of l] part_ix_less [of p] by linarith

lemma code_band_item_code: "code_band (item_code i) = item_band i"
proof (cases i)
  case (IOre a)
  with ore_ix_less [of a] show ?thesis by (simp add: code_band_def del: ore_ix_less)
next
  case (IMaterial m)
  with material_ix_less [of m] show ?thesis by (simp add: code_band_def del: material_ix_less)
next
  case (IPart l p)
  with part_code_less [of l p] show ?thesis by (simp add: code_band_def)
next
  case (IWeapon w)
  with weapon_ix_less [of w] show ?thesis by (simp add: code_band_def del: weapon_ix_less)
next
  case (IModule k)
  with module_code_bounds [of k] show ?thesis by (simp add: code_band_def del: module_code_bounds)
next
  case (IKit k)
  with kit_ix_less [of k] show ?thesis by (simp add: code_band_def del: kit_ix_less)
qed

lemma part_code_inject:
  assumes "frame_ix l * 8 + part_ix p = frame_ix l' * 8 + part_ix p'"
  shows "l = l' \<and> p = p'"
proof -
  have "part_ix p < 8" "part_ix p' < 8"
    using part_ix_less [of p] part_ix_less [of p'] by linarith+
  with assms have "part_ix p = part_ix p'"
    by (metis mod_less mod_mult_self3)
  with assms show ?thesis by simp
qed

lemma item_code_inject [simp]: "item_code a = item_code b \<longleftrightarrow> a = b"
proof
  assume eq: "item_code a = item_code b"
  then have "item_band a = item_band b" by (metis code_band_item_code)
  with eq show "a = b"
    by (cases a; cases b) (simp_all add: part_code_inject)
qed simp

text \<open>\<open>Ord for Item\<close> compares the codes.\<close>

instantiation item :: linorder
begin

definition less_eq_item :: "item \<Rightarrow> item \<Rightarrow> bool" where
  "less_eq_item a b \<longleftrightarrow> item_code a \<le> item_code b"

definition less_item :: "item \<Rightarrow> item \<Rightarrow> bool" where
  "less_item a b \<longleftrightarrow> item_code a < item_code b"

instance
  by standard (auto simp: less_eq_item_def less_item_def order_antisym)

end

section \<open>Slugs\<close>

lemma split_on_none: "d \<notin> set w \<Longrightarrow> split_on d w = [w]"
  by (induction w) auto

lemma split_on_nonempty: "split_on d s \<noteq> []"
  by (induction s) (auto split: list.splits)

lemma split_on_sep: "d \<notin> set w \<Longrightarrow> split_on d (w @ d # s) = w # split_on d s"
  by (induction w) auto

text \<open>No slug holds a separator.\<close>

lemma slug_no_dot:
  "CHR ''.'' \<notin> set (frame_slug f)" "CHR ''.'' \<notin> set (part_slug p)"
  "CHR ''.'' \<notin> set (weapon_slug w)" "CHR ''.'' \<notin> set (kit_slug k)"
  "CHR ''.'' \<notin> set (module_slug m)" "CHR ''.'' \<notin> set (ore_slug a)"
  "CHR ''.'' \<notin> set (material_slug t)"
  subgoal by (cases f) simp_all
  subgoal by (cases p) simp_all
  subgoal by (cases w) simp_all
  subgoal by (cases k) simp_all
  subgoal by (cases m) simp_all
  subgoal by (cases a) simp_all
  subgoal by (cases t) simp_all
  done

lemma find_slug:
  "find (\<lambda>x. ore_slug x = ore_slug a) ore_all = Some a"
  "find (\<lambda>x. material_slug x = material_slug m) material_all = Some m"
  "find (\<lambda>x. kit_slug x = kit_slug k) kit_all = Some k"
  "find (\<lambda>x. module_slug x = module_slug e) module_all = Some e"
  "find (\<lambda>x. part_slug x = part_slug p) part_all = Some p"
  "find (\<lambda>x. system_slug x = system_slug s) system_all = Some s"
  subgoal by (cases a) (simp_all add: ore_all_def)
  subgoal by (cases m) (simp_all add: material_all_def)
  subgoal by (cases k) (simp_all add: kit_all_def)
  subgoal by (cases e) (simp_all add: module_all_def)
  subgoal by (cases p) (simp_all add: part_all_def)
  subgoal by (cases s) (simp_all add: system_all_def)
  done

lemma line_from_slug_slug: "is_line l \<Longrightarrow> line_from_slug (frame_slug l) = Some l"
  by (cases l) (simp_all add: line_from_slug_def LINES_def old_frame_slugs_def is_line_def)

lemma item_weapons_eq: "item_weapons = [BeamRifle, MachineCannon, BeamSaber, HeavyBeamRifle,
  BeamGatling, HomingMissile, CombatKnife, ClawShield, HeadGun, BeamScythe, BeamMachineGun,
  HeatBlade, Talon, Flamethrower, BeamGlaive]"
  by (simp add: item_weapons_def weapon_all_def is_item_weapon_def LINES_def)

lemma find_weapon_slug:
  "is_item_weapon w \<Longrightarrow> find (\<lambda>x. weapon_slug x = weapon_slug w) item_weapons = Some w"
  unfolding item_weapons_eq by (cases w) (simp_all add: is_item_weapon_def LINES_def)

lemma not_old_weapon_slug: "find (\<lambda>(old, _). old = weapon_slug w) old_weapon_slugs = None"
  by (cases w) (simp_all add: old_weapon_slugs_def)

lemma material_slug_not_old: "material_slug m \<noteq> OLD_SIDERIUM_SLUG"
  by (cases m) (simp_all add: OLD_SIDERIUM_SLUG_def)

text \<open>C15: every valid item is read back from the slug it is written as: \<open>from_str\<close> inverts
  \<open>slug\<close> on ores, materials, parts of buildable lines, item weapons, modules and kits.\<close>

theorem item_slug_roundtrip:
  assumes "item_valid i"
  shows "item_from_str (item_slug i) = Inr i"
proof -
  have two: "split_on CHR ''.'' (k @ CHR ''.'' # a) = [k, a]"
    if "CHR ''.'' \<notin> set k" "CHR ''.'' \<notin> set a" for k a
    using that by (simp add: split_on_sep split_on_none)
  show ?thesis
  proof (cases i)
    case (IOre a)
    with two [of "''ore''"] show ?thesis
      by (simp add: item_from_str_def slug_no_dot find_slug or_bad_def)
  next
    case (IMaterial m)
    with two [of "''mat''"] show ?thesis
      by (simp add: item_from_str_def slug_no_dot find_slug or_bad_def material_slug_not_old)
  next
    case (IPart l p)
    then have "split_on CHR ''.'' (item_slug i) = [''part'', frame_slug l, part_slug p]"
      using split_on_sep [of "CHR ''.''" "''part''"] by (simp add: slug_no_dot split_on_sep split_on_none)
    with IPart assms show ?thesis
      by (simp add: item_from_str_def line_from_slug_slug parse_part_def find_slug or_bad_def)
  next
    case (IWeapon w)
    with two [of "''weapon''"] assms show ?thesis
      by (simp add: item_from_str_def slug_no_dot find_weapon_slug not_old_weapon_slug or_bad_def)
  next
    case (IModule k)
    with two [of "''module''"] show ?thesis
      by (simp add: item_from_str_def slug_no_dot find_slug module_from_slug_def or_bad_def)
  next
    case (IKit k)
    with two [of "''kit''"] show ?thesis
      by (simp add: item_from_str_def slug_no_dot find_slug or_bad_def)
  qed
qed

theorem item_slug_roundtrip_witness:
  "item_valid (IPart Canopus ArmL) \<and> item_from_str ''part.canopus.arm_l'' = Inr (IPart Canopus ArmL)"
proof -
  have v: "item_valid (IPart Canopus ArmL)" by (simp add: is_line_def LINES_def)
  from item_slug_roundtrip [OF v] show ?thesis using v by simp
qed

text \<open>The slugs the game wrote before its renaming are still read, as the item they named: the
  seven old weapon slugs (for the weapons that are items), the old material slug, and a part of a
  line under each of the line's old slugs.\<close>

theorem old_slugs_read:
  "(\<forall>(old, w)\<in>set old_weapon_slugs. is_item_weapon w \<longrightarrow>
      item_from_str (''weapon.'' @ old) = Inr (IWeapon w))
   \<and> item_from_str (''mat.'' @ OLD_SIDERIUM_SLUG) = Inr (IMaterial Siderium)
   \<and> (\<forall>(old, l)\<in>set old_frame_slugs. is_line l \<longrightarrow>
      item_from_str (''part.'' @ old @ ''.head'') = Inr (IPart l Head))"
  by (simp add: old_weapon_slugs_def old_frame_slugs_def OLD_SIDERIUM_SLUG_def item_from_str_def
      or_bad_def line_from_slug_def parse_part_def item_weapons_eq LINES_def is_line_def
      is_item_weapon_def part_all_def material_all_def)

theorem old_slugs_read_witness:
  "(''dragon_fang'', Talon) \<in> set old_weapon_slugs \<and> is_item_weapon Talon
   \<and> item_from_str (''weapon.'' @ ''dragon_fang'') = Inr (IWeapon Talon)"
proof -
  have m: "(''dragon_fang'', Talon) \<in> set old_weapon_slugs" by (simp add: old_weapon_slugs_def)
  have w: "is_item_weapon Talon" by (simp add: is_item_weapon_def LINES_def)
  from old_slugs_read m w show ?thesis by blast
qed

text \<open>The order of items is the order of their codes, and no two items share a code, so the
  \<open>Ord\<close> the hangar's maps sort by agrees with equality; the codes keep the kinds in bands.\<close>

theorem item_order_total:
  "(item_code a = item_code b \<longleftrightarrow> a = b) \<and> (a < b \<longleftrightarrow> item_code a < item_code b)
   \<and> (item_band a < item_band b \<longrightarrow> a < b)"
proof -
  have "item_code a < item_code b" if "item_band a < item_band b"
    using that code_band_item_code [of a, symmetric] code_band_item_code [of b, symmetric]
    by (simp add: code_band_def split: if_splits)
  then show ?thesis by (simp add: less_item_def)
qed

theorem item_order_total_witness:
  "item_band (IKit Patch) < item_band (IKit Stim) \<or> IMaterial Steel < IWeapon Talon"
  using item_order_total [of "IMaterial Steel" "IWeapon Talon"] by simp

end
