(* ===== verification/Faults.thy ===== *)
theory Faults
  imports Items "HOL-Library.Word"
begin

unbundle bit_operations_syntax

text \<open>
  What is damaged or failed inside a suit's parts (\<open>crates/bc-econ/src/faults.rs\<close>), over the
  packed levels of \<open>crates/bc-sim/src/content/systems.rs\<close>: twelve systems, two bits each, in one
  \<open>u32\<close>. The lemmas show that the packed word behaves as a map from systems to levels (a level
  is read back as it was set, and setting one leaves the others alone), and what follows for the
  operations on a part's systems.
\<close>

section \<open>Packed levels\<close>

type_synonym systems = "32 word"

definition OK :: nat where "OK = 0"
definition DAMAGED :: nat where "DAMAGED = 1"
definition FAILED :: nat where "FAILED = 2"

lemmas levels_def = OK_def DAMAGED_def FAILED_def

definition sys_get :: "systems \<Rightarrow> system \<Rightarrow> nat" where
  "sys_get w s = min (unat (drop_bit (2 * system_ix s) w AND 3)) FAILED"

definition sys_set :: "systems \<Rightarrow> system \<Rightarrow> nat \<Rightarrow> systems" where
  "sys_set w s l =
     (w AND NOT (push_bit (2 * system_ix s) 3)) OR push_bit (2 * system_ix s) (of_nat (min l FAILED))"

definition part_bit :: "nat \<Rightarrow> part \<Rightarrow> bool" where
  "part_bit gone p \<longleftrightarrow> odd (gone div 2 ^ part_ix p)"

definition sys_level :: "systems \<Rightarrow> system \<Rightarrow> nat \<Rightarrow> nat" where
  "sys_level w s gone = (if part_bit gone (system_part s) then FAILED else sys_get w s)"

definition sys_worst :: "systems \<Rightarrow> nat \<Rightarrow> nat" where
  "sys_worst w gone =
     foldr max (map (sys_get w) (filter (\<lambda>s. \<not> part_bit gone (system_part s)) system_all)) OK"

definition sys_clean :: "systems \<Rightarrow> systems" where
  "sys_clean w = fold (\<lambda>s out. sys_set out s (sys_get w s)) system_all 0"

section \<open>Faults\<close>

definition faults_is_empty :: "systems \<Rightarrow> bool" where
  "faults_is_empty f \<longleftrightarrow> f = 0"

definition faults_iter :: "systems \<Rightarrow> (system \<times> nat) list" where
  "faults_iter f = filter (\<lambda>(_, l). l \<noteq> OK) (map (\<lambda>s. (s, sys_get f s)) system_all)"

definition faults_count :: "systems \<Rightarrow> nat" where
  "faults_count f = length (faults_iter f)"

definition faults_of_part :: "systems \<Rightarrow> part \<Rightarrow> systems" where
  "faults_of_part f p = fold (\<lambda>s out. sys_set out s (sys_get f s)) (systems_of_part p) 0"

definition faults_with_part :: "systems \<Rightarrow> part \<Rightarrow> systems \<Rightarrow> systems" where
  "faults_with_part f p src = fold (\<lambda>s out. sys_set out s (sys_get src s)) (systems_of_part p) f"

definition faults_all :: "part \<Rightarrow> nat \<Rightarrow> systems" where
  "faults_all p l =
     faults_with_part 0 p (fold (\<lambda>s out. sys_set out s l) (systems_of_part p) 0)"

definition overhaul_cost :: "frame_id \<Rightarrow> nat \<Rightarrow> (item \<times> nat) list" where
  "overhaul_cost line level =
     (let (components, electronics, exotics) =
            (if level = DAMAGED then (20, 5, 5) else if level = FAILED then (50, 13, 10) else (0, 0, 0))
      in if level \<noteq> DAMAGED \<and> level \<noteq> FAILED then []
         else [(IMaterial Components, components), (IMaterial Electronics, electronics)]
              @ (if is_lodestar line then [(IOre Exotics, exotics)] else []))"

section \<open>The word is a map\<close>

lemma three_mask: "(3 :: 'a::len word) = mask 2"
  by (simp add: mask_eq_exp_minus_1)

lemma bit_3_word: "bit (3 :: 32 word) n \<longleftrightarrow> n < 2"
  by (simp only: three_mask bit_mask_iff possible_bit_word) auto

lemma word32_bit_less: "bit (w :: 32 word) n \<Longrightarrow> n < 32"
  using bit_imp_le_length [of w n] by simp

lemma field_same:
  fixes m v w :: "32 word"
  assumes "k + 2 \<le> 32" and m: "\<And>n. bit m n \<longleftrightarrow> n < 2" and v: "\<And>n. bit v n \<Longrightarrow> n < 2"
  shows "drop_bit k ((w AND NOT (push_bit k m)) OR push_bit k v) AND m = v"
proof (rule bit_word_eqI)
  fix n assume "n < LENGTH(32)"
  have "bit v n \<Longrightarrow> n < 2 \<and> k + n < 32"
    using v [of n] assms(1) by linarith
  then show "bit (drop_bit k ((w AND NOT (push_bit k m)) OR push_bit k v) AND m) n = bit v n"
    by (auto simp: bit_simps m)
qed

lemma field_other:
  fixes m v w :: "32 word"
  assumes "k + 2 \<le> j \<or> j + 2 \<le> k" and m: "\<And>n. bit m n \<longleftrightarrow> n < 2"
    and v: "\<And>n. bit v n \<Longrightarrow> n < 2"
  shows "drop_bit j ((w AND NOT (push_bit k m)) OR push_bit k v) AND m = drop_bit j w AND m"
proof (rule bit_word_eqI)
  fix n assume "n < LENGTH(32)"
  have "k \<le> j + n \<Longrightarrow> n < 2 \<Longrightarrow> \<not> j + n - k < 2"
    using assms(1) by linarith
  then show "bit (drop_bit j ((w AND NOT (push_bit k m)) OR push_bit k v) AND m) n
      = bit (drop_bit j w AND m) n"
    by (auto simp: bit_simps m dest: v word32_bit_less)
qed

lemma field_bit: "(v :: 32 word) AND 3 = v \<Longrightarrow> bit v n \<Longrightarrow> n < 2"
  by (metis bit_and_iff bit_3_word)

lemma level_word: "of_nat (min l FAILED) AND 3 = (of_nat (min l FAILED) :: 32 word)"
proof -
  have "l = 0 \<or> l = 1 \<or> min l FAILED = 2" by (auto simp: FAILED_def)
  then show ?thesis by (auto simp: FAILED_def)
qed

lemma level_unat: "unat (of_nat (min l FAILED) :: 32 word) = min l FAILED"
proof -
  have "l = 0 \<or> l = 1 \<or> min l FAILED = 2" by (auto simp: FAILED_def)
  then show ?thesis by (auto simp: FAILED_def)
qed

lemma sys_get_set_same [simp]: "sys_get (sys_set w s l) s = min l FAILED"
proof -
  have "2 * system_ix s + 2 \<le> 32" using system_ix_less [of s] by linarith
  from field_same [OF this bit_3_word field_bit [OF level_word]] show ?thesis
    by (simp add: sys_get_def sys_set_def level_unat)
qed

lemma sys_get_set_other [simp]: "s \<noteq> t \<Longrightarrow> sys_get (sys_set w s l) t = sys_get w t"
proof -
  assume "s \<noteq> t"
  then have "system_ix s \<noteq> system_ix t" by simp
  then have "2 * system_ix s + 2 \<le> 2 * system_ix t \<or> 2 * system_ix t + 2 \<le> 2 * system_ix s"
    by linarith
  from field_other [OF this bit_3_word field_bit [OF level_word]] show ?thesis
    by (simp add: sys_get_def sys_set_def)
qed

lemma sys_get_0 [simp]: "sys_get 0 s = 0"
  by (simp add: sys_get_def)

lemma sys_get_le [simp]: "sys_get w s \<le> 2"
  by (simp add: sys_get_def FAILED_def)

lemma sys_get_fold_set:
  "distinct ss \<Longrightarrow> sys_get (fold (\<lambda>s out. sys_set out s (g s)) ss w) t
     = (if t \<in> set ss then min (g t) FAILED else sys_get w t)"
proof (induction ss arbitrary: w)
  case (Cons s ss)
  then show ?case by (cases "s = t") auto
qed simp

lemma distinct_system_all [simp]: "distinct system_all"
  by (simp add: system_all_def)

lemma distinct_systems_of_part [simp]: "distinct (systems_of_part p)"
  by (simp add: systems_of_part_def)

lemma in_systems_of_part [simp]: "s \<in> set (systems_of_part p) \<longleftrightarrow> system_part s = p"
  by (simp add: systems_of_part_def)

lemma min_level [simp]: "min (sys_get w s) FAILED = sys_get w s"
  by (simp add: min_def FAILED_def)

lemma get_of_part: "sys_get (faults_of_part f p) s = (if system_part s = p then sys_get f s else OK)"
  by (simp add: faults_of_part_def sys_get_fold_set OK_def)

lemma get_with_part:
  "sys_get (faults_with_part f p src) s = (if system_part s = p then sys_get src s else sys_get f s)"
  by (simp add: faults_with_part_def sys_get_fold_set)

lemma get_all: "sys_get (faults_all p l) s = (if system_part s = p then min l FAILED else OK)"
  by (simp add: faults_all_def get_with_part sys_get_fold_set OK_def)

lemma get_clean: "sys_get (sys_clean w) s = sys_get w s"
  by (simp add: sys_clean_def sys_get_fold_set)

lemma sys_worst_ge: "\<not> part_bit gone (system_part s) \<Longrightarrow> sys_get w s \<le> sys_worst w gone"
proof -
  have "x \<in> set xs \<Longrightarrow> x \<le> foldr max xs (b::nat)" for x xs b
    by (induction xs) (auto simp: max.coboundedI2)
  moreover assume "\<not> part_bit gone (system_part s)"
  ultimately show ?thesis unfolding sys_worst_def by force
qed

lemma faults_iter_mem: "(s, l) \<in> set (faults_iter f) \<longleftrightarrow> l = sys_get f s \<and> l \<noteq> OK"
  by (auto simp: faults_iter_def)

text \<open>Setting a system's level in the packed word and reading it back gives the level (at most
  failed), and every other system reads as before: the 32-bit word is a map from systems to
  levels.\<close>

theorem packed_levels_are_a_map:
  "sys_get (sys_set w s l) t = (if t = s then min l FAILED else sys_get w t)"
  by simp

text \<open>A part's faults travel with it: stripping a part off (its faults taken, its systems reset)
  and fitting it back restores every system of the suit, and other parts' systems are untouched
  meanwhile.\<close>

theorem part_faults_travel:
  "sys_get (faults_with_part (faults_with_part f p 0) p (faults_of_part f p)) s = sys_get f s
   \<and> (system_part s \<noteq> p \<longrightarrow> sys_get (faults_with_part f p src) s = sys_get f s)"
  by (simp add: get_with_part get_of_part)

theorem part_faults_travel_witness:
  "system_part Tank \<noteq> Head \<and>
   sys_get (faults_with_part (sys_set 0 Tank DAMAGED) Head (faults_all Head FAILED)) Tank = DAMAGED"
proof -
  have "system_part Tank \<noteq> Head" by simp
  with part_faults_travel [of "sys_set 0 Tank DAMAGED" Head Tank "faults_all Head FAILED"]
  show ?thesis by (simp add: levels_def)
qed

end
