(* ===== verification/Stores.thy ===== *)
theory Stores
  imports Faults "HOL-Library.Product_Lexorder"
begin

text \<open>
  A hangar's stores (\<open>crates/bc-econ/src/stores.rs\<close>): bulk goods, weapons and equipment counted
  in an ordered map, and parts one by one, each with its condition and its faults. Kept tidy: no
  zero entries, the parts sorted, best condition first within each kind. The lemmas give the
  functional behaviour of every operation in terms of \<open>get\<close>, the invariant \<open>tidy\<close> and its
  preservation; the locale \<open>goods_store\<close> is the contract the other components rely on.
\<close>

section \<open>Parts on the shelf\<close>

record part_unit =
  pu_line :: frame_id
  pu_part :: part
  pu_condition :: nat
  pu_faults :: systems

definition part_unit_new :: "frame_id \<Rightarrow> part \<Rightarrow> part_unit" where
  "part_unit_new line p = \<lparr>pu_line = line, pu_part = p, pu_condition = 100, pu_faults = 0\<rparr>"

definition pu_item :: "part_unit \<Rightarrow> item" where
  "pu_item u = IPart (pu_line u) (pu_part u)"

definition pu_is_new :: "part_unit \<Rightarrow> bool" where
  "pu_is_new u \<longleftrightarrow> 100 \<le> pu_condition u \<and> faults_is_empty (pu_faults u)"

section \<open>The stores\<close>

record stores =
  stock :: "(item, nat) bmap"
  shelf :: "part_unit list"

definition stores_empty :: stores where
  "stores_empty = \<lparr>stock = bempty, shelf = []\<rparr>"

definition pu_is :: "frame_id \<Rightarrow> part \<Rightarrow> part_unit \<Rightarrow> bool" where
  "pu_is line p u \<longleftrightarrow> pu_line u = line \<and> pu_part u = p"

fun st_get :: "stores \<Rightarrow> item \<Rightarrow> nat" where
  "st_get s (IPart line p) = length (filter (\<lambda>u. pu_is line p u \<and> pu_is_new u) (shelf s))"
| "st_get s i = bor 0 (bget (stock s) i)"

definition st_has :: "stores \<Rightarrow> item \<Rightarrow> nat \<Rightarrow> bool" where
  "st_has s i qty \<longleftrightarrow> qty \<le> st_get s i"

text \<open>Best first: the most armour (\<open>Reverse\<close>), then the fewest faults inside.\<close>

definition shelf_key :: "part_unit \<Rightarrow> item \<times> int \<times> nat" where
  "shelf_key u = (pu_item u, - int (pu_condition u), faults_count (pu_faults u))"

definition clamp_condition :: "nat \<Rightarrow> nat" where
  "clamp_condition c = max 1 (min c 100)"

definition add_part :: "part_unit \<Rightarrow> stores \<Rightarrow> stores" where
  "add_part u s =
     (let u' = u\<lparr>pu_condition := clamp_condition (pu_condition u)\<rparr>
      in s\<lparr>shelf := insert_by shelf_key u' (shelf s)\<rparr>)"

fun st_add :: "item \<Rightarrow> nat \<Rightarrow> stores \<Rightarrow> stores" where
  "st_add (IPart line p) qty s = (add_part (part_unit_new line p) ^^ qty) s"
| "st_add i qty s =
     (if qty = 0 then s else s\<lparr>stock := bupd 0 (\<lambda>e. sat64 (e + qty)) i (stock s)\<rparr>)"

definition take_new_part :: "frame_id \<Rightarrow> part \<Rightarrow> stores \<Rightarrow> stores" where
  "take_new_part line p s =
     (case position (\<lambda>u. pu_is line p u \<and> pu_is_new u) (shelf s) of
        None \<Rightarrow> s
      | Some i \<Rightarrow> s\<lparr>shelf := remove_at i (shelf s)\<rparr>)"

fun take_goods :: "item \<Rightarrow> nat \<Rightarrow> stores \<Rightarrow> stores" where
  "take_goods (IPart line p) qty s = (take_new_part line p ^^ qty) s"
| "take_goods i qty s =
     (case bget (stock s) i of
        None \<Rightarrow> s
      | Some e \<Rightarrow>
          s\<lparr>stock := (if e - qty = 0 then bdel i (stock s) else bput i (e - qty) (stock s))\<rparr>)"

definition st_take :: "item \<Rightarrow> nat \<Rightarrow> stores \<Rightarrow> bool \<times> stores" where
  "st_take i qty s = (if \<not> st_has s i qty then (False, s) else (True, take_goods i qty s))"

definition take_up_to :: "item \<Rightarrow> nat \<Rightarrow> stores \<Rightarrow> nat \<times> stores" where
  "take_up_to i qty s = (let n = min (st_get s i) qty in (n, snd (st_take i n s)))"

definition has_all :: "stores \<Rightarrow> (item \<times> nat) list \<Rightarrow> nat \<Rightarrow> bool" where
  "has_all s needs tms \<longleftrightarrow> (\<forall>(i, qty)\<in>set needs. st_has s i (sat64 (qty * tms)))"

definition take_all :: "(item \<times> nat) list \<Rightarrow> nat \<Rightarrow> stores \<Rightarrow> bool \<times> stores" where
  "take_all needs tms s =
     (if \<not> has_all s needs tms then (False, s)
      else (True, fold (\<lambda>(i, qty) s. snd (st_take i (qty * tms) s)) needs s))"

definition add_all :: "(item \<times> nat) list \<Rightarrow> nat \<Rightarrow> stores \<Rightarrow> stores" where
  "add_all goods tms s = fold (\<lambda>(i, qty). st_add i (sat64 (qty * tms))) goods s"

definition take_best_part :: "frame_id \<Rightarrow> part \<Rightarrow> stores \<Rightarrow> (part_unit \<times> stores) option" where
  "take_best_part line p s =
     (case position (pu_is line p) (shelf s) of
        None \<Rightarrow> None
      | Some i \<Rightarrow> Some (shelf s ! i, s\<lparr>shelf := remove_at i (shelf s)\<rparr>))"

definition take_worst_part :: "frame_id \<Rightarrow> part \<Rightarrow> stores \<Rightarrow> (part_unit \<times> stores) option" where
  "take_worst_part line p s =
     (case rposition (pu_is line p) (shelf s) of
        None \<Rightarrow> None
      | Some i \<Rightarrow> Some (shelf s ! i, s\<lparr>shelf := remove_at i (shelf s)\<rparr>))"

definition stock_list :: "stores \<Rightarrow> (item \<times> nat) list" where
  "stock_list s = entries (stock s)"

definition stores_is_empty :: "stores \<Rightarrow> bool" where
  "stores_is_empty s \<longleftrightarrow> entries (stock s) = [] \<and> shelf s = []"

section \<open>What there is, after each operation\<close>

definition is_part :: "item \<Rightarrow> bool" where
  "is_part i \<longleftrightarrow> (\<exists>l p. i = IPart l p)"

lemma is_part_simps [simp]:
  "is_part (IPart l p)" "\<not> is_part (IOre a)" "\<not> is_part (IMaterial m)" "\<not> is_part (IWeapon w)"
  "\<not> is_part (IModule k)" "\<not> is_part (IKit t)"
  by (simp_all add: is_part_def)

lemma st_get_stock: "\<not> is_part i \<Longrightarrow> st_get s i = bor 0 (bget (stock s) i)"
  by (cases i) simp_all

lemma st_add_stock:
  "\<not> is_part i \<Longrightarrow> st_add i qty s =
     (if qty = 0 then s else s\<lparr>stock := bupd 0 (\<lambda>e. sat64 (e + qty)) i (stock s)\<rparr>)"
  by (cases i) simp_all

lemma take_goods_stock:
  "\<not> is_part i \<Longrightarrow> take_goods i qty s =
     (case bget (stock s) i of
        None \<Rightarrow> s
      | Some e \<Rightarrow>
          s\<lparr>stock := (if e - qty = 0 then bdel i (stock s) else bput i (e - qty) (stock s))\<rparr>)"
  by (cases i; hypsubst; simp)

lemma pu_is_new_new [simp]: "pu_is_new (part_unit_new l p)" "pu_is l' p' (part_unit_new l p) \<longleftrightarrow> l = l' \<and> p = p'"
  by (auto simp: pu_is_new_def part_unit_new_def pu_is_def faults_is_empty_def)

lemma part_unit_new_clamp [simp]:
  "(part_unit_new l p)\<lparr>pu_condition := clamp_condition (pu_condition (part_unit_new l p))\<rparr> = part_unit_new l p"
  by (simp add: part_unit_new_def clamp_condition_def)

lemma filter_length_insert_by:
  "length (filter P (insert_by k a xs)) = length (filter P xs) + (if P a then 1 else 0)"
  by (simp add: insert_by_def filter_length_insert_at)

lemma st_get_add_new_part:
  "st_get (add_part (part_unit_new l p) s) i = st_get s i + (if i = IPart l p then 1 else 0)"
  by (cases i) (auto simp: add_part_def Let_def filter_length_insert_by)

lemma st_get_add_new_parts:
  "st_get ((add_part (part_unit_new l p) ^^ n) s) i = st_get s i + (if i = IPart l p then n else 0)"
  by (induction n) (simp_all add: st_get_add_new_part)

lemma st_get_cong_stock: "\<not> is_part i \<Longrightarrow> stock s = stock t \<Longrightarrow> st_get s i = st_get t i"
  by (simp add: st_get_stock)

lemma st_get_add:
  assumes "st_get s i + qty \<le> u64_max"
  shows "st_get (st_add i qty s) j = (if j = i then st_get s i + qty else st_get s j)"
proof (cases "is_part i")
  case True
  then show ?thesis by (auto simp: is_part_def st_get_add_new_parts simp del: st_get.simps)
next
  case False
  show ?thesis
  proof (cases "is_part j")
    case True
    then show ?thesis using False by (auto simp: is_part_def st_add_stock)
  next
    case nj: False
    then show ?thesis using False assms by (auto simp: st_add_stock st_get_stock)
  qed
qed

lemma st_get_add_other: "j \<noteq> i \<Longrightarrow> st_get (st_add i qty s) j = st_get s j"
proof (cases "is_part i")
  case True
  then show "j \<noteq> i \<Longrightarrow> ?thesis" by (auto simp: is_part_def st_get_add_new_parts simp del: st_get.simps)
next
  case False
  then show "j \<noteq> i \<Longrightarrow> ?thesis"
    by (cases "is_part j") (auto simp: is_part_def st_add_stock st_get_stock)
qed

lemma st_get_add_le: "st_get (st_add i qty s) i \<le> st_get s i + qty"
proof (cases "is_part i")
  case True
  then show ?thesis by (auto simp: is_part_def st_get_add_new_parts simp del: st_get.simps)
next
  case False
  then show ?thesis using sat64_le(1) [of "st_get s i + qty"] by (auto simp: st_add_stock st_get_stock)
qed

lemma st_get_take_new_part:
  assumes "0 < st_get s (IPart l p)"
  shows "st_get (take_new_part l p s) i = (if i = IPart l p then st_get s i - 1 else st_get s i)"
proof -
  let ?P = "\<lambda>u. pu_is l p u \<and> pu_is_new u"
  from assms obtain k where k: "position ?P (shelf s) = Some k"
    by (cases "position ?P (shelf s)") (auto simp: position_None filter_empty_conv)
  then have at: "k < length (shelf s)" "?P (shelf s ! k)" by (auto dest: position_Some)
  show ?thesis
  proof (cases i)
    case (IPart l' p')
    with k at filter_length_remove_at [OF at(1), of "\<lambda>u. pu_is l' p' u \<and> pu_is_new u"]
    show ?thesis by (auto simp: take_new_part_def pu_is_def)
  qed (use k in \<open>auto simp: take_new_part_def\<close>)
qed

lemma st_get_take_new_parts:
  "n \<le> st_get s (IPart l p) \<Longrightarrow>
   st_get ((take_new_part l p ^^ n) s) i = (if i = IPart l p then st_get s i - n else st_get s i)"
proof (induction n arbitrary: i)
  case (Suc n)
  let ?t = "(take_new_part l p ^^ n) s"
  have IH: "st_get ?t i = (if i = IPart l p then st_get s i - n else st_get s i)" for i
    using Suc by simp
  from IH [of "IPart l p"] Suc.prems have "0 < st_get ?t (IPart l p)" by simp
  from st_get_take_new_part [OF this, of i] IH [of i] IH [of "IPart l p"] show ?case
    by (auto simp del: st_get.simps)
qed simp

lemma st_get_take_goods:
  assumes "st_has s i qty"
  shows "st_get (take_goods i qty s) j = (if j = i then st_get s i - qty else st_get s j)"
proof (cases "is_part i")
  case True
  then show ?thesis
    using assms by (auto simp: is_part_def st_has_def st_get_take_new_parts simp del: st_get.simps)
next
  case False
  then show ?thesis
    using assms
    by (cases "is_part j")
      (auto simp: is_part_def st_has_def take_goods_stock st_get_stock split: option.splits)
qed

lemma st_take_iff: "fst (st_take i qty s) \<longleftrightarrow> qty \<le> st_get s i"
  by (simp add: st_take_def st_has_def)

lemma st_take_fail: "\<not> fst (st_take i qty s) \<Longrightarrow> snd (st_take i qty s) = s"
  by (auto simp: st_take_def split: if_splits)

lemma st_get_take:
  "qty \<le> st_get s i \<Longrightarrow>
   st_get (snd (st_take i qty s)) j = (if j = i then st_get s i - qty else st_get s j)"
  by (simp add: st_take_def st_has_def st_get_take_goods)

text \<open>
  The contract the hangar, the board and the register rely on: what a store holds after goods are
  added to it and taken from it.
\<close>

locale goods_store =
  fixes gget :: "'s \<Rightarrow> 'g \<Rightarrow> nat" and gadd :: "'g \<Rightarrow> nat \<Rightarrow> 's \<Rightarrow> 's"
    and gtake :: "'g \<Rightarrow> nat \<Rightarrow> 's \<Rightarrow> bool \<times> 's" and gcap :: nat
  assumes gget_gadd: "gget s i + n \<le> gcap \<Longrightarrow>
      gget (gadd i n s) j = (if j = i then gget s i + n else gget s j)"
    and gtake_iff: "fst (gtake i n s) \<longleftrightarrow> n \<le> gget s i"
    and gtake_fail: "\<not> fst (gtake i n s) \<Longrightarrow> snd (gtake i n s) = s"
    and gget_gtake: "n \<le> gget s i \<Longrightarrow>
      gget (snd (gtake i n s)) j = (if j = i then gget s i - n else gget s j)"
begin

lemma gtake_gadd:
  assumes "gget s i \<le> gcap" and "fst (gtake i n s)"
  shows "gget (gadd i n (snd (gtake i n s))) j = gget s j"
proof -
  from assms(2) have "n \<le> gget s i" by (simp add: gtake_iff)
  with assms(1) show ?thesis by (simp add: gget_gadd gget_gtake)
qed

lemma gadd_gtake:
  assumes "gget s i + n \<le> gcap"
  shows "fst (gtake i n (gadd i n s))" and "gget (snd (gtake i n (gadd i n s))) j = gget s j"
  using assms by (simp_all add: gtake_iff gget_gadd gget_gtake)

text \<open>Moving goods from one store to another makes and loses none.\<close>

lemma gmove:
  assumes "fst (gtake i n s)" and "gget t i + n \<le> gcap"
  shows "gget (snd (gtake i n s)) j + gget (gadd i n t) j = gget s j + gget t j"
proof -
  from assms(1) have "n \<le> gget s i" by (simp add: gtake_iff)
  with assms(2) show ?thesis by (simp add: gget_gadd gget_gtake)
qed

text \<open>Taking a list of needs, each a different good.\<close>

lemma gtake_list:
  assumes "distinct (map fst ns)" and "\<And>i n. (i, n) \<in> set ns \<Longrightarrow> n \<le> gget s i"
  shows "gget (fold (\<lambda>(i, n) s. snd (gtake i n s)) ns s) j
       = gget s j - (case map_of ns j of None \<Rightarrow> 0 | Some n \<Rightarrow> n)"
  using assms
proof (induction ns arbitrary: s)
  case (Cons x ns)
  obtain i n where x: "x = (i, n)" by force
  have i: "i \<notin> fst ` set ns" and n: "n \<le> gget s i"
    using Cons.prems by (auto simp: x)
  let ?t = "snd (gtake i n s)"
  have t: "gget ?t k = (if k = i then gget s i - n else gget s k)" for k
    using n by (simp add: gget_gtake)
  have "m \<le> gget ?t k" if "(k, m) \<in> set ns" for k m
    using that i Cons.prems(2) [of k m] by (auto simp: t x rev_image_eqI)
  then have "gget (fold (\<lambda>(i, n) s. snd (gtake i n s)) ns ?t) j
      = gget ?t j - (case map_of ns j of None \<Rightarrow> 0 | Some n \<Rightarrow> n)"
    using Cons.prems(1) by (intro Cons.IH) (auto simp: x)
  moreover have "map_of ns i = None"
    using i by (simp add: map_of_eq_None_iff)
  ultimately show ?case by (simp add: x t)
qed simp

end

interpretation st: goods_store st_get st_add st_take u64_max
  by unfold_locales (simp_all add: st_get_add st_take_iff st_take_fail st_get_take)

section \<open>Tidiness\<close>

definition tidy :: "stores \<Rightarrow> bool" where
  "tidy s \<longleftrightarrow>
     (\<forall>i q. bget (stock s) i = Some q \<longrightarrow> 0 < q \<and> q \<le> u64_max \<and> \<not> is_part i)
     \<and> sorted (map shelf_key (shelf s))
     \<and> (\<forall>u\<in>set (shelf s). 1 \<le> pu_condition u \<and> pu_condition u \<le> 100)"

lemma tidy_empty [simp]: "tidy stores_empty"
  by (simp add: tidy_def stores_empty_def)

lemma tidy_add_part [simp]: "tidy s \<Longrightarrow> tidy (add_part u s)"
  by (auto simp: tidy_def add_part_def Let_def sorted_insert_by clamp_condition_def)

lemma tidy_funpow: "(\<And>s. tidy s \<Longrightarrow> tidy (f s)) \<Longrightarrow> tidy s \<Longrightarrow> tidy ((f ^^ n) s)"
  by (induction n) auto

lemma tidy_remove_shelf: "tidy s \<Longrightarrow> tidy (s\<lparr>shelf := remove_at i (shelf s)\<rparr>)"
  using set_remove_at [of i "shelf s"] by (auto simp: tidy_def sorted_map_remove_at)

lemma tidy_take_new_part: "tidy s \<Longrightarrow> tidy (take_new_part l p s)"
  by (auto simp: take_new_part_def tidy_remove_shelf split: option.splits)

lemma tidy_add [simp]: "tidy s \<Longrightarrow> tidy (st_add i qty s)"
proof (cases "is_part i")
  case True
  then show "tidy s \<Longrightarrow> ?thesis" by (auto simp: is_part_def tidy_funpow)
next
  case False
  then show "tidy s \<Longrightarrow> ?thesis"
    by (cases "bget (stock s) i") (auto simp: st_add_stock tidy_def sat64_def u64_max_def)
qed

lemma tidy_take [simp]: "tidy s \<Longrightarrow> tidy (snd (st_take i qty s))"
proof (cases "is_part i")
  case True
  then show "tidy s \<Longrightarrow> ?thesis"
    by (auto simp: is_part_def st_take_def tidy_funpow tidy_take_new_part)
next
  case False
  then show "tidy s \<Longrightarrow> ?thesis"
    by (auto simp: st_take_def take_goods_stock tidy_def split: option.splits)
      (meson diff_le_self le_trans)+
qed

lemma tidy_take_all [simp]: "tidy s \<Longrightarrow> tidy (snd (take_all needs tms s))"
proof -
  have "tidy s \<Longrightarrow> tidy (fold (\<lambda>(i, qty) s. snd (st_take i (qty * tms) s)) ns s)" for ns
    by (induction ns arbitrary: s) auto
  then show "tidy s \<Longrightarrow> ?thesis" by (simp add: take_all_def)
qed

lemma tidy_add_all [simp]: "tidy s \<Longrightarrow> tidy (add_all goods tms s)"
  unfolding add_all_def by (induction goods arbitrary: s) auto

lemma tidy_take_up_to [simp]: "tidy s \<Longrightarrow> tidy (snd (take_up_to i n s))"
  by (simp add: take_up_to_def Let_def)

lemma take_best_part_Some:
  "take_best_part l p s = Some (u, t) \<Longrightarrow> tidy s \<Longrightarrow> tidy t \<and> pu_is l p u"
  by (auto simp: take_best_part_def tidy_remove_shelf dest: position_Some split: option.splits)

lemma take_worst_part_Some:
  "take_worst_part l p s = Some (u, t) \<Longrightarrow> tidy s \<Longrightarrow> tidy t \<and> pu_is l p u"
  by (auto simp: take_worst_part_def tidy_remove_shelf dest: rposition_Some split: option.splits)

lemma tidy_stock_pos: "tidy s \<Longrightarrow> bget (stock s) i = Some q \<Longrightarrow> 0 < q \<and> q \<le> u64_max"
  by (auto simp: tidy_def)

section \<open>Taking the best, the worst, and everything a recipe needs\<close>

lemma shelf_key_same_kind:
  "pu_is l p u \<Longrightarrow> pu_is l p v \<Longrightarrow> shelf_key u \<le> shelf_key v \<Longrightarrow>
   pu_condition v \<le> pu_condition u"
  by (auto simp: shelf_key_def pu_item_def pu_is_def)

lemma rposition_last: "rposition P xs = Some i \<Longrightarrow> i < j \<Longrightarrow> j < length xs \<Longrightarrow> \<not> P (xs ! j)"
  by (induction xs arbitrary: i j)
    (auto simp: rposition_None nth_Cons' less_Suc_eq_0_disj split: option.splits if_splits)

lemma take_all_fold:
  "fold (\<lambda>(i, q) s. snd (st_take i (q * k) s)) ns s
     = fold (\<lambda>(i, n) s. snd (st_take i n s)) (map (\<lambda>(i, q). (i, q * k)) ns) s"
  by (induction ns arbitrary: s) auto

lemma map_of_scaled: "map_of (map (\<lambda>(i, q). (i, q * k)) ns) j = map_option (\<lambda>q. q * k) (map_of ns j)"
  by (induction ns) auto

lemma take_all_get:
  assumes "distinct (map fst needs)" and "\<And>i q. (i, q) \<in> set needs \<Longrightarrow> q * k \<le> u64_max"
    and "has_all s needs k"
  shows "st_get (snd (take_all needs k s)) j
       = st_get s j - (case map_of needs j of None \<Rightarrow> 0 | Some q \<Rightarrow> q * k)"
proof -
  let ?ns = "map (\<lambda>(i, q). (i, q * k)) needs"
  have "distinct (map fst ?ns)"
    using assms(1) by (simp add: comp_def case_prod_beta)
  moreover have "n \<le> st_get s i" if "(i, n) \<in> set ?ns" for i n
    using that assms(2,3) by (force simp: has_all_def st_has_def)
  ultimately have "st_get (fold (\<lambda>(i, n) s. snd (st_take i n s)) ?ns s) j
      = st_get s j - (case map_of ?ns j of None \<Rightarrow> 0 | Some n \<Rightarrow> n)"
    by (rule st.gtake_list)
  with assms(3) show ?thesis
    by (simp add: take_all_def take_all_fold map_of_scaled split: option.splits)
qed

text \<open>Every operation on the stores keeps them tidy: no zero or overflowing entry, no part
  among the counted goods, the shelf sorted best first and every condition from 1 to 100.\<close>

theorem stores_stay_tidy:
  assumes "tidy s"
  shows "tidy (st_add i n s) \<and> tidy (snd (st_take i n s)) \<and> tidy (snd (take_up_to i n s))
       \<and> tidy (add_part u s) \<and> tidy (snd (take_all needs k s)) \<and> tidy (add_all needs k s)
       \<and> (\<forall>v t. take_best_part l p s = Some (v, t) \<longrightarrow> tidy t)
       \<and> (\<forall>v t. take_worst_part l p s = Some (v, t) \<longrightarrow> tidy t)"
  using assms by (simp add: take_best_part_Some take_worst_part_Some)

theorem stores_stay_tidy_witness:
  "tidy stores_empty \<and> tidy (st_add (IMaterial Steel) 200 stores_empty)"
  using stores_stay_tidy [OF tidy_empty, of "IMaterial Steel" 200] tidy_empty by blast

text \<open>Taking a list of needs (each item named once) is all or nothing: it happens exactly when
  there is enough of every one of them, and then each item is down by its need times the
  batches and everything else is untouched; otherwise the stores are as they were.\<close>

theorem take_all_all_or_nothing:
  assumes "distinct (map fst needs)" and "\<forall>(i, q)\<in>set needs. q * k \<le> u64_max"
  shows "(fst (take_all needs k s) \<longleftrightarrow> (\<forall>(i, q)\<in>set needs. q * k \<le> st_get s i))
     \<and> (fst (take_all needs k s) \<longrightarrow> st_get (snd (take_all needs k s)) j
          = st_get s j - (case map_of needs j of None \<Rightarrow> 0 | Some q \<Rightarrow> q * k))
     \<and> (\<not> fst (take_all needs k s) \<longrightarrow> snd (take_all needs k s) = s)"
proof -
  have "fst (take_all needs k s) \<longleftrightarrow> has_all s needs k" by (simp add: take_all_def)
  moreover have "has_all s needs k \<longleftrightarrow> (\<forall>(i, q)\<in>set needs. q * k \<le> st_get s i)"
    using assms(2) by (fastforce simp: has_all_def st_has_def)
  ultimately show ?thesis
    using take_all_get [OF assms(1), of k s j] assms(2) by (auto simp: take_all_def)
qed

theorem take_all_all_or_nothing_witness:
  "fst (take_all [(IMaterial Steel, 3)] 2 (st_add (IMaterial Steel) 10 stores_empty))
   \<and> st_get (snd (take_all [(IMaterial Steel, 3)] 2 (st_add (IMaterial Steel) 10 stores_empty)))
       (IMaterial Steel) = 4"
proof -
  have h: "distinct (map fst [(IMaterial Steel, 3::nat)])"
    "\<forall>(i, q)\<in>set [(IMaterial Steel, 3::nat)]. q * 2 \<le> u64_max" by (simp_all add: u64_max_def)
  have g: "st_get (st_add (IMaterial Steel) 10 stores_empty) (IMaterial Steel) = 10"
    by (simp add: stores_empty_def sat64_def u64_max_def)
  from take_all_all_or_nothing [OF h, of "st_add (IMaterial Steel) 10 stores_empty" "IMaterial Steel"] g
  show ?thesis by (simp del: st_get.simps st_add.simps)
qed

text \<open>The shelf's order means what its callers rely on: the part \<open>take_best_part\<close> hands out is in
  the best condition of its kind, the one \<open>take_worst_part\<close> hands out in the worst.\<close>

theorem best_and_worst_parts:
  assumes "tidy s" and "v \<in> set (shelf s)" and "pu_is l p v"
  shows "(\<exists>u t. take_best_part l p s = Some (u, t) \<and> pu_is l p u \<and> pu_condition v \<le> pu_condition u)
       \<and> (\<exists>u t. take_worst_part l p s = Some (u, t) \<and> pu_is l p u \<and> pu_condition u \<le> pu_condition v)"
proof -
  from assms(2) obtain j where j: "j < length (shelf s)" "v = shelf s ! j"
    by (auto simp: in_set_conv_nth)
  have srt: "shelf_key (shelf s ! a) \<le> shelf_key (shelf s ! b)" if "a \<le> b" "b < length (shelf s)" for a b
    using assms(1) that by (auto simp: tidy_def sorted_iff_nth_mono)
  from assms(2,3) obtain a where a: "position (pu_is l p) (shelf s) = Some a"
    by (cases "position (pu_is l p) (shelf s)") (auto simp: position_None)
  with assms(3) j have "a \<le> j" by (auto dest!: position_Some intro: leI)
  with a j srt assms(3) have best: "pu_is l p (shelf s ! a)" "pu_condition v \<le> pu_condition (shelf s ! a)"
    by (auto dest!: position_Some intro: shelf_key_same_kind)
  from assms(2,3) obtain b where b: "rposition (pu_is l p) (shelf s) = Some b"
    by (cases "rposition (pu_is l p) (shelf s)") (auto simp: rposition_None)
  with assms(3) j have "j \<le> b" using rposition_last [OF b, of j] by (auto intro: leI)
  with b j srt assms(3) have worst: "pu_is l p (shelf s ! b)" "pu_condition (shelf s ! b) \<le> pu_condition v"
    by (auto dest!: rposition_Some intro: shelf_key_same_kind)
  from a b best worst show ?thesis by (auto simp: take_best_part_def take_worst_part_def)
qed

theorem best_and_worst_parts_witness:
  "\<exists>u t. take_best_part Argo Head (add_part (part_unit_new Argo Head) stores_empty) = Some (u, t)
     \<and> pu_condition (part_unit_new Argo Head) \<le> pu_condition u"
proof -
  have "part_unit_new Argo Head \<in> set (shelf (add_part (part_unit_new Argo Head) stores_empty))"
    by (simp add: add_part_def Let_def)
  moreover have "pu_is Argo Head (part_unit_new Argo Head)" by simp
  ultimately show ?thesis
    using best_and_worst_parts [OF tidy_add_part [OF tidy_empty]] by blast
qed

end
