(* ===== verification/Floats.thy ===== *)
theory Floats
  imports Complex_Main
begin

text \<open>
  The standard library's \<open>f32\<close> and \<open>f64\<close> as the economy uses them. A finite float is a
  rational number; every operation is the exact rational operation followed by rounding to the
  nearest number of the format's precision (24 and 53 bits), ties to even, as IEEE 754 and Rust
  define \<open>+\<close>, \<open>-\<close>, \<open>*\<close> and \<open>/\<close>. The exponent is not bounded: the economy's
  quantities lie far inside the range where neither overflow nor subnormal numbers occur. Infinities
  and NaN are not modelled; where the code tests for them the model takes an option. The functions
  whose precision the standard library leaves unspecified (\<open>powf\<close>, \<open>exp\<close>) are parameters
  of the definitions that use them.

  The lemmas show what a rounding must: it is monotone, fixes the integers the format holds exactly
  and keeps signs.
\<close>

section \<open>Binary logarithm\<close>

fun bitlen :: "nat \<Rightarrow> nat" where
  "bitlen n = (if n = 0 then 0 else Suc (bitlen (n div 2)))"

declare bitlen.simps [simp del]

lemma bitlen_bounds: "0 < n \<Longrightarrow> 2 ^ (bitlen n - 1) \<le> n \<and> n < 2 ^ bitlen n"
proof (induction n rule: bitlen.induct)
  case (1 n)
  show ?case
  proof (cases "n div 2 = 0")
    case True
    with 1 have "n = 1" by auto
    moreover have "bitlen 1 = 1"
      using bitlen.simps [of 1] bitlen.simps [of 0] by (simp del: One_nat_def)
    ultimately show ?thesis by simp
  next
    case False
    with 1 have IH: "2 ^ (bitlen (n div 2) - 1) \<le> n div 2" "n div 2 < 2 ^ bitlen (n div 2)" by auto
    from False have "0 < bitlen (n div 2)" by (subst bitlen.simps) simp
    then obtain k where k: "bitlen (n div 2) = Suc k" by (cases "bitlen (n div 2)") auto
    with 1 have "bitlen n = Suc (Suc k)" by (subst bitlen.simps) simp
    with IH k show ?thesis by (auto simp: algebra_simps)
  qed
qed

definition scale2 :: "int \<Rightarrow> rat" where
  "scale2 q = (if 0 \<le> q then 2 ^ nat q else 1 / 2 ^ nat (- q))"

lemma scale2_pos [simp]: "0 < scale2 q"
  by (simp add: scale2_def)

lemma scale2_0 [simp]: "scale2 0 = 1"
  by (simp add: scale2_def)

lemma scale2_powi: "scale2 q = 2 powi q"
  by (simp add: scale2_def power_int_def field_simps power_one_over)

lemma scale2_add: "scale2 (a + b) = scale2 a * scale2 b"
  by (simp add: scale2_powi power_int_add)

lemma scale2_mono: "a \<le> b \<Longrightarrow> scale2 a \<le> scale2 b"
  by (simp add: scale2_powi power_int_increasing)

definition log2_floor :: "rat \<Rightarrow> int" where
  "log2_floor x =
     (let (n, d) = quotient_of x; e = int (bitlen (nat n)) - int (bitlen (nat d))
      in if scale2 e \<le> x then e else e - 1)"

lemma log2_floor:
  assumes "0 < x"
  shows "scale2 (log2_floor x) \<le> x" and "x < scale2 (log2_floor x + 1)"
proof -
  obtain n d where q: "quotient_of x = (n, d)" by force
  then have d: "0 < d" and x: "x = of_int n / of_int d"
    by (auto dest: quotient_of_denom_pos quotient_of_div)
  with assms have n: "0 < n" by (simp add: zero_less_divide_iff)
  define a b where "a = bitlen (nat n)" and "b = bitlen (nat d)"
  have pos: "0 < a" "0 < b" using n d by (simp_all add: a_def b_def bitlen.simps)
  have bn: "2 ^ (a - 1) \<le> nat n" "nat n < 2 ^ a" using bitlen_bounds [of "nat n"] n by (simp_all add: a_def)
  have bd: "2 ^ (b - 1) \<le> nat d" "nat d < 2 ^ b" using bitlen_bounds [of "nat d"] d by (simp_all add: b_def)
  have pow: "scale2 (int k) = of_nat (2 ^ k)" for k by (simp add: scale2_def)
  have split: "scale2 (int k - 1) \<le> of_int m \<and> of_int m < scale2 (int k)"
    if "0 < m" "0 < k" "2 ^ (k - 1) \<le> nat m" "nat m < 2 ^ k" for m k
  proof -
    have "int k - 1 = int (k - 1)" using that(2) by simp
    moreover have "of_int m = (of_nat (nat m) :: rat)" using that(1) by simp
    ultimately show ?thesis using that(3,4) by (simp only: pow of_nat_le_iff of_nat_less_iff)
  qed
  from split [OF n pos(1) bn] have rn: "scale2 (int a - 1) \<le> of_int n" "of_int n < scale2 (int a)" by auto
  from split [OF d pos(2) bd] have rd: "scale2 (int b - 1) \<le> of_int d" "of_int d < scale2 (int b)" by auto
  let ?e = "int a - int b"
  have lo: "scale2 (?e - 1) \<le> x"
  proof -
    have "scale2 (?e - 1) * of_int d \<le> scale2 (?e - 1) * scale2 (int b)"
      using rd(2) by (intro mult_left_mono) (simp_all add: less_imp_le)
    also have "\<dots> = scale2 (int a - 1)" by (simp flip: scale2_add)
    also have "\<dots> \<le> of_int n" by (rule rn)
    finally show ?thesis using d by (simp add: x le_divide_eq)
  qed
  have hi: "x < scale2 (?e + 1)"
  proof -
    have "of_int n < scale2 (int a)" by (rule rn)
    also have "\<dots> = scale2 (?e + 1) * scale2 (int b - 1)" by (simp flip: scale2_add)
    also have "\<dots> \<le> scale2 (?e + 1) * of_int d"
      using rd(1) by (intro mult_left_mono) (simp_all add: less_imp_le)
    finally show ?thesis using d by (simp add: x divide_less_eq)
  qed
  have L: "log2_floor x = (if scale2 ?e \<le> x then ?e else ?e - 1)"
    by (simp add: log2_floor_def q a_def b_def Let_def)
  show "scale2 (log2_floor x) \<le> x" using lo by (simp add: L)
  show "x < scale2 (log2_floor x + 1)" using hi by (simp add: L)
qed

lemma log2_floor_mono:
  assumes "0 < x" "x \<le> y"
  shows "log2_floor x \<le> log2_floor y"
proof (rule ccontr)
  assume "\<not> ?thesis"
  then have "scale2 (log2_floor y + 1) \<le> scale2 (log2_floor x)"
    by (intro scale2_mono) simp
  with log2_floor(1) [of x] log2_floor(2) [of y] assms show False by simp
qed

section \<open>Rounding\<close>

definition round_even :: "rat \<Rightarrow> int" where
  "round_even x =
     (let f = \<lfloor>x\<rfloor>; r = x - of_int f
      in if r < 1 / 2 then f else if 1 / 2 < r then f + 1 else if even f then f else f + 1)"

text \<open>\<open>f64::round\<close> and \<open>f32::round\<close>: half away from zero.\<close>

definition round_away :: "rat \<Rightarrow> int" where
  "round_away x = (if 0 \<le> x then \<lfloor>x + 1 / 2\<rfloor> else - \<lfloor>1 / 2 - x\<rfloor>)"

lemma round_even_bounds: "\<lfloor>x\<rfloor> \<le> round_even x" "round_even x \<le> \<lfloor>x\<rfloor> + 1"
  by (auto simp: round_even_def Let_def)

lemma round_even_mono: "x \<le> y \<Longrightarrow> round_even x \<le> round_even y"
proof -
  assume xy: "x \<le> y"
  show ?thesis
  proof (cases "\<lfloor>x\<rfloor> = \<lfloor>y\<rfloor>")
    case True
    with xy show ?thesis by (auto simp: round_even_def Let_def)
  next
    case False
    with floor_mono [OF xy] have "\<lfloor>x\<rfloor> + 1 \<le> \<lfloor>y\<rfloor>" by linarith
    with round_even_bounds(2) [of x] round_even_bounds(1) [of y] show ?thesis by linarith
  qed
qed

lemma round_even_int [simp]: "round_even (of_int n) = n"
  by (simp add: round_even_def)

definition fl_pos :: "nat \<Rightarrow> rat \<Rightarrow> rat" where
  "fl_pos p x = (let q = log2_floor x - (int p - 1) in of_int (round_even (x / scale2 q)) * scale2 q)"

definition fl :: "nat \<Rightarrow> rat \<Rightarrow> rat" where
  "fl p x = (if x = 0 then 0 else if 0 < x then fl_pos p x else - fl_pos p (- x))"

lemma fl_pos_binade:
  assumes "0 < x" "0 < p"
  shows "scale2 (log2_floor x) \<le> fl_pos p x" and "fl_pos p x \<le> scale2 (log2_floor x + 1)"
proof -
  let ?e = "log2_floor x" and ?q = "log2_floor x - (int p - 1)"
  have s1: "scale2 ?e = of_int (2 ^ (p - 1)) * scale2 ?q"
  proof -
    have "scale2 ?e = scale2 (int (p - 1)) * scale2 ?q"
      using assms(2) by (simp flip: scale2_add)
    then show ?thesis by (simp add: scale2_def)
  qed
  have s2: "scale2 (?e + 1) = of_int (2 ^ p) * scale2 ?q"
  proof -
    have "scale2 (?e + 1) = scale2 (int p) * scale2 ?q" by (simp flip: scale2_add)
    then show ?thesis by (simp add: scale2_def)
  qed
  have "of_int (2 ^ (p - 1)) \<le> x / scale2 ?q"
    using log2_floor(1) [OF assms(1)] by (simp add: s1 pos_le_divide_eq)
  from round_even_mono [OF this] have lo: "2 ^ (p - 1) \<le> round_even (x / scale2 ?q)"
    by (simp only: round_even_int)
  have "x / scale2 ?q \<le> of_int (2 ^ p)"
    using log2_floor(2) [OF assms(1)] by (simp add: s2 pos_divide_le_eq)
  from round_even_mono [OF this] have hi: "round_even (x / scale2 ?q) \<le> 2 ^ p"
    by (simp only: round_even_int)
  show "scale2 ?e \<le> fl_pos p x"
    unfolding s1 fl_pos_def Let_def using lo by (intro mult_right_mono) (simp_all add: less_imp_le of_int_le_iff del: of_int_power)
  show "fl_pos p x \<le> scale2 (?e + 1)"
    unfolding s2 fl_pos_def Let_def using hi by (intro mult_right_mono) (simp_all add: less_imp_le of_int_le_iff del: of_int_power)
qed

lemma fl_pos_mono:
  assumes "0 < x" "x \<le> y" "0 < p"
  shows "fl_pos p x \<le> fl_pos p y"
proof (cases "log2_floor x = log2_floor y")
  case True
  let ?q = "log2_floor y - (int p - 1)"
  have "round_even (x / scale2 ?q) \<le> round_even (y / scale2 ?q)"
    using assms(2) by (intro round_even_mono divide_right_mono) (simp_all add: less_imp_le)
  then show ?thesis
    unfolding fl_pos_def Let_def True by (intro mult_right_mono) (simp_all add: less_imp_le)
next
  case False
  with log2_floor_mono [OF assms(1,2)] have "log2_floor x + 1 \<le> log2_floor y" by linarith
  then have "scale2 (log2_floor x + 1) \<le> scale2 (log2_floor y)" by (rule scale2_mono)
  moreover have "0 < y" using assms by linarith
  ultimately show ?thesis
    using fl_pos_binade(2) [OF assms(1,3)] fl_pos_binade(1) [of y p] assms(3) by linarith
qed

lemma fl_pos_pos: "0 < x \<Longrightarrow> 0 < p \<Longrightarrow> 0 < fl_pos p x"
  using fl_pos_binade(1) [of x p] scale2_pos [of "log2_floor x"] by linarith

lemma fl_0 [simp]: "fl p 0 = 0"
  by (simp add: fl_def)

lemma fl_pos_iff: "0 < p \<Longrightarrow> 0 < x \<Longrightarrow> 0 < fl p x"
  by (simp add: fl_def fl_pos_pos)

lemma fl_neg: "0 < p \<Longrightarrow> x < 0 \<Longrightarrow> fl p x < 0"
  by (simp add: fl_def fl_pos_pos)

lemma fl_nonneg: "0 < p \<Longrightarrow> 0 \<le> x \<Longrightarrow> 0 \<le> fl p x"
  by (cases "x = 0") (simp_all add: fl_pos_iff less_imp_le)

lemma fl_mono:
  assumes "0 < p" "x \<le> y"
  shows "fl p x \<le> fl p y"
proof -
  consider "0 < x" | "x \<le> 0" "0 \<le> y" | "y < 0" by linarith
  then show ?thesis
  proof cases
    case 1
    with assms fl_pos_mono [of x y p] show ?thesis by (simp add: fl_def)
  next
    case 2
    then have "fl p x \<le> 0" using fl_neg [OF assms(1), of x] by (cases "x = 0") auto
    moreover from fl_nonneg [OF assms(1) 2(2)] have "0 \<le> fl p y" .
    ultimately show ?thesis by linarith
  next
    case 3
    with assms fl_pos_mono [of "- y" "- x" p] show ?thesis by (simp add: fl_def)
  qed
qed

text \<open>An integer the format holds exactly is its own rounding.\<close>

lemma fl_pos_nat:
  assumes "0 < n" "n < 2 ^ p"
  shows "fl_pos p (of_nat n) = of_nat n"
proof -
  let ?e = "log2_floor (of_nat n)" and ?q = "log2_floor (of_nat n) - (int p - 1)"
  have "scale2 (int p) = of_nat (2 ^ p)" by (simp add: scale2_def)
  moreover have "(of_nat n :: rat) < of_nat (2 ^ p)" using assms(2) by (simp only: of_nat_less_iff)
  ultimately have "scale2 ?e < scale2 (int p)"
    using log2_floor(1) [of "of_nat n"] assms(1) by (metis le_less_trans of_nat_0_less_iff)
  then have "?e < int p" using scale2_mono [of "int p" ?e] by linarith
  then have q: "?q \<le> 0" by simp
  then have "(of_nat n :: rat) / scale2 ?q = of_int (int n * 2 ^ nat (- ?q))"
    by (auto simp: scale2_def)
  then show ?thesis
    unfolding fl_pos_def Let_def using q
    by (simp only: round_even_int) (auto simp: scale2_def)
qed

lemma fl_nat: "n < 2 ^ p \<Longrightarrow> fl p (of_nat n) = of_nat n"
  by (cases "n = 0") (simp_all add: fl_def fl_pos_nat)

section \<open>The two formats\<close>

definition rn32 :: "rat \<Rightarrow> rat" where "rn32 = fl 24"
definition rn64 :: "rat \<Rightarrow> rat" where "rn64 = fl 53"

lemma rn_mono: "x \<le> y \<Longrightarrow> rn32 x \<le> rn32 y" "x \<le> y \<Longrightarrow> rn64 x \<le> rn64 y"
  by (simp_all add: rn32_def rn64_def fl_mono)

lemma rn_pos: "0 < x \<Longrightarrow> 0 < rn32 x" "0 < x \<Longrightarrow> 0 < rn64 x"
  by (simp_all add: rn32_def rn64_def fl_pos_iff)

lemma rn_nonneg: "0 \<le> x \<Longrightarrow> 0 \<le> rn32 x" "0 \<le> x \<Longrightarrow> 0 \<le> rn64 x"
  by (simp_all add: rn32_def rn64_def fl_nonneg)

lemma rn_0 [simp]: "rn32 0 = 0" "rn64 0 = 0"
  by (simp_all add: rn32_def rn64_def)

lemma rn64_nat: "n < 2 ^ 53 \<Longrightarrow> rn64 (of_nat n) = of_nat n"
  by (simp add: rn64_def fl_nat)

lemma rn32_nat: "n < 2 ^ 24 \<Longrightarrow> rn32 (of_nat n) = of_nat n"
  by (simp add: rn32_def fl_nat)

text \<open>\<open>as u64\<close> from a float: towards zero, at least 0, saturating at the top.\<close>

definition to_nat_trunc :: "nat \<Rightarrow> rat \<Rightarrow> nat" where
  "to_nat_trunc cap x = (if x \<le> 0 then 0 else min cap (nat \<lfloor>x\<rfloor>))"

end
