(* ===== verification/Catalogue.thy ===== *)
theory Catalogue
  imports Stores Floats
begin

text \<open>
  What everything is made of, how long it takes and what the colony thinks it is worth
  (\<open>crates/bc-econ/src/catalogue.rs\<close>), with the masses and tank sizes of the frames and the parts
  it computes them from (\<open>crates/bc-sim/src/content/\<close>). Arithmetic the code does in \<open>f32\<close> and
  \<open>f64\<close> is rounded after every operation (theory Floats). The lemmas show that every recipe is
  well formed: it asks only for bulk goods, names each once, and makes something.
\<close>

section \<open>Frames, parts and weapons\<close>

fun dry_mass :: "frame_id \<Rightarrow> nat" where
  "dry_mass Argo = 7100" | "dry_mass Altair = 8000" | "dry_mass Corvus = 6500"
| "dry_mass Cetus = 9500" | "dry_mass Antares = 8800" | "dry_mass Algol = 7300"
| "dry_mass Canopus = 9600" | "dry_mass Thuban = 7500" | "dry_mass Aquila = 8000"
| "dry_mass Sagittarius = 8600" | "dry_mass Corona = 8200"

fun propellant_cap :: "frame_id \<Rightarrow> nat" where
  "propellant_cap Argo = 3000" | "propellant_cap Altair = 3750" | "propellant_cap Corvus = 2500"
| "propellant_cap Cetus = 3100" | "propellant_cap Antares = 3250" | "propellant_cap Algol = 3100"
| "propellant_cap Canopus = 3400" | "propellant_cap Thuban = 3400" | "propellant_cap Aquila = 3750"
| "propellant_cap Sagittarius = 3000" | "propellant_cap Corona = 3000"

fun part_share :: "part \<Rightarrow> rat" where
  "part_share Head = rn32 (4 / 100)"
| "part_share Torso = rn32 (52 / 100)"
| "part_share ArmL = rn32 (8 / 100)"
| "part_share ArmR = rn32 (8 / 100)"
| "part_share Legs = rn32 (18 / 100)"
| "part_share Backpack = rn32 (10 / 100)"

definition part_mass_kg :: "frame_id \<Rightarrow> part \<Rightarrow> nat" where
  "part_mass_kg f p =
     (let tens = rn32 (rn32 (of_nat (dry_mass f) * part_share p) / 10)
      in nat \<lfloor>rn32 (tens + 1 / 2)\<rfloor> * 10)"

definition tank_kg :: "frame_id \<Rightarrow> nat" where
  "tank_kg line = propellant_cap line"

fun weapon_ammo :: "weapon_kind \<Rightarrow> nat" where
  "weapon_ammo MachineCannon = 400"
| "weapon_ammo HomingMissile = 24"
| "weapon_ammo ChestGatling = 300"
| "weapon_ammo MicroMissile = 16"
| "weapon_ammo HeadGun = 300"
| "weapon_ammo Flamethrower = 150"
| "weapon_ammo _ = 0"

fun munitions_per_load :: "weapon_kind \<Rightarrow> nat" where
  "munitions_per_load MachineCannon = 100"
| "munitions_per_load HomingMissile = 120"
| "munitions_per_load HeadGun = 30"
| "munitions_per_load Flamethrower = 150"
| "munitions_per_load _ = 0"

definition rounds_per_load :: "weapon_kind \<Rightarrow> nat" where
  "rounds_per_load w = weapon_ammo w"

abbreviation STEEL :: item where "STEEL \<equiv> IMaterial Steel"
abbreviation TI_ALLOY :: item where "TI_ALLOY \<equiv> IMaterial TitaniumAlloy"
abbreviation ELECTRONICS :: item where "ELECTRONICS \<equiv> IMaterial Electronics"
abbreviation SIDERIUM :: item where "SIDERIUM \<equiv> IMaterial Siderium"
abbreviation MUNITIONS :: item where "MUNITIONS \<equiv> IMaterial Munitions"
abbreviation EXOTICS :: item where "EXOTICS \<equiv> IOre Exotics"
abbreviation COMPONENTS :: item where "COMPONENTS \<equiv> IMaterial Components"
abbreviation PROPELLANT :: item where "PROPELLANT \<equiv> IMaterial Propellant"

fun propellant_item :: "grade \<Rightarrow> item" where
  "propellant_item Standard = PROPELLANT"
| "propellant_item Refined = IMaterial RefinedPropellant"
| "propellant_item UltraPure = IMaterial UltraPropellant"

section \<open>Recipes\<close>

datatype station = Fabricator | FoundryStation

record recipe =
  r_output :: item
  r_makes :: nat
  r_inputs :: "(item \<times> nat) list"
  r_station :: station
  r_secs :: nat
  r_fee :: nat

definition made_at_fabricator :: "item \<Rightarrow> nat \<Rightarrow> (item \<times> nat) list \<Rightarrow> nat \<Rightarrow> recipe" where
  "made_at_fabricator out makes inputs secs =
     \<lparr>r_output = out, r_makes = makes, r_inputs = inputs, r_station = Fabricator, r_secs = secs, r_fee = 0\<rparr>"

definition refine :: "material \<Rightarrow> nat \<Rightarrow> (item \<times> nat) list \<Rightarrow> nat \<Rightarrow> recipe" where
  "refine out makes inputs secs = made_at_fabricator (IMaterial out) makes inputs secs"

text \<open>Rounded to the nearest 10 kg (and at least 10).\<close>

definition tens :: "rat \<Rightarrow> nat" where
  "tens kg = max (to_nat_trunc u64_max (of_int (round_away (rn32 (kg / 10))))) 1 * 10"

fun kit_recipe :: "kit \<Rightarrow> recipe" where
  "kit_recipe Patch = made_at_fabricator (IKit Patch) 2
     [(COMPONENTS, 30), (TI_ALLOY, 20), (ELECTRONICS, 4)] 40"
| "kit_recipe Coolant = made_at_fabricator (IKit Coolant) 2 [(PROPELLANT, 80), (COMPONENTS, 10)] 20"
| "kit_recipe Chaff = made_at_fabricator (IKit Chaff) 3
     [(MUNITIONS, 30), (ELECTRONICS, 3), (STEEL, 10)] 30"
| "kit_recipe Stim = made_at_fabricator (IKit Stim) 2
     [(IOre Volatiles, 20), (EXOTICS, 3), (ELECTRONICS, 2)] 60"

fun module_needs :: "module_kind \<Rightarrow> (item \<times> nat) list \<times> nat" where
  "module_needs SensorArray = ([(COMPONENTS, 30), (ELECTRONICS, 25), (TI_ALLOY, 20)], 90)"
| "module_needs FireControlComputer = ([(COMPONENTS, 20), (ELECTRONICS, 40), (EXOTICS, 10)], 120)"
| "module_needs CapacitorBank = ([(COMPONENTS, 60), (ELECTRONICS, 30), (STEEL, 200)], 120)"
| "module_needs ReactorBooster = ([(COMPONENTS, 80), (ELECTRONICS, 20), (EXOTICS, 20)], 150)"
| "module_needs RadiatorPackage = ([(COMPONENTS, 60), (TI_ALLOY, 100)], 90)"
| "module_needs CompositePlating = ([(TI_ALLOY, 400), (STEEL, 200), (COMPONENTS, 20)], 120)"
| "module_needs GSeat = ([(COMPONENTS, 60), (ELECTRONICS, 10), (STEEL, 60)], 60)"
| "module_needs DamageControl = ([(COMPONENTS, 100), (ELECTRONICS, 30)], 180)"
| "module_needs AuxiliaryTank = ([(COMPONENTS, 40), (TI_ALLOY, 120)], 90)"
| "module_needs ExtendedTank = ([(COMPONENTS, 30), (TI_ALLOY, 80)], 75)"
| "module_needs IonDrive =
     ([(COMPONENTS, 80), (ELECTRONICS, 40), (EXOTICS, 30), (TI_ALLOY, 40)], 180)"
| "module_needs ThrusterKit = ([(COMPONENTS, 80), (TI_ALLOY, 60), (EXOTICS, 10)], 150)"
| "module_needs LegVerniers = ([(COMPONENTS, 60), (TI_ALLOY, 60)], 90)"
| "module_needs CargoRack = ([(COMPONENTS, 30), (STEEL, 200)], 60)"

definition module_recipe :: "module_kind \<Rightarrow> recipe" where
  "module_recipe k = (let (inputs, secs) = module_needs k in made_at_fabricator (IModule k) 1 inputs secs)"

fun weapon_needs :: "weapon_kind \<Rightarrow> (item \<times> nat) list \<times> nat" where
  "weapon_needs BeamRifle = ([(TI_ALLOY, 120), (ELECTRONICS, 40), (EXOTICS, 20)], 60)"
| "weapon_needs MachineCannon = ([(STEEL, 150), (ELECTRONICS, 10)], 40)"
| "weapon_needs BeamSaber = ([(TI_ALLOY, 30), (ELECTRONICS, 20), (EXOTICS, 10)], 40)"
| "weapon_needs HeavyBeamRifle = ([(SIDERIUM, 300), (ELECTRONICS, 150), (EXOTICS, 300)], 300)"
| "weapon_needs BeamGatling = ([(TI_ALLOY, 200), (ELECTRONICS, 60), (EXOTICS, 40)], 120)"
| "weapon_needs HomingMissile = ([(STEEL, 250), (ELECTRONICS, 60)], 90)"
| "weapon_needs CombatKnife = ([(STEEL, 60), (TI_ALLOY, 20)], 20)"
| "weapon_needs ClawShield = ([(SIDERIUM, 150), (ELECTRONICS, 40), (EXOTICS, 40)], 150)"
| "weapon_needs HeadGun = ([(STEEL, 60), (ELECTRONICS, 10)], 30)"
| "weapon_needs BeamScythe = ([(SIDERIUM, 80), (ELECTRONICS, 60), (EXOTICS, 80)], 180)"
| "weapon_needs BeamMachineGun = ([(TI_ALLOY, 150), (ELECTRONICS, 50), (EXOTICS, 30)], 90)"
| "weapon_needs HeatBlade = ([(SIDERIUM, 200), (ELECTRONICS, 30)], 150)"
| "weapon_needs Talon = ([(SIDERIUM, 150), (STEEL, 200), (ELECTRONICS, 40)], 150)"
| "weapon_needs Flamethrower = ([(STEEL, 150), (ELECTRONICS, 20)], 90)"
| "weapon_needs BeamGlaive = ([(SIDERIUM, 60), (ELECTRONICS, 50), (EXOTICS, 70)], 150)"
| "weapon_needs _ = ([(STEEL, 100)], 60)"

definition weapon_recipe :: "weapon_kind \<Rightarrow> recipe" where
  "weapon_recipe w = (let (inputs, secs) = weapon_needs w in made_at_fabricator (IWeapon w) 1 inputs secs)"

text \<open>A part: structure, armour and electronics in proportion to its mass, and what its systems need.\<close>

definition need_add :: "item \<Rightarrow> rat \<Rightarrow> (item, nat) bmap \<Rightarrow> (item, nat) bmap" where
  "need_add i kg need = (if 0 < kg then bupd 0 (\<lambda>e. e + tens kg) i need else need)"

fun part_wiring :: "part \<Rightarrow> rat" where
  "part_wiring Head = rn32 (8 / 100)"
| "part_wiring Torso = rn32 (4 / 100)"
| "part_wiring Backpack = rn32 (3 / 100)"
| "part_wiring _ = rn32 (1 / 100)"

fun part_extra :: "frame_id \<Rightarrow> part \<Rightarrow> (item \<times> rat) list" where
  "part_extra Altair Torso = [(ELECTRONICS, 200), (EXOTICS, 150)]"
| "part_extra Altair Backpack = [(SIDERIUM, 100), (ELECTRONICS, 60)]"
| "part_extra Algol Torso = [(ELECTRONICS, 150), (EXOTICS, 100)]"
| "part_extra Antares Torso = [(STEEL, 300), (ELECTRONICS, 40)]"
| "part_extra Antares Legs = [(STEEL, 200), (ELECTRONICS, 30)]"
| "part_extra Canopus ArmL = [(SIDERIUM, 50)]"
| "part_extra Canopus ArmR = [(SIDERIUM, 50)]"
| "part_extra _ _ = []"

definition part_needs :: "frame_id \<Rightarrow> part \<Rightarrow> (item \<times> rat) list" where
  "part_needs line p =
     (let m = of_nat (part_mass_kg line p); lodestar = is_lodestar line;
          armour = (if lodestar then SIDERIUM else TI_ALLOY);
          armour_share = (if lodestar then 1 / 2 else rn32 (35 / 100));
          steel_share = (if lodestar then rn32 (4 / 10) else rn32 (6 / 10));
          wiring = (if lodestar then 2 else 1);
          electronics = rn32 (wiring * part_wiring p)
      in [(armour, rn32 (m * armour_share)), (STEEL, rn32 (m * steel_share)),
          (ELECTRONICS, rn32 (m * electronics))]
         @ (if lodestar \<and> p = Torso then [(EXOTICS, rn32 (m * rn32 (5 / 100)))] else [])
         @ part_extra line p
         @ (if line = Argo \<and> p = Torso then [(ELECTRONICS, 40)] else []))"

definition part_recipe :: "frame_id \<Rightarrow> part \<Rightarrow> recipe" where
  "part_recipe line p =
     (let need = fold (\<lambda>(i, kg). need_add i kg) (part_needs line p) bempty;
          m = of_nat (part_mass_kg line p);
          secs = rn32 (rn32 (10 + rn32 (m / 40)) * (if is_lodestar line then 3 / 2 else 1))
      in made_at_fabricator (IPart line p) 1 (entries need)
           (to_nat_trunc u32_max (of_int (round_away secs))))"

definition refining :: "recipe list" where
  "refining =
     [refine Steel 80 [(IOre NickelIron, 100)] 20,
      refine TitaniumAlloy 80 [(IOre Titanium, 100), (IOre Volatiles, 10)] 30,
      refine Propellant 100 [(IOre Volatiles, 100)] 15,
      refine RefinedPropellant 75 [(IOre Volatiles, 100)] 25,
      refine UltraPropellant 50 [(IOre Volatiles, 100), (EXOTICS, 3)] 40,
      refine Electronics 20 [(EXOTICS, 20), (STEEL, 40)] 40,
      refine Munitions 60 [(STEEL, 50), (IOre Volatiles, 10)] 20,
      \<lparr>r_output = SIDERIUM, r_makes = 100, r_inputs = [(TI_ALLOY, 200), (EXOTICS, 40)],
       r_station = FoundryStation, r_secs = 180, r_fee = 400\<rparr>,
      refine Components 40 [(STEEL, 40), (ELECTRONICS, 5), (TI_ALLOY, 5)] 30]"

definition recipes :: "recipe list" where
  "recipes =
     refining
     @ concat (map (\<lambda>line. map (part_recipe line) part_all) LINES)
     @ map weapon_recipe item_weapons
     @ map module_recipe module_all
     @ map kit_recipe kit_all"

definition recipe_of :: "item \<Rightarrow> recipe option" where
  "recipe_of i = find (\<lambda>r. r_output r = i) recipes"

section \<open>Values\<close>

text \<open>The value of \<open>qty\<close> at \<open>price\<close> (per tonne for bulk goods, per piece otherwise), rounded down;
  the product is taken in \<open>u128\<close>.\<close>

definition worth :: "item \<Rightarrow> nat \<Rightarrow> nat \<Rightarrow> nat" where
  "worth i price qty =
     (let v = price * qty; w = (if item_bulk i then v div 1000 else v) in sat64 w)"

fun ore_value :: "ore \<Rightarrow> nat" where
  "ore_value NickelIron = 1000"
| "ore_value Titanium = 4000"
| "ore_value Volatiles = 3000"
| "ore_value Exotics = 15000"

fun sum_opt :: "nat option list \<Rightarrow> nat option" where
  "sum_opt [] = Some 0"
| "sum_opt (x # xs) = (case x of None \<Rightarrow> None | Some a \<Rightarrow> map_option ((+) a) (sum_opt xs))"

definition value_pass :: "recipe \<Rightarrow> (item, nat) bmap \<Rightarrow> (item, nat) bmap" where
  "value_pass r v =
     (case sum_opt (map (\<lambda>(i, qty). map_option (\<lambda>price. worth i price qty) (bget v i)) (r_inputs r)) of
        None \<Rightarrow> v
      | Some cost \<Rightarrow>
          (let per = rn64 (rn64 (rn64 (of_nat (cost + r_fee r)) * (5 / 4)) / of_nat (r_makes r));
               price = (if item_bulk (r_output r) then rn64 (per * 1000) else per)
           in bput (r_output r)
                (to_nat_trunc u64_max (of_int (round_away (rn64 (price / 10)))) * 10) v))"

definition build_values :: "(item, nat) bmap" where
  "build_values =
     (fold value_pass recipes ^^ 3) (fold (\<lambda>a. bput (IOre a) (ore_value a)) ore_all bempty)"

definition colony_value :: "item \<Rightarrow> nat" where
  "colony_value i = bor 0 (bget build_values i)"

section \<open>Every recipe is well formed\<close>

definition recipe_ok :: "recipe \<Rightarrow> bool" where
  "recipe_ok r \<longleftrightarrow> distinct (map fst (r_inputs r)) \<and> (\<forall>(i, q)\<in>set (r_inputs r). item_bulk i)
     \<and> 0 < r_makes r"

lemma distinct_entries [simp]: "distinct (map fst (entries m))"
  by (simp add: ssorted_distinct)

lemma part_needs_bulk: "(i, kg) \<in> set (part_needs line p) \<Longrightarrow> item_bulk i"
proof -
  have "(i, kg) \<in> set (part_extra line p) \<Longrightarrow> item_bulk i"
    by (cases "(line, p)" rule: part_extra.cases) auto
  then show "(i, kg) \<in> set (part_needs line p) \<Longrightarrow> ?thesis"
    by (auto simp: part_needs_def Let_def split: if_splits)
qed

lemma need_fold_keys:
  "bget (fold (\<lambda>(i, kg). need_add i kg) ns m) j = Some q \<Longrightarrow>
     j \<in> fst ` set ns \<or> bget m j \<noteq> None"
  by (induction ns arbitrary: m) (fastforce simp: need_add_def split: if_splits)+

lemma part_recipe_ok: "recipe_ok (part_recipe line p)"
proof -
  have "item_bulk i" if "(i, q) \<in> set (entries (fold (\<lambda>(i, kg). need_add i kg) (part_needs line p) bempty))"
    for i q
    using need_fold_keys [of "part_needs line p" bempty i q] that part_needs_bulk
    by (auto simp: bget_entries)
  then show ?thesis
    by (auto simp: recipe_ok_def part_recipe_def made_at_fabricator_def Let_def)
qed

lemma weapon_recipe_ok: "recipe_ok (weapon_recipe w)"
  by (cases w) (simp_all add: recipe_ok_def weapon_recipe_def made_at_fabricator_def)

lemma module_recipe_ok: "recipe_ok (module_recipe k)"
  by (cases k) (simp_all add: recipe_ok_def module_recipe_def made_at_fabricator_def)

lemma kit_recipe_ok: "recipe_ok (kit_recipe k)"
  by (cases k) (simp_all add: recipe_ok_def made_at_fabricator_def)

lemma refining_ok: "r \<in> set refining \<Longrightarrow> recipe_ok r"
  by (auto simp: refining_def refine_def recipe_ok_def made_at_fabricator_def)

lemma recipes_ok: "r \<in> set recipes \<Longrightarrow> recipe_ok r"
  by (auto simp: recipes_def refining_ok part_recipe_ok weapon_recipe_ok module_recipe_ok kit_recipe_ok)

lemma recipe_of_Some: "recipe_of i = Some r \<Longrightarrow> r \<in> set recipes \<and> r_output r = i"
  by (auto simp: recipe_of_def find_Some_iff)

lemma recipe_of_ok: "recipe_of i = Some r \<Longrightarrow> recipe_ok r"
  using recipe_of_Some recipes_ok by blast

lemma recipe_output_weapon [simp]: "r_output (weapon_recipe w) = IWeapon w"
  by (simp add: weapon_recipe_def made_at_fabricator_def split: prod.split)

lemma recipe_output_module [simp]: "r_output (module_recipe k) = IModule k"
  by (simp add: module_recipe_def made_at_fabricator_def split: prod.split)

lemma recipe_output_kit [simp]: "r_output (kit_recipe k) = IKit k"
  by (cases k) (simp_all add: made_at_fabricator_def)

lemma recipe_output_part [simp]: "r_output (part_recipe l p) = IPart l p"
  by (simp add: part_recipe_def made_at_fabricator_def Let_def)

section \<open>Lodestar technology, and the colony's desks\<close>

text \<open>
  \<open>lodestar_tech\<close> asks of a weapon whether anything it is made of is Lodestar technology: the
  recursion ends because recipes ask only for bulk goods.
\<close>

function (sequential) lodestar_tech :: "item \<Rightarrow> bool" where
  "lodestar_tech (IMaterial Siderium) = True"
| "lodestar_tech (IPart line _) = is_lodestar line"
| "lodestar_tech (IOre _) = False"
| "lodestar_tech (IMaterial _) = False"
| "lodestar_tech (IWeapon w) =
     (case recipe_of (IWeapon w) of
        None \<Rightarrow> False
      | Some r \<Rightarrow> list_ex (\<lambda>x. lodestar_tech (fst x)) (r_inputs r))"
| "lodestar_tech (IModule _) = False"
| "lodestar_tech (IKit _) = False"
  by pat_completeness auto
termination
proof (relation "measure (\<lambda>i. if item_bulk i then 0 else 1)")
  fix w r and x :: "item \<times> nat"
  assume "recipe_of (IWeapon w) = Some r" and "x \<in> set (r_inputs r)"
  then show "(fst x, IWeapon w) \<in> measure (\<lambda>i. if item_bulk i then 0 else 1)"
    using recipe_of_ok by (fastforce simp: recipe_ok_def)
qed simp

record desk =
  d_base :: nat
  d_target :: nat
  d_buys :: bool
  d_sells :: bool
  d_settle_hours :: nat

definition desk_of_value :: "nat \<Rightarrow> nat \<Rightarrow> bool \<Rightarrow> bool \<Rightarrow> nat \<Rightarrow> desk" where
  "desk_of_value base target buys sells hours =
     \<lparr>d_base = base, d_target = target, d_buys = buys, d_sells = sells, d_settle_hours = hours\<rparr>"

fun desk_terms :: "item \<Rightarrow> nat \<Rightarrow> desk" where
  "desk_terms (IOre Exotics) v = desk_of_value v 5000 True False 3"
| "desk_terms (IOre NickelIron) v = desk_of_value v 60000 True False 3"
| "desk_terms (IOre _) v = desk_of_value v 30000 True False 3"
| "desk_terms (IMaterial Propellant) v = desk_of_value 1000 60000 True True 1"
| "desk_terms (IMaterial RefinedPropellant) v = desk_of_value 2500 20000 True True 2"
| "desk_terms (IMaterial UltraPropellant) v = desk_of_value 6000 5000 True True 3"
| "desk_terms (IMaterial Electronics) v = desk_of_value v 2000 True True 2"
| "desk_terms (IMaterial Munitions) v = desk_of_value v 10000 True True 2"
| "desk_terms (IMaterial Steel) v = desk_of_value v 30000 True True 2"
| "desk_terms (IMaterial Components) v = desk_of_value v 8000 True True 2"
| "desk_terms (IMaterial _) v = desk_of_value v 15000 True True 2"
| "desk_terms (IPart _ _) v = desk_of_value v 3 True True 6"
| "desk_terms (IWeapon _) v = desk_of_value v 3 True True 6"
| "desk_terms (IModule _) v = desk_of_value v 2 True True 6"
| "desk_terms (IKit _) v = desk_of_value v 30 True True 2"

definition desk_for :: "item \<Rightarrow> desk option" where
  "desk_for i = (if lodestar_tech i then None else Some (desk_terms i (colony_value i)))"

lemma desk_target_pos: "desk_for i = Some d \<Longrightarrow> 0 < d_target d"
  by (cases "(i, colony_value i)" rule: desk_terms.cases)
    (auto simp: desk_for_def desk_of_value_def split: if_splits)

lemma desk_buys: "desk_for i = Some d \<Longrightarrow> d_buys d"
  by (cases "(i, colony_value i)" rule: desk_terms.cases)
    (auto simp: desk_for_def desk_of_value_def split: if_splits)

section \<open>Worth\<close>

lemma worth_0 [simp]: "worth i p 0 = 0"
  by (simp add: worth_def)

lemma worth_le_u64 [simp]: "worth i p q \<le> u64_max"
  by (simp add: worth_def Let_def)

lemma sat64_mono: "a \<le> b \<Longrightarrow> sat64 a \<le> sat64 b"
  by (simp add: sat64_def)

lemma worth_mono: "p \<le> p' \<Longrightarrow> q \<le> q' \<Longrightarrow> worth i p q \<le> worth i p' q'"
  unfolding worth_def Let_def
  by (rule sat64_mono) (simp add: div_le_mono mult_le_mono)

lemma sat64_below: "sat64 n < u64_max \<Longrightarrow> sat64 n = n"
  by (simp add: sat64_def min_def split: if_splits)

lemma worth_below:
  assumes "worth i p (q + q') < u64_max"
  shows "worth i p (q + q') = (if item_bulk i then (p * q + p * q') div 1000 else p * q + p * q')"
  using assms sat64_below unfolding worth_def Let_def add_mult_distrib2 by presburger

lemma worth_split:
  assumes "worth i p (q + q') < u64_max"
  shows "worth i p q + worth i p q' \<le> worth i p (q + q')"
proof -
  have "worth i p x \<le> (if item_bulk i then p * x div 1000 else p * x)" for x
    unfolding worth_def Let_def by (rule sat64_le(1))
  from this [of q] this [of q'] div_add_le [of "p * q" 1000 "p * q'"] show ?thesis
    unfolding worth_below [OF assms] by (auto split: if_splits)
qed

lemma worth_split_le: "worth i p q + worth i p q' \<le> worth i p (q + q') \<or> worth i p (q + q') = u64_max"
  using worth_split [of i p q q'] worth_le_u64 [of i p "q + q'"] by linarith

lemma worth_exact: "\<not> item_bulk i \<Longrightarrow> p * q \<le> u64_max \<Longrightarrow> worth i p q = p * q"
  by (simp add: worth_def)

lemma distinct_frames [simp]: "distinct LINES" "distinct part_all" "distinct module_all" "distinct kit_all"
  by (simp_all add: LINES_def part_all_def module_all_def kit_all_def)

lemma distinct_part_outputs:
  "distinct ls \<Longrightarrow> distinct ps \<Longrightarrow> distinct (concat (map (\<lambda>l. map (IPart l) ps) ls))"
  by (induction ls) (auto simp: distinct_map inj_on_def)

lemma recipe_outputs:
  "map r_output recipes = map r_output refining @ concat (map (\<lambda>l. map (IPart l) part_all) LINES)
     @ map IWeapon item_weapons @ map IModule module_all @ map IKit kit_all"
  by (simp add: recipes_def map_concat comp_def)

lemma distinct_item_weapons: "distinct item_weapons"
  by (simp add: item_weapons_eq)

lemma refining_outputs: "map r_output refining = [STEEL, TI_ALLOY, PROPELLANT, IMaterial RefinedPropellant,
    IMaterial UltraPropellant, ELECTRONICS, MUNITIONS, SIDERIUM, COMPONENTS]"
  by (simp add: refining_def refine_def made_at_fabricator_def)

lemma distinct_recipes: "distinct (map r_output recipes)"
  unfolding recipe_outputs refining_outputs
  using distinct_part_outputs [of LINES part_all] distinct_item_weapons
  by (auto simp: distinct_map inj_on_def)

lemma recipe_of_mem: "r \<in> set recipes \<Longrightarrow> recipe_of (r_output r) = Some r"
proof -
  assume r: "r \<in> set recipes"
  then obtain r' where r': "recipe_of (r_output r) = Some r'"
    by (cases "recipe_of (r_output r)") (auto simp: recipe_of_def find_None_iff)
  then have "r' \<in> set recipes" "r_output r' = r_output r" using recipe_of_Some by blast+
  with r have "r' = r" using distinct_recipes by (auto simp: distinct_map inj_on_def)
  with r' show ?thesis by simp
qed

text \<open>C19: every recipe is well formed: it is the only one for what it makes, names each of its
  inputs once, asks only for bulk goods and makes at least one of its output.\<close>

theorem recipes_well_formed:
  assumes "r \<in> set recipes"
  shows "recipe_of (r_output r) = Some r \<and> distinct (map fst (r_inputs r))
       \<and> list_all (\<lambda>x. item_bulk (fst x)) (r_inputs r) \<and> 0 < r_makes r"
  using recipes_ok [OF assms] recipe_of_mem [OF assms]
  by (auto simp: recipe_ok_def list_all_iff)

theorem recipes_well_formed_witness:
  "recipe_of (IWeapon BeamRifle) = Some (weapon_recipe BeamRifle) \<and> 0 < r_makes (weapon_recipe BeamRifle)"
proof -
  have "weapon_recipe BeamRifle \<in> set recipes" by (simp add: recipes_def item_weapons_eq)
  from recipes_well_formed [OF this] show ?thesis by simp
qed

text \<open>Rounding a value down never lets splitting a trade pay better: below the top of the
  range, two parts of a quantity are worth together at most what the whole is worth, the loss is
  under one credit, and what something is worth grows with the price and the quantity.\<close>

theorem worth_split_and_monotone:
  assumes "worth i p (q + q') < u64_max" and "p0 \<le> p" and "q0 \<le> q"
  shows "worth i p q + worth i p q' \<le> worth i p (q + q')
       \<and> worth i p (q + q') \<le> worth i p q + worth i p q' + 1
       \<and> worth i p0 q0 \<le> worth i p q"
proof -
  have "worth i p x = (if item_bulk i then p * x div 1000 else p * x)" if "x \<le> q + q'" for x
    using worth_mono [OF order.refl that, of i p] assms(1) unfolding worth_def Let_def
    by (intro sat64_below) linarith
  from this [of q] this [of q'] have "worth i p (q + q') \<le> worth i p q + worth i p q' + 1"
    unfolding worth_below [OF assms(1)] by auto
  then show ?thesis using worth_split [OF assms(1)] worth_mono [OF assms(2,3)] by simp
qed

theorem worth_split_and_monotone_witness:
  "worth (IMaterial Steel) 1500 1 + worth (IMaterial Steel) 1500 1 \<le> worth (IMaterial Steel) 1500 (1 + 1)"
  using worth_split_and_monotone [of "IMaterial Steel" 1500 1 1 1500 1]
  by (simp add: worth_def u64_max_def sat64_def)

end
