(* ===== verification/Fab.thy ===== *)
theory Fab
  imports Catalogue
begin

text \<open>
  The stations' job queues (\<open>crates/bc-econ/src/fab.rs\<close>): jobs run one at a time, in order, on the
  wall clock; a job's batches land in the stores as they finish. The inner loop of \<open>settle\<close> is
  \<open>run_batches\<close>, the outer one \<open>settle_from\<close>, which carries the deliveries made so far.

  The lemmas show that settling neither makes nor loses a batch, that how often a queue is settled
  does not matter (locale \<open>clockwork\<close>, interpreted on a queue and on a pilot's two stations), that
  \<open>secs_left\<close> is exact, and what cancelling gives back.
\<close>

section \<open>Jobs and queues\<close>

definition MAX_JOBS :: nat where "MAX_JOBS = 8"

record job =
  jb_recipe :: item
  jb_batches :: nat
  jb_done :: nat
  jb_secs :: nat
  jb_started :: nat
  jb_fee_pct :: nat

definition job_recipe :: "job \<Rightarrow> recipe option" where
  "job_recipe j = recipe_of (jb_recipe j)"

definition job_secs_left :: "nat \<Rightarrow> job \<Rightarrow> nat" where
  "job_secs_left now j = (jb_started j + jb_secs j - now) + (jb_batches j - (jb_done j + 1)) * jb_secs j"

type_synonym queue = "job list"
type_synonym goods = "(item \<times> nat) list"

definition queue_is_full :: "queue \<Rightarrow> bool" where
  "queue_is_full q \<longleftrightarrow> MAX_JOBS \<le> length q"

definition queue_push :: "item \<Rightarrow> nat \<Rightarrow> nat \<Rightarrow> nat \<Rightarrow> nat \<Rightarrow> queue \<Rightarrow> queue" where
  "queue_push r batches secs now fee_pct q =
     q @ [\<lparr>jb_recipe = r, jb_batches = batches, jb_done = 0, jb_secs = max secs 1,
           jb_started = (if q = [] then now else 0), jb_fee_pct = fee_pct\<rparr>]"

text \<open>One batch of \<open>r\<close> delivered: onto the last entry when it is of the same item.\<close>

definition deliver_batch :: "recipe \<Rightarrow> goods \<Rightarrow> goods" where
  "deliver_batch r out =
     (if out \<noteq> [] \<and> fst (last out) = r_output r
      then butlast out @ [(r_output r, snd (last out) + r_makes r)]
      else out @ [(r_output r, r_makes r)])"

function run_batches :: "recipe \<Rightarrow> nat \<Rightarrow> job \<Rightarrow> goods \<Rightarrow> job \<times> goods" where
  "run_batches r now j out =
     (if jb_done j < jb_batches j \<and> jb_started j + jb_secs j \<le> now
      then run_batches r now (j\<lparr>jb_started := jb_started j + jb_secs j, jb_done := jb_done j + 1\<rparr>)
             (deliver_batch r out)
      else (j, out))"
  by pat_completeness auto
termination by (relation "measure (\<lambda>(r, now, j, out). jb_batches j - jb_done j)") auto

declare run_batches.simps [simp del]

fun start_next :: "nat \<Rightarrow> queue \<Rightarrow> queue" where
  "start_next t [] = []"
| "start_next t (j # q) = j\<lparr>jb_started := t\<rparr> # q"

lemma length_start_next [simp]: "length (start_next t q) = length q"
  by (cases q) simp_all

function settle_from :: "nat \<Rightarrow> queue \<Rightarrow> goods \<Rightarrow> queue \<times> goods" where
  "settle_from now [] out = ([], out)"
| "settle_from now (j # q) out =
     (case job_recipe j of
        None \<Rightarrow> settle_from now q out
      | Some r \<Rightarrow>
          let (j', out') = run_batches r now j out
          in if jb_done j' < jb_batches j' then (j' # q, out')
             else settle_from now (start_next (jb_started j') q) out')"
  by pat_completeness auto
termination by (relation "measure (\<lambda>(now, q, out). length q)") auto

definition settle :: "nat \<Rightarrow> queue \<Rightarrow> queue \<times> goods" where
  "settle now q = settle_from now q []"

text \<open>The value of \<open>cancel\<close> is what it returns; the queue is changed even when the job has no
  recipe any more (the early return of \<open>?\<close> after the removal).\<close>

definition queue_cancel :: "nat \<Rightarrow> nat \<Rightarrow> queue \<Rightarrow> (goods \<times> nat) option \<times> queue" where
  "queue_cancel index now q =
     (if length q \<le> index then (None, q)
      else
        let j = q ! index;
            q' = (if index = 0 then start_next now (remove_at index q) else remove_at index q);
            left = jb_batches j - jb_done j
        in (case job_recipe j of
              None \<Rightarrow> (None, q')
            | Some r \<Rightarrow>
                (Some (map (\<lambda>(i, n). (i, n * left)) (r_inputs r),
                       r_fee r * left * jb_fee_pct j div 100), q')))"

fun queue_secs_left :: "nat \<Rightarrow> queue \<Rightarrow> nat" where
  "queue_secs_left now [] = 0"
| "queue_secs_left now (j # q) =
     job_secs_left now j + sum_list (map (\<lambda>k. (jb_batches k - jb_done k) * jb_secs k) q)"

record works =
  fabricator :: queue
  foundry :: queue

definition works_empty :: works where "works_empty = \<lparr>fabricator = [], foundry = []\<rparr>"

fun works_queue :: "station \<Rightarrow> works \<Rightarrow> queue" where
  "works_queue Fabricator w = fabricator w"
| "works_queue FoundryStation w = foundry w"

fun works_set :: "station \<Rightarrow> queue \<Rightarrow> works \<Rightarrow> works" where
  "works_set Fabricator q w = w\<lparr>fabricator := q\<rparr>"
| "works_set FoundryStation q w = w\<lparr>foundry := q\<rparr>"

definition works_settle :: "nat \<Rightarrow> works \<Rightarrow> works \<times> goods" where
  "works_settle now w =
     (let (fq, out1) = settle now (fabricator w); (nq, out2) = settle now (foundry w)
      in (\<lparr>fabricator = fq, foundry = nq\<rparr>, out1 @ out2))"

section \<open>What a queue still has to make\<close>

definition goods_of :: "goods \<Rightarrow> item \<Rightarrow> nat" where
  "goods_of gs i = sum_list (map (\<lambda>(k, n). if k = i then n else 0) gs)"

definition job_pending :: "item \<Rightarrow> job \<Rightarrow> nat" where
  "job_pending i j =
     (case job_recipe j of
        None \<Rightarrow> 0
      | Some r \<Rightarrow> if r_output r = i then (jb_batches j - jb_done j) * r_makes r else 0)"

definition pending :: "queue \<Rightarrow> item \<Rightarrow> nat" where
  "pending q i = sum_list (map (job_pending i) q)"

lemma goods_of_simps [simp]: "goods_of [] i = 0" "goods_of (a @ b) i = goods_of a i + goods_of b i"
  "goods_of ((k, n) # a) i = (if k = i then n else 0) + goods_of a i"
  by (simp_all add: goods_of_def)

lemma pending_simps [simp]: "pending [] i = 0" "pending (j # q) i = job_pending i j + pending q i"
  by (simp_all add: pending_def)

lemma goods_of_deliver [simp]:
  "goods_of (deliver_batch r out) i = goods_of out i + (if r_output r = i then r_makes r else 0)"
proof (cases "out \<noteq> [] \<and> fst (last out) = r_output r")
  case True
  then obtain b k n where "out = b @ [(k, n)]" by (metis rev_exhaust surj_pair)
  with True show ?thesis by (simp add: deliver_batch_def)
qed (auto simp: deliver_batch_def)

lemma job_recipe_cong [simp]: "job_recipe (j\<lparr>jb_started := t\<rparr>) = job_recipe j"
  "job_recipe (j\<lparr>jb_started := t, jb_done := d\<rparr>) = job_recipe j"
  by (simp_all add: job_recipe_def)

lemma job_pending_start [simp]: "job_pending i (j\<lparr>jb_started := t\<rparr>) = job_pending i j"
  by (simp add: job_pending_def split: option.split)

lemma pending_start_next [simp]: "pending (start_next t q) i = pending q i"
  by (cases q) simp_all

text \<open>The loop in closed form: how many of the batches still to do are finished by \<open>now\<close>.\<close>

lemma run_batches_fields:
  assumes "run_batches r now j out = (j', out')"
  shows "jb_recipe j' = jb_recipe j \<and> jb_batches j' = jb_batches j \<and> jb_secs j' = jb_secs j
       \<and> jb_fee_pct j' = jb_fee_pct j \<and> jb_done j \<le> jb_done j'
       \<and> (jb_done j \<le> jb_batches j \<longrightarrow> jb_done j' \<le> jb_batches j)
       \<and> (jb_batches j \<le> jb_done j \<longrightarrow> jb_done j' = jb_done j)
       \<and> jb_started j' = jb_started j + (jb_done j' - jb_done j) * jb_secs j
       \<and> (jb_done j' < jb_batches j' \<longrightarrow> now < jb_started j' + jb_secs j')
       \<and> (jb_done j' = jb_done j \<or> jb_started j' \<le> now)
       \<and> (\<forall>i. goods_of out' i = goods_of out i
             + (if r_output r = i then (jb_done j' - jb_done j) * r_makes r else 0))"
  using assms
proof (induction r now j out arbitrary: j' out' rule: run_batches.induct)
  case (1 r now j out)
  show ?case
  proof (cases "jb_done j < jb_batches j \<and> jb_started j + jb_secs j \<le> now")
    case True
    let ?j = "j\<lparr>jb_started := jb_started j + jb_secs j, jb_done := jb_done j + 1\<rparr>"
    from True "1.prems" have "run_batches r now ?j (deliver_batch r out) = (j', out')"
      by (subst (asm) run_batches.simps) simp
    from "1.IH" [OF True this] have IH: "jb_done j + 1 \<le> jb_done j'"
      "jb_started j' = jb_started j + jb_secs j + (jb_done j' - (jb_done j + 1)) * jb_secs j"
      "jb_done j' = jb_done j + 1 \<or> jb_started j' \<le> now" and rest:
      "jb_recipe j' = jb_recipe j" "jb_batches j' = jb_batches j" "jb_secs j' = jb_secs j"
      "jb_fee_pct j' = jb_fee_pct j" "jb_done j + 1 \<le> jb_batches j \<longrightarrow> jb_done j' \<le> jb_batches j"
      "jb_done j' < jb_batches j' \<longrightarrow> now < jb_started j' + jb_secs j'"
      "\<And>i. goods_of out' i = goods_of (deliver_batch r out) i
             + (if r_output r = i then (jb_done j' - (jb_done j + 1)) * r_makes r else 0)"
      by auto
    from IH(1) obtain k where k: "jb_done j' = jb_done j + 1 + k" by (auto simp: le_iff_add)
    with IH rest True show ?thesis by auto
  next
    case False
    with "1.prems" have "j' = j" "out' = out" by (subst (asm) run_batches.simps; auto)+
    with False show ?thesis by auto
  qed
qed

lemma run_batches_job: "fst (run_batches r now j out) = fst (run_batches r now j out2)"
proof (induction r now j out arbitrary: out2 rule: run_batches.induct)
  case (1 r now j out)
  show ?case
  proof (cases "jb_done j < jb_batches j \<and> jb_started j + jb_secs j \<le> now")
    case True
    from "1.IH" [OF True, of "deliver_batch r out2"] True show ?thesis
      by (subst (1 2) run_batches.simps) simp
  next
    case False
    then show ?thesis by (subst (1 2) run_batches.simps) auto
  qed
qed

lemma settle_from_jobs: "fst (settle_from now q out) = fst (settle_from now q out2)"
proof (induction now q out arbitrary: out2 rule: settle_from.induct)
  case (2 now j q out)
  show ?case
  proof (cases "job_recipe j")
    case None
    with 2(1) show ?thesis by simp
  next
    case (Some r)
    obtain j' o1 where r1: "run_batches r now j out = (j', o1)" by force
    with run_batches_job [of r now j out out2] obtain o2 where r2: "run_batches r now j out2 = (j', o2)"
      by (metis fst_conv surj_pair)
    show ?thesis using 2(2) [OF Some r1 [symmetric] refl, of o2] Some r1 r2 by simp
  qed
qed simp

lemma settle_from_pending:
  "settle_from now q out = (q', out') \<Longrightarrow> goods_of out' i + pending q' i = goods_of out i + pending q i"
proof (induction now q out arbitrary: q' out' rule: settle_from.induct)
  case (2 now j q out)
  show ?case
  proof (cases "job_recipe j")
    case None
    with 2(1) [of q' out'] "2.prems" show ?thesis by (simp add: job_pending_def)
  next
    case (Some r)
    obtain j' o1 where r1: "run_batches r now j out = (j', o1)" by force
    note f = run_batches_fields [OF r1]
    then have j': "job_recipe j' = Some r" using Some by (simp add: job_recipe_def)
    have made: "goods_of o1 i + job_pending i j' = goods_of out i + job_pending i j"
    proof -
      have "(jb_done j' - jb_done j) + (jb_batches j - jb_done j') = jb_batches j - jb_done j"
        using f by (cases "jb_done j \<le> jb_batches j") auto
      then have "(jb_done j' - jb_done j) * r_makes r + (jb_batches j - jb_done j') * r_makes r
          = (jb_batches j - jb_done j) * r_makes r"
        by (metis add_mult_distrib)
      with f j' Some show ?thesis by (simp add: job_pending_def)
    qed
    show ?thesis
    proof (cases "jb_done j' < jb_batches j'")
      case True
      with Some r1 "2.prems" made show ?thesis by auto
    next
      case False
      then have "job_pending i j' = 0" using j' by (simp add: job_pending_def)
      moreover from 2(2) [OF Some r1 [symmetric] refl False] Some r1 False "2.prems"
      have "goods_of out' i + pending q' i = goods_of o1 i + pending q i" by simp
      ultimately show ?thesis using made by simp
    qed
  qed
qed simp


section \<open>Settling twice\<close>

lemma run_batches_later:
  "t1 \<le> t2 \<Longrightarrow> run_batches r t1 j out = (j1, o1) \<Longrightarrow> run_batches r t2 j1 o1 = run_batches r t2 j out"
proof (induction r t1 j out rule: run_batches.induct)
  case (1 r now j out)
  show ?case
  proof (cases "jb_done j < jb_batches j \<and> jb_started j + jb_secs j \<le> now")
    case True
    let ?j = "j\<lparr>jb_started := jb_started j + jb_secs j, jb_done := jb_done j + 1\<rparr>"
    from True "1.prems"(2) have "run_batches r now ?j (deliver_batch r out) = (j1, o1)"
      by (subst (asm) run_batches.simps) simp
    from "1.IH" [OF True "1.prems"(1) this] True "1.prems"(1) show ?thesis
      by (subst (2) run_batches.simps) simp
  next
    case False
    with "1.prems"(2) have "j1 = j" "o1 = out" by (subst (asm) run_batches.simps; auto)+
    then show ?thesis by simp
  qed
qed

lemma run_batches_done: "jb_batches j \<le> jb_done j \<Longrightarrow> run_batches r t j out = (j, out)"
  by (subst run_batches.simps) simp

lemma settle_from_later:
  "t1 \<le> t2 \<Longrightarrow> settle_from t1 q out = (q1, o1) \<Longrightarrow> settle_from t2 q1 o1 = settle_from t2 q out"
proof (induction t1 q out arbitrary: q1 o1 rule: settle_from.induct)
  case (2 now j q out)
  show ?case
  proof (cases "job_recipe j")
    case None
    with 2(1) [of q1 o1] "2.prems" show ?thesis by simp
  next
    case (Some r)
    obtain j' o' where r1: "run_batches r now j out = (j', o')" by force
    from run_batches_fields [OF r1] Some have j': "job_recipe j' = Some r" by (simp add: job_recipe_def)
    from run_batches_later [OF "2.prems"(1) r1] have r2: "run_batches r t2 j' o' = run_batches r t2 j out" .
    show ?thesis
    proof (cases "jb_done j' < jb_batches j'")
      case True
      with Some r1 "2.prems"(2) have "q1 = j' # q" "o1 = o'" by auto
      with r2 j' Some show ?thesis by simp
    next
      case False
      then have "run_batches r t2 j out = (j', o')"
        using r2 run_batches_done [of j' r t2 o'] by simp
      moreover from Some r1 False "2.prems"(2)
      have "settle_from now (start_next (jb_started j') q) o' = (q1, o1)" by simp
      ultimately show ?thesis
        using 2(2) [OF Some r1 [symmetric] refl False "2.prems"(1)] Some False by simp
    qed
  qed
qed simp

text \<open>
  The contract of anything that runs on the wall clock: settling delivers exactly what is taken
  off what is pending, and settling early first changes nothing. What follows from it is that the
  moments a pilot's stations happen to be looked at do not matter.
\<close>

fun settle_at :: "(nat \<Rightarrow> 'q \<Rightarrow> 'q \<times> 'o) \<Rightarrow> nat list \<Rightarrow> 'q \<Rightarrow> 'q \<times> 'o list" where
  "settle_at f [] q = (q, [])"
| "settle_at f (t # ts) q = (let (q', d) = f t q; (q'', ds) = settle_at f ts q' in (q'', d # ds))"

locale clockwork =
  fixes clk_settle :: "nat \<Rightarrow> 'q \<Rightarrow> 'q \<times> 'o" and clk_total :: "'o \<Rightarrow> 'g \<Rightarrow> nat"
    and clk_pending :: "'q \<Rightarrow> 'g \<Rightarrow> nat"
  assumes clk_conserve: "clk_settle t q = (q', d) \<Longrightarrow> clk_total d i + clk_pending q' i = clk_pending q i"
    and clk_later: "t1 \<le> t2 \<Longrightarrow> fst (clk_settle t2 (fst (clk_settle t1 q))) = fst (clk_settle t2 q)"
begin

lemma clk_idem: "fst (clk_settle t (fst (clk_settle t q))) = fst (clk_settle t q)"
  by (rule clk_later) simp

lemma clk_polls_queue:
  "sorted (ts @ [t]) \<Longrightarrow> fst (settle_at clk_settle (ts @ [t]) q) = fst (clk_settle t q)"
proof (induction ts arbitrary: q)
  case Nil
  then show ?case by (simp add: split_beta)
next
  case (Cons u ts)
  then have "fst (settle_at clk_settle (ts @ [t]) (fst (clk_settle u q)))
      = fst (clk_settle t (fst (clk_settle u q)))" by auto
  also have "\<dots> = fst (clk_settle t q)" using Cons.prems by (intro clk_later) simp
  finally show ?case by (simp add: split_beta Let_def)
qed

lemma clk_polls_conserve:
  "sum_list (map (\<lambda>d. clk_total d i) (snd (settle_at clk_settle ts q)))
     + clk_pending (fst (settle_at clk_settle ts q)) i = clk_pending q i"
proof (induction ts arbitrary: q)
  case (Cons u ts)
  obtain q' d where s: "clk_settle u q = (q', d)" by force
  from Cons [of q'] clk_conserve [OF s, of i] s show ?case by (simp add: split_beta Let_def)
qed simp

lemma clk_polls_total:
  assumes "sorted (ts @ [t])"
  shows "sum_list (map (\<lambda>d. clk_total d i) (snd (settle_at clk_settle (ts @ [t]) q)))
       = clk_total (snd (clk_settle t q)) i"
proof -
  obtain q' d where s: "clk_settle t q = (q', d)" by force
  from clk_polls_conserve [of i "ts @ [t]" q] clk_polls_queue [OF assms, of q] clk_conserve [OF s, of i] s
  show ?thesis by simp
qed

end

lemma settle_conserve: "settle t q = (q', d) \<Longrightarrow> goods_of d i + pending q' i = pending q i"
  using settle_from_pending [of t q "[]" q' d i] by (simp add: settle_def)

lemma settle_later: "t1 \<le> t2 \<Longrightarrow> fst (settle t2 (fst (settle t1 q))) = fst (settle t2 q)"
  using settle_from_later [of t1 t2 q "[]"] settle_from_jobs
  by (metis prod.collapse settle_def)

interpretation sq: clockwork settle goods_of pending
  by unfold_locales (simp_all add: settle_conserve settle_later)

definition works_pending :: "works \<Rightarrow> item \<Rightarrow> nat" where
  "works_pending w i = pending (fabricator w) i + pending (foundry w) i"

interpretation wq: clockwork works_settle goods_of works_pending
proof
  show "works_settle t w = (w', d) \<Longrightarrow> goods_of d i + works_pending w' i = works_pending w i" for t w w' d i
  proof -
    assume s: "works_settle t w = (w', d)"
    obtain fq a where f: "settle t (fabricator w) = (fq, a)" by force
    obtain nq b where n: "settle t (foundry w) = (nq, b)" by force
    from s f n have "w' = \<lparr>fabricator = fq, foundry = nq\<rparr>" "d = a @ b" by (auto simp: works_settle_def)
    with settle_conserve [OF f, of i] settle_conserve [OF n, of i] show ?thesis
      by (simp add: works_pending_def)
  qed
  show "fst (works_settle t2 (fst (works_settle t1 w))) = fst (works_settle t2 w)"
    if "t1 \<le> t2" for t1 t2 w
    using settle_later [OF that] by (simp add: works_settle_def split_beta Let_def)
qed

section \<open>How long is left\<close>

definition recipes_known :: "queue \<Rightarrow> bool" where
  "recipes_known q \<longleftrightarrow> list_all (\<lambda>j. job_recipe j \<noteq> None) q"

definition jobs_secs :: "queue \<Rightarrow> nat" where
  "jobs_secs q = sum_list (map (\<lambda>k. (jb_batches k - jb_done k) * jb_secs k) q)"

lemma jobs_secs_start_next [simp]: "jobs_secs (start_next t q) = jobs_secs q"
  by (cases q) (simp_all add: jobs_secs_def)

lemma recipes_known_start_next [simp]: "recipes_known (start_next t q) = recipes_known q"
  by (cases q) (simp_all add: recipes_known_def)

lemma run_batches_finishes:
  assumes "run_batches r now j out = (j', out')" and "jb_done j < jb_batches j \<or> jb_started j \<le> now"
  shows "jb_batches j' \<le> jb_done j' \<longleftrightarrow> jb_started j + (jb_batches j - jb_done j) * jb_secs j \<le> now"
    and "jb_batches j' \<le> jb_done j' \<Longrightarrow>
         jb_started j' = jb_started j + (jb_batches j - jb_done j) * jb_secs j"
proof -
  note f = run_batches_fields [OF assms(1)]
  show st: "jb_started j' = jb_started j + (jb_batches j - jb_done j) * jb_secs j"
    if "jb_batches j' \<le> jb_done j'"
    using f that by (cases "jb_done j \<le> jb_batches j") auto
  have "now < jb_started j + (jb_batches j - jb_done j) * jb_secs j" if "jb_done j' < jb_batches j'"
  proof -
    from f that have "Suc (jb_done j' - jb_done j) \<le> jb_batches j - jb_done j" by linarith
    then have "Suc (jb_done j' - jb_done j) * jb_secs j \<le> (jb_batches j - jb_done j) * jb_secs j"
      by (rule mult_le_mono1)
    with f that show ?thesis by auto
  qed
  with st f assms(2) show "jb_batches j' \<le> jb_done j' \<longleftrightarrow>
      jb_started j + (jb_batches j - jb_done j) * jb_secs j \<le> now"
    by (metis add.right_neutral diff_is_0_eq' leD leI mult_is_0)
qed

lemma settle_from_empty_iff:
  "recipes_known (j # q) \<Longrightarrow> jb_done j < jb_batches j \<or> jb_started j \<le> now \<Longrightarrow>
   fst (settle_from now (j # q) out) = [] \<longleftrightarrow>
     jb_started j + (jb_batches j - jb_done j) * jb_secs j + jobs_secs q \<le> now"
proof (induction q arbitrary: j out)
  case Nil
  then obtain r where r: "job_recipe j = Some r" by (auto simp: recipes_known_def)
  obtain j' o' where r1: "run_batches r now j out = (j', o')" by force
  from run_batches_finishes [OF r1 Nil(2)] r r1 show ?case by (auto simp: jobs_secs_def)
next
  case (Cons k q)
  then obtain r where r: "job_recipe j = Some r" by (auto simp: recipes_known_def)
  obtain j' o' where r1: "run_batches r now j out = (j', o')" by force
  note fin = run_batches_finishes [OF r1 Cons.prems(2)]
  show ?case
  proof (cases "jb_done j' < jb_batches j'")
    case True
    with fin r r1 show ?thesis by (auto simp: jobs_secs_def)
  next
    case False
    with fin have le: "jb_started j' \<le> now" by simp
    have "recipes_known (k\<lparr>jb_started := jb_started j'\<rparr> # q)"
      using Cons.prems(1) by (simp add: recipes_known_def)
    from Cons.IH [OF this, of o'] le
    have IH: "fst (settle_from now (k\<lparr>jb_started := jb_started j'\<rparr> # q) o') = [] \<longleftrightarrow>
        jb_started j' + (jb_batches k - jb_done k) * jb_secs k + jobs_secs q \<le> now"
      by (simp del: settle_from.simps)
    have "settle_from now (j # k # q) out = settle_from now (k\<lparr>jb_started := jb_started j'\<rparr> # q) o'"
      using r r1 False by (simp del: settle_from.simps add: settle_from.simps(2) [of now j])
    with IH fin(2) False show ?thesis by (simp add: jobs_secs_def add.assoc del: settle_from.simps)
  qed
qed

lemma settle_from_le: "length (fst (settle_from now q out)) \<le> length q"
proof (induction now q out rule: settle_from.induct)
  case (2 now j q out)
  show ?case
  proof (cases "job_recipe j")
    case (Some r)
    obtain j' o' where r1: "run_batches r now j out = (j', o')" by force
    from 2(2) [OF Some r1 [symmetric] refl] Some r1 show ?thesis by auto
  qed (use 2(1) in simp)
qed simp

lemma settle_length: "length (fst (settle now q)) \<le> length q"
  by (simp add: settle_def settle_from_le)

lemma settled_head:
  assumes "fst (settle now (j # q)) = j # q"
  shows "jb_done j < jb_batches j" and "now < jb_started j + jb_secs j"
proof -
  obtain r where r: "job_recipe j = Some r"
    using settle_from_le [of now q "[]"] assms by (cases "job_recipe j") (auto simp: settle_def)
  obtain j' o' where r1: "run_batches r now j [] = (j', o')" by force
  have lt: "jb_done j' < jb_batches j'"
    using settle_from_le [of now "start_next (jb_started j') q" o'] assms r r1
    by (auto simp: settle_def split: if_splits)
  with assms r r1 have "j' = j" by (simp add: settle_def)
  with lt run_batches_fields [OF r1] show "jb_done j < jb_batches j" "now < jb_started j + jb_secs j" by auto
qed


section \<open>The queue's properties\<close>

text \<open>C13: settling a pilot's stations neither makes nor loses a batch, and it does not matter how
  often they are settled: looked at any number of times up to \<open>t\<close>, they end as they do when
  settled once at \<open>t\<close>, with the same goods delivered in all, and what was delivered and what is
  still to be made add up to what was queued.\<close>

theorem works_settle_whenever:
  assumes "sorted (ts @ [t])"
  shows "fst (settle_at works_settle (ts @ [t]) w) = fst (works_settle t w)
       \<and> sum_list (map (\<lambda>d. goods_of d i) (snd (settle_at works_settle (ts @ [t]) w)))
           = goods_of (snd (works_settle t w)) i
       \<and> goods_of (snd (works_settle t w)) i + works_pending (fst (works_settle t w)) i
           = works_pending w i"
  using wq.clk_polls_queue [OF assms] wq.clk_polls_total [OF assms]
    wq.clk_conserve [of t w "fst (works_settle t w)" "snd (works_settle t w)"] by simp

theorem works_settle_whenever_witness:
  "fst (settle_at works_settle ([5, 25] @ [60])
         \<lparr>fabricator = queue_push (IMaterial Steel) 3 20 0 100 [], foundry = []\<rparr>)
   = fst (works_settle 60 \<lparr>fabricator = queue_push (IMaterial Steel) 3 20 0 100 [], foundry = []\<rparr>)"
proof -
  have "sorted ([5, 25::nat] @ [60])" by simp
  from works_settle_whenever [OF this] show ?thesis by blast
qed

text \<open>\<open>secs_left\<close> is exact: a queue settled at \<open>now\<close> whose recipes all exist is empty at a later
  settling if and only if that comes \<open>secs_left\<close> seconds later or after.\<close>

theorem secs_left_exact:
  assumes "q = fst (settle now q0)" and "recipes_known q" and "now \<le> t"
  shows "fst (settle t q) = [] \<longleftrightarrow> now + queue_secs_left now q \<le> t"
proof (cases q)
  case Nil
  with assms(3) show ?thesis by (simp add: settle_def)
next
  case (Cons j k)
  have "fst (settle now q) = q" unfolding assms(1) by (rule sq.clk_idem)
  with Cons have h: "jb_done j < jb_batches j" "now < jb_started j + jb_secs j"
    using settled_head [of now j k] by auto
  have "jb_batches j - jb_done j = Suc (jb_batches j - (jb_done j + 1))" using h(1) by simp
  then have "now + queue_secs_left now q
      = jb_started j + (jb_batches j - jb_done j) * jb_secs j + jobs_secs k"
    using h(2) by (simp add: Cons job_secs_left_def jobs_secs_def)
  with settle_from_empty_iff [of j k t "[]"] assms(2) h(1) Cons show ?thesis
    by (simp add: settle_def)
qed

theorem secs_left_exact_witness:
  "fst (settle 61 (queue_push (IWeapon BeamRifle) 1 60 0 100 [])) = [] \<longleftrightarrow>
     1 + queue_secs_left 1 (queue_push (IWeapon BeamRifle) 1 60 0 100 []) \<le> 61"
proof -
  let ?q = "queue_push (IWeapon BeamRifle) 1 60 0 100 []"
  have r: "recipe_of (IWeapon BeamRifle) = Some (weapon_recipe BeamRifle)"
    using recipe_of_mem [of "weapon_recipe BeamRifle"] by (simp add: recipes_def item_weapons_eq)
  have "?q = fst (settle 1 ?q)"
    by (simp add: settle_def queue_push_def job_recipe_def r run_batches.simps)
  moreover have "recipes_known ?q" by (simp add: recipes_known_def queue_push_def job_recipe_def r)
  ultimately show ?thesis using secs_left_exact [of ?q 1 ?q 61] by simp
qed

text \<open>Cancelling a job gives back, of every input and of the fee, what the batches not made
  would have used: with what the finished batches used it never comes to more than was taken for
  the whole job.\<close>

theorem cancel_refunds_unmade:
  assumes "k < length q" and "job_recipe (q ! k) = Some r" and "jb_done (q ! k) \<le> jb_batches (q ! k)"
  shows "\<exists>refund back. fst (queue_cancel k now q) = Some (refund, back)
       \<and> (\<forall>i. goods_of refund i + goods_of (r_inputs r) i * jb_done (q ! k)
            = goods_of (r_inputs r) i * jb_batches (q ! k))
       \<and> back + r_fee r * jb_done (q ! k) * jb_fee_pct (q ! k) div 100
            \<le> r_fee r * jb_batches (q ! k) * jb_fee_pct (q ! k) div 100
       \<and> length (snd (queue_cancel k now q)) = length q - 1"
proof -
  let ?j = "q ! k" and ?left = "jb_batches (q ! k) - jb_done (q ! k)"
  have g: "goods_of (map (\<lambda>(i, n). (i, n * m)) gs) i = goods_of gs i * m" for gs m i
    by (induction gs) (auto simp: add_mult_distrib)
  have m: "x * ?left + x * jb_done ?j = x * jb_batches ?j" for x
    using assms(3) by (simp flip: add_mult_distrib2)
  have "r_fee r * ?left * jb_fee_pct ?j div 100 + r_fee r * jb_done ?j * jb_fee_pct ?j div 100
      \<le> (r_fee r * ?left * jb_fee_pct ?j + r_fee r * jb_done ?j * jb_fee_pct ?j) div 100"
    by (rule div_add_le)
  also have "\<dots> = r_fee r * jb_batches ?j * jb_fee_pct ?j div 100"
    by (simp only: m flip: add_mult_distrib)
  finally show ?thesis
    using assms(1,2) m by (auto simp: queue_cancel_def Let_def g length_remove_at)
qed

theorem cancel_refunds_unmade_witness:
  "\<exists>refund back. fst (queue_cancel 0 5 (queue_push SIDERIUM 2 180 0 100 [])) = Some (refund, back)
     \<and> back \<le> 800"
proof -
  let ?q = "queue_push SIDERIUM 2 180 0 100 []" and ?r = "\<lparr>r_output = SIDERIUM, r_makes = 100,
    r_inputs = [(TI_ALLOY, 200), (EXOTICS, 40)], r_station = FoundryStation, r_secs = 180, r_fee = 400\<rparr>"
  have "recipe_of SIDERIUM = Some ?r"
    using recipe_of_mem [of ?r] by (simp add: recipes_def refining_def)
  then have "job_recipe (?q ! 0) = Some ?r" by (simp add: queue_push_def job_recipe_def)
  from cancel_refunds_unmade [OF _ this, of 5] show ?thesis by (auto simp: queue_push_def)
qed

text \<open>A job whose item has no recipe is dropped from the head of the queue without starting the one
  behind it, whose \<open>started\<close> is still 0: all its batches count as finished at once.\<close>

lemma orphan_head_finishes_next:
  assumes "recipe_of x = None" and "recipe_of y = Some r" and "n * s \<le> now" and "0 < n"
  shows "fst (settle now [\<lparr>jb_recipe = x, jb_batches = 1, jb_done = 0, jb_secs = 1, jb_started = now, jb_fee_pct = 100\<rparr>,
           \<lparr>jb_recipe = y, jb_batches = n, jb_done = 0, jb_secs = s, jb_started = 0, jb_fee_pct = 100\<rparr>]) = []"
proof -
  let ?j = "\<lparr>jb_recipe = y, jb_batches = n, jb_done = 0, jb_secs = s, jb_started = 0, jb_fee_pct = 100\<rparr>"
  have "recipes_known [?j]" by (simp add: recipes_known_def job_recipe_def assms(2))
  from settle_from_empty_iff [OF this, of now "[]"] assms(3,4) show ?thesis
    by (simp add: settle_def job_recipe_def assms(1) jobs_secs_def)
qed

end
