(* ===== verification/Exchange.thy ===== *)
theory Exchange
  imports Catalogue
begin

text \<open>
  The Colony 03 Exchange (\<open>crates/bc-econ/src/exchange.rs\<close>): an order book per item, where pilots
  trade with each other and with the colony. The state \<open>exchange\<close> has the code's fields; a
  trader's note of a fill is a constructor instead of its text. The colony's stock is a float
  (theory Floats); \<open>pw\<close> stands for \<open>f64::powf\<close> and \<open>ex\<close> for \<open>f64::exp\<close>, whose
  precision Rust does not specify.

  \<open>place\<close> is the code's \<open>place\<close>: \<open>match_one\<close> is run until it finds nothing (\<open>match_all\<close>, whose
  termination is proved here), and what is left rests or is handed back. Its outer option is the
  panic of an arithmetic overflow. The properties are in theory \<open>Market\<close>.
\<close>

section \<open>State\<close>

type_synonym trader = string

definition FEE_BP :: nat where "FEE_BP = 200"
definition MAX_ORDERS :: nat where "MAX_ORDERS = 32"
definition HISTORY :: nat where "HISTORY = 60"
definition SAMPLE_SECS :: rat where "SAMPLE_SECS = 60"
definition MAX_PRICE :: nat where "MAX_PRICE = 1000000000000"
definition MAX_QTY :: nat where "MAX_QTY = 1000000000"

datatype side = Buy | Sell

record order =
  o_id :: nat
  o_trader :: trader
  o_item :: item
  o_side :: side
  o_price :: nat
  o_qty :: nat
  o_escrow :: nat
  o_seq :: nat

record book =
  bids :: "order list"
  asks :: "order list"

definition book_empty :: book where "book_empty = \<lparr>bids = [], asks = []\<rparr>"

definition put_before :: "(order \<Rightarrow> bool) \<Rightarrow> order \<Rightarrow> order list \<Rightarrow> order list" where
  "put_before P od xs = insert_at (case position P xs of Some i \<Rightarrow> i | None \<Rightarrow> length xs) od xs"

definition book_insert :: "order \<Rightarrow> book \<Rightarrow> book" where
  "book_insert od b =
     (case o_side od of
        Buy \<Rightarrow> b\<lparr>bids := put_before (\<lambda>r. o_price r < o_price od) od (bids b)\<rparr>
      | Sell \<Rightarrow> b\<lparr>asks := put_before (\<lambda>r. o_price od < o_price r) od (asks b)\<rparr>)"

datatype fill_note =
    Bought item nat nat
  | Sold item nat nat nat

record account =
  ac_credits :: nat
  ac_goods :: "(item, nat) bmap"
  ac_notes :: "fill_note list"

definition account_empty :: account where
  "account_empty = \<lparr>ac_credits = 0, ac_goods = bempty, ac_notes = []\<rparr>"

definition account_is_empty :: "account \<Rightarrow> bool" where
  "account_is_empty a \<longleftrightarrow> ac_credits a = 0 \<and> entries (ac_goods a) = [] \<and> ac_notes a = []"

record tape =
  tp_last :: "nat option"
  tp_volume :: nat
  tp_samples :: "nat list"

definition tape_empty :: tape where
  "tape_empty = \<lparr>tp_last = None, tp_volume = 0, tp_samples = []\<rparr>"

record fill =
  f_item :: item
  f_price :: nat
  f_qty :: nat
  f_buyer :: "trader option"
  f_seller :: "trader option"
  f_fee :: nat

datatype refused = NoSuchItem | Bounds | Escrow | TooManyOrders

record placed =
  p_fills :: "fill list"
  p_resting :: "nat option"

record exchange =
  books :: "(item, book) bmap"
  colony :: "(item, rat) bmap"
  accounts :: "(trader, account) bmap"
  tapes :: "(item, tape) bmap"
  next_id :: nat
  seq :: nat
  clock :: rat
  next_sample :: rat
  fees :: nat
  colony_paid :: nat
  colony_took :: nat

section \<open>The colony's prices\<close>

definition fclamp :: "rat \<Rightarrow> rat \<Rightarrow> rat \<Rightarrow> rat" where
  "fclamp lo hi x = (if x < lo then lo else if hi < x then hi else x)"

definition colony_mid :: "(rat \<Rightarrow> rat \<Rightarrow> rat) \<Rightarrow> desk \<Rightarrow> rat \<Rightarrow> rat" where
  "colony_mid pw d held =
     (let target = rn64 (of_nat (d_target d)); base = rn64 (of_nat (d_base d));
          s = max (max held (rn64 (target / 32))) (rn64 (1 / 1000000000))
      in fclamp (rn64 (base / 5)) (rn64 (base * 5)) (rn64 (base * pw (rn64 (target / s)) (rn64 (6 / 10)))))"

definition colony_price :: "(rat \<Rightarrow> rat \<Rightarrow> rat) \<Rightarrow> desk \<Rightarrow> rat \<Rightarrow> side \<Rightarrow> nat option" where
  "colony_price pw d held side =
     (let mid = colony_mid pw d held
      in case side of
           Sell \<Rightarrow> if d_buys d
                   then Some (to_nat_trunc u64_max (max (of_int \<lfloor>rn64 (mid * rn64 (9 / 10))\<rfloor>) 1))
                   else None
         | Buy \<Rightarrow> if d_sells d \<and> 1 \<le> held
                  then Some (to_nat_trunc u64_max (of_int \<lceil>rn64 (mid * rn64 (11 / 10))\<rceil>))
                  else None)"

definition colony_step :: "desk \<Rightarrow> nat" where
  "colony_step d = max (d_target d div 50) 1"

definition held_of :: "exchange \<Rightarrow> item \<Rightarrow> rat" where
  "held_of e i = bor 0 (bget (colony e) i)"

definition colony_quote ::
  "(rat \<Rightarrow> rat \<Rightarrow> rat) \<Rightarrow> exchange \<Rightarrow> item \<Rightarrow> side \<Rightarrow> (nat \<times> nat) option" where
  "colony_quote pw e i side =
     (case desk_for i of
        None \<Rightarrow> None
      | Some d \<Rightarrow>
          (case colony_price pw d (held_of e i) side of
             None \<Rightarrow> None
           | Some price \<Rightarrow>
               let qty = (case side of
                            Sell \<Rightarrow> colony_step d
                          | Buy \<Rightarrow> min (colony_step d) (to_nat_trunc u64_max (of_int \<lfloor>held_of e i\<rfloor>)))
               in if 0 < qty then Some (price, qty) else None))"

section \<open>Opening\<close>

definition exchange_new :: exchange where
  "exchange_new =
     \<lparr>books = bempty,
      colony = fold (\<lambda>i m. case desk_for i of None \<Rightarrow> m | Some d \<Rightarrow> bput i (rn64 (of_nat (d_target d))) m)
                 item_all bempty,
      accounts = bempty, tapes = bempty, next_id = 1, seq = 0, clock = 0, next_sample = 0,
      fees = 0, colony_paid = 0, colony_took = 0\<rparr>"

definition seed_one :: "item \<Rightarrow> nat \<times> exchange \<Rightarrow> nat \<times> exchange" where
  "seed_one i = (\<lambda>(n, e).
     case desk_for i of
       None \<Rightarrow> (n, e)
     | Some d \<Rightarrow>
         if bget (colony e) i = None
         then (n + 1, e\<lparr>colony := bput i (rn64 (of_nat (d_target d))) (colony e)\<rparr>)
         else (n, e))"

definition seed_missing :: "exchange \<Rightarrow> nat \<times> exchange" where
  "seed_missing e = fold seed_one item_all (0, e)"

definition escrow_for :: "item \<Rightarrow> nat \<Rightarrow> nat \<Rightarrow> nat" where
  "escrow_for i price qty = worth i price qty"

section \<open>Accounts\<close>

definition add_goods :: "item \<Rightarrow> nat \<Rightarrow> account \<Rightarrow> account" where
  "add_goods i n a = a\<lparr>ac_goods := bupd 0 (\<lambda>e. e + n) i (ac_goods a)\<rparr>"

definition at_account :: "(account \<Rightarrow> account) \<Rightarrow> trader \<Rightarrow> exchange \<Rightarrow> exchange" where
  "at_account f t e = e\<lparr>accounts := bupd account_empty f t (accounts e)\<rparr>"

definition returned :: "order \<Rightarrow> account \<Rightarrow> account" where
  "returned od a =
     (case o_side od of
        Buy \<Rightarrow> a\<lparr>ac_credits := ac_credits a + o_escrow od\<rparr>
      | Sell \<Rightarrow> if 0 < o_qty od then add_goods (o_item od) (o_qty od) a else a)"

definition hand_back :: "order \<Rightarrow> exchange \<Rightarrow> exchange" where
  "hand_back od e =
     (let a = returned od (bor account_empty (bget (accounts e) (o_trader od)))
      in if account_is_empty a then e\<lparr>accounts := bdel (o_trader od) (accounts e)\<rparr>
         else e\<lparr>accounts := bput (o_trader od) a (accounts e)\<rparr>)"

section \<open>Matching\<close>

definition book_at :: "exchange \<Rightarrow> item \<Rightarrow> book" where
  "book_at e i = bor book_empty (bget (books e) i)"

definition other_side :: "side \<Rightarrow> book \<Rightarrow> order list" where
  "other_side s b = (case s of Buy \<Rightarrow> asks b | Sell \<Rightarrow> bids b)"

definition set_other_side :: "side \<Rightarrow> order list \<Rightarrow> book \<Rightarrow> book" where
  "set_other_side s xs b = (case s of Buy \<Rightarrow> b\<lparr>asks := xs\<rparr> | Sell \<Rightarrow> b\<lparr>bids := xs\<rparr>)"

definition first_of :: "order list \<Rightarrow> (nat \<times> nat) option" where
  "first_of xs = (case xs of [] \<Rightarrow> None | od # _ \<Rightarrow> Some (o_price od, o_qty od))"

definition better :: "side \<Rightarrow> nat \<Rightarrow> nat \<Rightarrow> bool" where
  "better s a b = (case s of Buy \<Rightarrow> a < b | Sell \<Rightarrow> b < a)"

text \<open>Which of the best resting order and the colony's quote to trade with (pilots first at an equal
  price): whether it is the colony, the price and how much is there.\<close>

fun choose_best :: "side \<Rightarrow> (nat \<times> nat) option \<Rightarrow> (nat \<times> nat) option \<Rightarrow> (bool \<times> nat \<times> nat) option" where
  "choose_best s (Some (p, n)) (Some (c, m)) = (if better s c p then Some (True, c, m) else Some (False, p, n))"
| "choose_best s None (Some (c, m)) = Some (True, c, m)"
| "choose_best s (Some (p, n)) None = Some (False, p, n)"
| "choose_best s None None = None"

definition crosses :: "side \<Rightarrow> nat \<Rightarrow> nat \<Rightarrow> bool" where
  "crosses s price limit = (case s of Buy \<Rightarrow> price \<le> limit | Sell \<Rightarrow> limit \<le> price)"

definition trade_colony :: "desk \<Rightarrow> side \<Rightarrow> item \<Rightarrow> nat \<Rightarrow> nat \<Rightarrow> exchange \<Rightarrow> exchange" where
  "trade_colony d s i qty value e =
     (let h = bor (rn64 (of_nat (d_target d))) (bget (colony e) i); n = rn64 (of_nat qty)
      in case s of
           Buy \<Rightarrow> e\<lparr>colony := bput i (rn64 (h - n)) (colony e), colony_took := colony_took e + value\<rparr>
         | Sell \<Rightarrow> e\<lparr>colony := bput i (rn64 (h + n)) (colony e), colony_paid := colony_paid e + value\<rparr>)"

text \<open>The order at the top of the other side trades: the exchange, and whose it was. A resting buyer
  pays out of its escrow, an unchecked subtraction.\<close>

definition trade_book :: "side \<Rightarrow> item \<Rightarrow> nat \<Rightarrow> nat \<Rightarrow> exchange \<Rightarrow> (trader \<times> exchange) option" where
  "trade_book s i qty value e =
     (let b = book_at e i
      in case other_side s b of
           [] \<Rightarrow> None
         | maker # rest \<Rightarrow>
             (case (if s = Sell then sub_ck (o_escrow maker) value else Some (o_escrow maker)) of
                None \<Rightarrow> None
              | Some esc \<Rightarrow>
                  let maker' = maker\<lparr>o_qty := o_qty maker - qty, o_escrow := esc\<rparr>
                  in if o_qty maker' = 0
                     then Some (o_trader maker, hand_back maker'
                            (e\<lparr>books := bput i (set_other_side s rest b) (books e)\<rparr>))
                     else Some (o_trader maker,
                            e\<lparr>books := bput i (set_other_side s (maker' # rest) b) (books e)\<rparr>)))"

definition pay_buyer :: "item \<Rightarrow> nat \<Rightarrow> nat \<Rightarrow> trader \<Rightarrow> exchange \<Rightarrow> exchange" where
  "pay_buyer i qty value =
     at_account (\<lambda>a. (add_goods i qty a)\<lparr>ac_notes := ac_notes a @ [Bought i qty value]\<rparr>)"

definition pay_seller :: "item \<Rightarrow> nat \<Rightarrow> nat \<Rightarrow> nat \<Rightarrow> trader \<Rightarrow> exchange \<Rightarrow> exchange" where
  "pay_seller i qty value fee =
     at_account (\<lambda>a. a\<lparr>ac_credits := ac_credits a + (value - fee),
                        ac_notes := ac_notes a @ [Sold i qty (value - fee) fee]\<rparr>)"

definition opt_do :: "('a \<Rightarrow> 's \<Rightarrow> 's) \<Rightarrow> 'a option \<Rightarrow> 's \<Rightarrow> 's" where
  "opt_do f x s = (case x of None \<Rightarrow> s | Some a \<Rightarrow> f a s)"

definition record_trade :: "item \<Rightarrow> nat \<Rightarrow> nat \<Rightarrow> exchange \<Rightarrow> exchange" where
  "record_trade i price qty e =
     e\<lparr>tapes := bupd tape_empty (\<lambda>t. t\<lparr>tp_last := Some price, tp_volume := tp_volume t + qty\<rparr>) i (tapes e)\<rparr>"

text \<open>\<open>value * FEE_BP\<close> can overflow too.\<close>

definition mul_ck :: "nat \<Rightarrow> nat \<Rightarrow> nat option" where
  "mul_ck a b = (if a * b \<le> u64_max then Some (a * b) else None)"

definition fee_on :: "trader option \<Rightarrow> nat \<Rightarrow> nat option" where
  "fee_on seller value =
     (case seller of None \<Rightarrow> Some 0 | Some _ \<Rightarrow> map_option (\<lambda>v. v div 10000) (mul_ck value FEE_BP))"

definition open_book :: "item \<Rightarrow> exchange \<Rightarrow> exchange" where
  "open_book i e = e\<lparr>books := bupd book_empty id i (books e)\<rparr>"

datatype matched = Panic | NoMatch exchange | Filled fill order exchange

definition trade :: "bool \<Rightarrow> nat \<Rightarrow> nat \<Rightarrow> order \<Rightarrow> exchange
    \<Rightarrow> (trader option \<times> trader option \<times> exchange) option" where
  "trade from_colony qty value od e =
     (let s = o_side od; i = o_item od; me = Some (o_trader od);
          both = (\<lambda>other. case s of Buy \<Rightarrow> (me, other) | Sell \<Rightarrow> (other, me))
      in if from_colony
         then (case desk_for i of
                 None \<Rightarrow> None
               | Some d \<Rightarrow> Some (fst (both None), snd (both None), trade_colony d s i qty value e))
         else (case trade_book s i qty value e of
                 None \<Rightarrow> None
               | Some (t, e') \<Rightarrow> Some (fst (both (Some t)), snd (both (Some t)), e')))"

definition match_one :: "(rat \<Rightarrow> rat \<Rightarrow> rat) \<Rightarrow> order \<Rightarrow> exchange \<Rightarrow> matched" where
  "match_one pw od e0 =
     (let i = o_item od; s = o_side od; e = open_book i e0
      in case choose_best s (first_of (other_side s (book_at e i))) (colony_quote pw e i s) of
           None \<Rightarrow> NoMatch e
         | Some (from_colony, price, available) \<Rightarrow>
             if \<not> crosses s price (o_price od) then NoMatch e
             else
               let qty = min (o_qty od) available; value = worth i price qty
               in case trade from_colony qty value od e of
                    None \<Rightarrow> Panic
                  | Some (buyer, seller, e1) \<Rightarrow>
                      (case (if s = Buy then sub_ck (o_escrow od) value else Some (o_escrow od)) of
                         None \<Rightarrow> Panic
                       | Some esc \<Rightarrow>
                           (case fee_on seller value of
                              None \<Rightarrow> Panic
                            | Some fee \<Rightarrow>
                                Filled
                                  \<lparr>f_item = i, f_price = price, f_qty = qty, f_buyer = buyer,
                                   f_seller = seller, f_fee = fee\<rparr>
                                  (od\<lparr>o_qty := o_qty od - qty, o_escrow := esc\<rparr>)
                                  (record_trade i price qty
                                    (opt_do (pay_seller i qty value fee) seller
                                      (opt_do (pay_buyer i qty value) buyer
                                        (e1\<lparr>fees := fees e1 + fee\<rparr>)))))))"


section \<open>The loop ends\<close>

lemma books_simps [simp]:
  "books (at_account f t e) = books e" "books (hand_back od e) = books e"
  "books (record_trade i p n e) = books e" "books (pay_buyer i n v t e) = books e"
  "books (pay_seller i n v fee t e) = books e" "books (trade_colony d s i n v e) = books e"
  by (simp_all add: at_account_def hand_back_def record_trade_def pay_buyer_def pay_seller_def
      trade_colony_def Let_def split: side.split)

lemma books_opt_do [simp]: "(\<And>a e. books (f a e) = books e) \<Longrightarrow> books (opt_do f x e) = books e"
  by (simp add: opt_do_def split: option.split)

lemma book_at_cong: "books e = books e' \<Longrightarrow> book_at e i = book_at e' i"
  by (simp add: book_at_def)

lemma book_at_open [simp]: "book_at (open_book i e) j = book_at e j"
  by (cases "bget (books e) i") (auto simp: book_at_def open_book_def)

lemma other_side_set [simp]: "other_side s (set_other_side s xs b) = xs"
  by (simp add: other_side_def set_other_side_def split: side.split)

lemma book_at_put [simp]:
  "book_at (e\<lparr>books := bput i b (books e)\<rparr>) j = (if j = i then b else book_at e j)"
  by (simp add: book_at_def)

lemma trade_book_Some:
  assumes "trade_book s i qty value e = Some (t, e')"
  obtains maker rest esc where "other_side s (book_at e i) = maker # rest"
    and "t = o_trader maker"
    and "if s = Sell then o_escrow maker = value + esc else esc = o_escrow maker"
    and "book_at e' i = set_other_side s
           ((if o_qty maker - qty = 0 then [] else [maker\<lparr>o_qty := o_qty maker - qty, o_escrow := esc\<rparr>]) @ rest)
           (book_at e i)"
proof (cases "other_side s (book_at e i)")
  case Nil
  with assms show ?thesis by (simp add: trade_book_def)
next
  case (Cons maker rest)
  note list = this
  show ?thesis
  proof (cases "if s = Sell then sub_ck (o_escrow maker) value else Some (o_escrow maker)")
    case None
    with assms list show ?thesis by (simp add: trade_book_def)
  next
    case (Some esc)
    let ?b = "set_other_side s
           ((if o_qty maker - qty = 0 then [] else [maker\<lparr>o_qty := o_qty maker - qty, o_escrow := esc\<rparr>]) @ rest)
           (book_at e i)"
    from assms list Some have "t = o_trader maker" "books e' = bput i ?b (books e)"
      by (auto simp: trade_book_def Let_def split: if_split_asm)
    moreover from Some have "if s = Sell then o_escrow maker = value + esc else esc = o_escrow maker"
      by (simp split: if_split_asm)
    ultimately show ?thesis using list by (intro that) (auto simp: book_at_def)
  qed
qed

lemma first_of_Some: "first_of xs = Some (p, n) \<longleftrightarrow> (\<exists>r rest. xs = r # rest \<and> p = o_price r \<and> n = o_qty r)"
  by (auto simp: first_of_def split: list.splits)

lemma choose_best_Some:
  assumes "choose_best s r c = Some (col, p, n)"
  shows "col \<and> c = Some (p, n) \<or> \<not> col \<and> r = Some (p, n)"
  using assms by (cases "(s, r, c)" rule: choose_best.cases) (auto split: if_splits)

lemma colony_quote_pos: "colony_quote pw e i s = Some (p, n) \<Longrightarrow> 0 < n"
  by (auto simp: colony_quote_def Let_def split: option.splits if_splits)

text \<open>What a fill did, taken apart once for all the proofs about it.\<close>

lemma match_one_FilledE:
  assumes "match_one pw od e = Filled fi od' e'"
  obtains col avail e1 fee where
    "choose_best (o_side od) (first_of (other_side (o_side od) (book_at e (o_item od))))
       (colony_quote pw (open_book (o_item od) e) (o_item od) (o_side od)) = Some (col, f_price fi, avail)"
    "crosses (o_side od) (f_price fi) (o_price od)"
    "f_item fi = o_item od" "f_qty fi = min (o_qty od) avail" "f_fee fi = fee"
    "trade col (f_qty fi) (worth (o_item od) (f_price fi) (f_qty fi)) od (open_book (o_item od) e)
       = Some (f_buyer fi, f_seller fi, e1)"
    "fee_on (f_seller fi) (worth (o_item od) (f_price fi) (f_qty fi)) = Some fee"
    "o_side od = Buy \<longrightarrow> o_escrow od = worth (o_item od) (f_price fi) (f_qty fi) + o_escrow od'"
    "od' = od\<lparr>o_qty := o_qty od - f_qty fi, o_escrow := o_escrow od'\<rparr>"
    "o_side od = Sell \<longrightarrow> o_escrow od' = o_escrow od"
    "e' = record_trade (o_item od) (f_price fi) (f_qty fi)
            (opt_do (pay_seller (o_item od) (f_qty fi) (worth (o_item od) (f_price fi) (f_qty fi)) fee) (f_seller fi)
              (opt_do (pay_buyer (o_item od) (f_qty fi) (worth (o_item od) (f_price fi) (f_qty fi))) (f_buyer fi)
                (e1\<lparr>fees := fees e1 + fee\<rparr>)))"
  using assms unfolding match_one_def Let_def
  by (auto split: option.splits prod.splits if_splits)

lemma trade_cases:
  assumes "trade col qty value od e = Some (b, s, e1)"
  obtains (colony) d where "col" "desk_for (o_item od) = Some d"
      "e1 = trade_colony d (o_side od) (o_item od) qty value e"
      "(b, s) = (case o_side od of Buy \<Rightarrow> (Some (o_trader od), None) | Sell \<Rightarrow> (None, Some (o_trader od)))"
  | (pilot) t where "\<not> col" "trade_book (o_side od) (o_item od) qty value e = Some (t, e1)"
      "(b, s) = (case o_side od of Buy \<Rightarrow> (Some (o_trader od), Some t) | Sell \<Rightarrow> (Some t, Some (o_trader od)))"
  using assms by (auto simp: trade_def Let_def split: if_splits option.splits prod.splits side.splits)

definition match_measure :: "order \<Rightarrow> exchange \<Rightarrow> nat" where
  "match_measure od e = o_qty od + length (other_side (o_side od) (book_at e (o_item od)))"

lemma match_one_decreases:
  assumes "match_one pw od e = Filled fi od' e'" and "0 < o_qty od"
  shows "match_measure od' e' < match_measure od e"
  using assms(1)
proof (cases rule: match_one_FilledE)
  case (1 col avail e1 fee)
  let ?l = "\<lambda>e. length (other_side (o_side od) (book_at e (o_item od)))"
  have od': "o_side od' = o_side od" "o_item od' = o_item od" "o_qty od' = o_qty od - f_qty fi"
    by (subst 1(9), simp)+
  have "book_at e' (o_item od) = book_at e1 (o_item od)"
    unfolding 1(11) by (simp add: book_at_def)
  then have l: "?l e' = ?l e1" by simp
  from 1(6) show ?thesis
  proof (cases rule: trade_cases)
    case (colony d)
    then have "?l e1 = ?l e"
      by (simp add: book_at_cong [OF books_simps(6)])
    moreover from colony(1) 1(1) have "colony_quote pw (open_book (o_item od) e) (o_item od) (o_side od)
        = Some (f_price fi, avail)"
      by (auto dest: choose_best_Some)
    then have "0 < avail" by (rule colony_quote_pos)
    ultimately show ?thesis using 1(4) assms(2) l od' by (simp add: match_measure_def)
  next
    case (pilot t)
    from pilot(2) obtain maker rest esc where m:
      "other_side (o_side od) (book_at (open_book (o_item od) e) (o_item od)) = maker # rest"
      "book_at e1 (o_item od) = set_other_side (o_side od)
         ((if o_qty maker - f_qty fi = 0 then [] else [maker\<lparr>o_qty := o_qty maker - f_qty fi, o_escrow := esc\<rparr>]) @ rest)
         (book_at (open_book (o_item od) e) (o_item od))"
      by (rule trade_book_Some)
    from pilot(1) 1(1) m(1) have "avail = o_qty maker"
      by (auto dest!: choose_best_Some simp: first_of_Some)
    moreover from m have "?l e = Suc (length rest)" by simp
    moreover from m have "?l e1 = length rest + (if o_qty maker - f_qty fi = 0 then 0 else 1)" by simp
    ultimately show ?thesis
      using 1(4) assms(2) l od' by (cases "o_qty maker = 0") (auto simp: match_measure_def)
  qed
qed

function match_all :: "(rat \<Rightarrow> rat \<Rightarrow> rat) \<Rightarrow> order \<Rightarrow> exchange \<Rightarrow> (fill list \<times> order \<times> exchange) option" where
  "match_all pw od e =
     (if 0 < o_qty od
      then (case match_one pw od e of
              Panic \<Rightarrow> None
            | NoMatch e' \<Rightarrow> Some ([], od, e')
            | Filled fi od' e' \<Rightarrow>
                map_option (\<lambda>(fls, r). (fi # fls, r)) (match_all pw od' e'))
      else Some ([], od, e))"
  by pat_completeness auto
termination
  by (relation "measure (\<lambda>(pw, od, e). match_measure od e)") (auto simp: match_one_decreases)

declare match_all.simps [simp del]

section \<open>Placing, cancelling, collecting\<close>

definition all_orders :: "exchange \<Rightarrow> order list" where
  "all_orders e = concat (map (\<lambda>b. bids b @ asks b) (bvals (books e)))"

definition orders_of :: "trader \<Rightarrow> exchange \<Rightarrow> order list" where
  "orders_of t e = filter (\<lambda>od. o_trader od = t) (all_orders e)"

definition rest_order :: "order \<Rightarrow> exchange \<Rightarrow> exchange" where
  "rest_order od e = e\<lparr>books := bupd book_empty (book_insert od) (o_item od) (books e)\<rparr>"

definition new_order :: "trader \<Rightarrow> item \<Rightarrow> side \<Rightarrow> nat \<Rightarrow> nat \<Rightarrow> nat \<Rightarrow> exchange \<Rightarrow> order" where
  "new_order t i s price qty escrow e =
     \<lparr>o_id = next_id e, o_trader = t, o_item = i, o_side = s, o_price = price, o_qty = qty,
      o_escrow = (if s = Buy then escrow else 0), o_seq = seq e + 1\<rparr>"

definition place_refused :: "trader \<Rightarrow> item \<Rightarrow> side \<Rightarrow> nat \<Rightarrow> nat \<Rightarrow> nat \<Rightarrow> bool \<Rightarrow> exchange \<Rightarrow> refused option" where
  "place_refused t i s price qty escrow rest e =
     (if \<not> item_valid i then Some NoSuchItem
      else if price = 0 \<or> qty = 0 \<or> MAX_PRICE < price \<or> MAX_QTY < qty then Some Bounds
      else if s = Buy \<and> escrow < escrow_for i price qty then Some Escrow
      else if rest \<and> MAX_ORDERS \<le> length (orders_of t e) then Some TooManyOrders
      else None)"

definition place :: "(rat \<Rightarrow> rat \<Rightarrow> rat) \<Rightarrow> trader \<Rightarrow> item \<Rightarrow> side \<Rightarrow> nat \<Rightarrow> nat \<Rightarrow> nat \<Rightarrow> bool \<Rightarrow> exchange
    \<Rightarrow> ((refused + placed) \<times> exchange) option" where
  "place pw t i s price qty escrow rest e =
     (case place_refused t i s price qty escrow rest e of
        Some r \<Rightarrow> Some (Inl r, e)
      | None \<Rightarrow>
          map_option
            (\<lambda>(fls, od, e').
               if 0 < o_qty od \<and> rest
               then (Inr \<lparr>p_fills = fls, p_resting = Some (o_id od)\<rparr>, rest_order od e')
               else (Inr \<lparr>p_fills = fls, p_resting = None\<rparr>, hand_back od e'))
            (match_all pw (new_order t i s price qty escrow e)
               (e\<lparr>seq := seq e + 1, next_id := next_id e + 1\<rparr>)))"

definition is_order :: "trader \<Rightarrow> nat \<Rightarrow> order \<Rightarrow> bool" where
  "is_order t k od \<longleftrightarrow> o_id od = k \<and> o_trader od = t"

definition book_cancel :: "trader \<Rightarrow> nat \<Rightarrow> book \<Rightarrow> (order \<times> book) option" where
  "book_cancel t k b =
     (case position (is_order t k) (bids b) of
        Some j \<Rightarrow> Some (bids b ! j, b\<lparr>bids := remove_at j (bids b)\<rparr>)
      | None \<Rightarrow>
          (case position (is_order t k) (asks b) of
             Some j \<Rightarrow> Some (asks b ! j, b\<lparr>asks := remove_at j (asks b)\<rparr>)
           | None \<Rightarrow> None))"

fun find_cancel :: "trader \<Rightarrow> nat \<Rightarrow> (item \<times> book) list \<Rightarrow> (item \<times> order \<times> book) option" where
  "find_cancel t k [] = None"
| "find_cancel t k ((i, b) # bs) =
     (case book_cancel t k b of Some (od, b') \<Rightarrow> Some (i, od, b') | None \<Rightarrow> find_cancel t k bs)"

definition ex_cancel :: "trader \<Rightarrow> nat \<Rightarrow> exchange \<Rightarrow> bool \<times> exchange" where
  "ex_cancel t k e =
     (case find_cancel t k (entries (books e)) of
        None \<Rightarrow> (False, e)
      | Some (i, od, b) \<Rightarrow> (True, hand_back od (e\<lparr>books := bput i b (books e)\<rparr>)))"

definition ex_cancel_all :: "trader \<Rightarrow> exchange \<Rightarrow> exchange" where
  "ex_cancel_all t e = fold (\<lambda>k e. snd (ex_cancel t k e)) (map o_id (orders_of t e)) e"

definition ex_collect :: "trader \<Rightarrow> exchange \<Rightarrow> account \<times> exchange" where
  "ex_collect t e = (bor account_empty (bget (accounts e) t), e\<lparr>accounts := bdel t (accounts e)\<rparr>)"

definition ex_owed :: "trader \<Rightarrow> exchange \<Rightarrow> bool" where
  "ex_owed t e = (case bget (accounts e) t of None \<Rightarrow> False | Some a \<Rightarrow> \<not> account_is_empty a)"

section \<open>What the market shows\<close>

fun level_of :: "order list \<Rightarrow> (nat \<times> nat) option" where
  "level_of [] = None"
| "level_of (od # ods) =
     Some (o_price od, sum_list (map o_qty (takeWhile (\<lambda>r. o_price r = o_price od) (od # ods))))"

fun pick_top :: "(nat \<times> nat) option \<Rightarrow> (nat \<times> nat) option \<Rightarrow> bool \<Rightarrow> (nat \<times> nat) option" where
  "pick_top (Some x) (Some y) higher =
     (if fst x = fst y then Some (fst x, snd x + snd y)
      else Some (if (fst y < fst x) = higher then x else y))"
| "pick_top x None higher = x"
| "pick_top None y higher = y"

definition top_of :: "(rat \<Rightarrow> rat \<Rightarrow> rat) \<Rightarrow> exchange \<Rightarrow> item \<Rightarrow> (nat \<times> nat) option \<times> (nat \<times> nat) option" where
  "top_of pw e i =
     (pick_top (level_of (bids (book_at e i))) (colony_quote pw e i Sell) True,
      pick_top (level_of (asks (book_at e i))) (colony_quote pw e i Buy) False)"

definition mark :: "(rat \<Rightarrow> rat \<Rightarrow> rat) \<Rightarrow> exchange \<Rightarrow> item \<Rightarrow> nat option" where
  "mark pw e i =
     (case top_of pw e i of
        (Some b, Some a) \<Rightarrow> Some ((fst b + fst a) div 2)
      | (Some b, None) \<Rightarrow> Some (fst b)
      | (None, Some a) \<Rightarrow> Some (fst a)
      | (None, None) \<Rightarrow> (case bget (tapes e) i of None \<Rightarrow> None | Some t \<Rightarrow> tp_last t))"

record level =
  lv_price :: nat
  lv_qty :: nat
  lv_colony :: bool

record depth =
  dp_item :: item
  dp_bids :: "level list"
  dp_asks :: "level list"

fun add_level :: "nat \<Rightarrow> nat \<Rightarrow> bool \<Rightarrow> level list \<Rightarrow> level list" where
  "add_level price qty col [] = [\<lparr>lv_price = price, lv_qty = qty, lv_colony = col\<rparr>]"
| "add_level price qty col (l # ls) =
     (if lv_price l = price then l\<lparr>lv_qty := lv_qty l + qty, lv_colony := lv_colony l \<or> col\<rparr> # ls
      else l # add_level price qty col ls)"

definition side_levels :: "order list \<Rightarrow> (nat \<times> nat) option \<Rightarrow> level list" where
  "side_levels ods quote =
     (let ls = fold (\<lambda>od. add_level (o_price od) (o_qty od) False) ods []
      in case quote of None \<Rightarrow> ls | Some (p, n) \<Rightarrow> add_level p n True ls)"

definition depth_of :: "(rat \<Rightarrow> rat \<Rightarrow> rat) \<Rightarrow> exchange \<Rightarrow> item \<Rightarrow> nat \<Rightarrow> depth" where
  "depth_of pw e i levels =
     \<lparr>dp_item = i,
      dp_bids = take levels (sort_key (\<lambda>l. - int (lv_price l))
                  (side_levels (bids (book_at e i)) (colony_quote pw e i Sell))),
      dp_asks = take levels (sort_key lv_price
                  (side_levels (asks (book_at e i)) (colony_quote pw e i Buy)))\<rparr>"

record quote =
  qt_item :: item
  qt_bid :: "nat option"
  qt_bid_qty :: nat
  qt_ask :: "nat option"
  qt_ask_qty :: nat
  qt_colony :: bool
  qt_last :: "nat option"
  qt_volume :: nat

definition quote_of :: "(rat \<Rightarrow> rat \<Rightarrow> rat) \<Rightarrow> exchange \<Rightarrow> item \<Rightarrow> quote" where
  "quote_of pw e i =
     (let (bid, ask) = top_of pw e i; t = bget (tapes e) i
      in \<lparr>qt_item = i, qt_bid = map_option fst bid, qt_bid_qty = bor 0 (map_option snd bid),
          qt_ask = map_option fst ask, qt_ask_qty = bor 0 (map_option snd ask),
          qt_colony = (desk_for i \<noteq> None),
          qt_last = (case t of None \<Rightarrow> None | Some t \<Rightarrow> tp_last t),
          qt_volume = bor 0 (map_option tp_volume t)\<rparr>)"

definition quotes :: "(rat \<Rightarrow> rat \<Rightarrow> rat) \<Rightarrow> exchange \<Rightarrow> quote list" where
  "quotes pw e = map (quote_of pw e) item_all"

definition history :: "exchange \<Rightarrow> item \<Rightarrow> nat list" where
  "history e i = tp_samples (bor tape_empty (bget (tapes e) i))"

definition colony_receive :: "item \<Rightarrow> nat \<Rightarrow> exchange \<Rightarrow> exchange" where
  "colony_receive i qty e =
     (case bget (colony e) i of
        None \<Rightarrow> e
      | Some h \<Rightarrow> e\<lparr>colony := bput i (rn64 (h + rn64 (of_nat qty))) (colony e)\<rparr>)"

definition colony_issue :: "item \<Rightarrow> nat \<Rightarrow> exchange \<Rightarrow> nat \<times> exchange" where
  "colony_issue i qty e =
     (case bget (colony e) i of
        None \<Rightarrow> (0, e)
      | Some h \<Rightarrow>
          let n = min qty (to_nat_trunc u64_max (of_int \<lfloor>max h 0\<rfloor>))
          in (n, e\<lparr>colony := bput i (rn64 (h - rn64 (of_nat n))) (colony e)\<rparr>))"

definition colony_stock :: "exchange \<Rightarrow> item \<Rightarrow> rat option" where
  "colony_stock e i = bget (colony e) i"

definition escrowed :: "exchange \<Rightarrow> nat \<times> (item, nat) bmap" where
  "escrowed e =
     (sum_list (map (\<lambda>b. sum_list (map o_escrow (bids b))) (bvals (books e))),
      fold (\<lambda>od. bupd 0 (\<lambda>n. n + o_qty od) (o_item od)) (concat (map asks (bvals (books e)))) bempty)"

section \<open>The clock\<close>

definition settle_stock :: "(rat \<Rightarrow> rat) \<Rightarrow> rat \<Rightarrow> item \<Rightarrow> rat \<Rightarrow> rat" where
  "settle_stock ex dt i h =
     (case desk_for i of
        None \<Rightarrow> h
      | Some d \<Rightarrow>
          let k = rn64 (1 - ex (rn64 (- dt / rn64 (of_nat (d_settle_hours d) * 3600))))
          in rn64 (h + rn64 (rn64 (rn64 (of_nat (d_target d)) - h) * k)))"

definition push_sample :: "nat \<Rightarrow> tape \<Rightarrow> tape" where
  "push_sample p t =
     (let xs = tp_samples t @ [p]
      in t\<lparr>tp_samples := (if HISTORY < length xs then remove_at 0 xs else xs)\<rparr>)"

definition sample_item :: "(rat \<Rightarrow> rat \<Rightarrow> rat) \<Rightarrow> item \<Rightarrow> exchange \<Rightarrow> exchange" where
  "sample_item pw i e =
     (case mark pw e i of
        None \<Rightarrow> e
      | Some p \<Rightarrow> e\<lparr>tapes := bupd tape_empty (push_sample p) i (tapes e)\<rparr>)"

definition sample_all :: "(rat \<Rightarrow> rat \<Rightarrow> rat) \<Rightarrow> exchange \<Rightarrow> exchange" where
  "sample_all pw e = fold (sample_item pw) item_all (e\<lparr>next_sample := rn64 (next_sample e + SAMPLE_SECS)\<rparr>)"

text \<open>The loop \<open>while self.clock >= self.next_sample\<close>; \<open>None\<close> is not returning.\<close>

partial_function (option) sample_loop :: "(rat \<Rightarrow> rat \<Rightarrow> rat) \<Rightarrow> exchange \<Rightarrow> exchange option" where
  "sample_loop pw e = (if next_sample e \<le> clock e then sample_loop pw (sample_all pw e) else Some e)"

definition ex_tick :: "(rat \<Rightarrow> rat \<Rightarrow> rat) \<Rightarrow> (rat \<Rightarrow> rat) \<Rightarrow> rat \<Rightarrow> exchange \<Rightarrow> exchange option" where
  "ex_tick pw ex dt e =
     (let dt = max dt 0
      in sample_loop pw
           (e\<lparr>clock := rn64 (clock e + dt), colony := bmapv (settle_stock ex dt) (colony e)\<rparr>))"

end
