(* ===== verification/Market.thy ===== *)
theory Market
  imports Exchange
begin

text \<open>
  What makes the exchange correct. The locale \<open>ledger\<close> is the contract between what an order holds
  and what an account is owed: whatever is counted (credits, or one item's goods), handing an order
  back moves its holding into its owner's account. Cancelling, collecting and trading are accounted
  for once, in the locale, and it is interpreted for credits and for goods. The invariant
  \<open>exchange_ok\<close> (every order covered by its escrow, books in price-time order and uncrossed) is
  kept by every operation, and under it no operation overflows.
\<close>

section \<open>The ledger\<close>

lemma book_sum_put:
  assumes "f book_empty = 0"
  shows "bsum f (bput i b (books e)) + f (book_at e i) = bsum f (books e) + f b"
  using bsum_bput [of f i b "books e"] assms
  by (cases "bget (books e) i") (auto simp: book_at_def)

lemma position_split:
  assumes "position P xs = Some k"
  shows "k < length xs" and "xs = take k xs @ xs ! k # drop (Suc k) xs"
  using position_Some [OF assms] by (simp_all add: id_take_nth_drop)

lemma find_cancel_Some:
  assumes "find_cancel t k bs = Some (i, od, b')"
  obtains b where "(i, b) \<in> set bs" "book_cancel t k b = Some (od, b')"
  using assms by (induction bs rule: find_cancel.induct [of _ t k]) (auto split: option.splits)

lemma cancel_cases:
  assumes "ex_cancel t k e = (True, e')"
  obtains i od b b' where "bget (books e) i = Some b" "book_cancel t k b = Some (od, b')"
    "e' = hand_back od (e\<lparr>books := bput i b' (books e)\<rparr>)"
proof -
  from assms obtain i od b' where f: "find_cancel t k (entries (books e)) = Some (i, od, b')"
    and e': "e' = hand_back od (e\<lparr>books := bput i b' (books e)\<rparr>)"
    by (auto simp: ex_cancel_def split: option.splits)
  from f obtain b where "(i, b) \<in> set (entries (books e))" "book_cancel t k b = Some (od, b')"
    by (rule find_cancel_Some)
  with e' that show ?thesis by (auto simp: bget_entries)
qed

lemma cancel_False: "ex_cancel t k e = (False, e') \<Longrightarrow> e' = e"
  by (auto simp: ex_cancel_def split: option.splits)

locale ledger =
  fixes wo :: "order \<Rightarrow> nat" and wa :: "account \<Rightarrow> nat"
  assumes wa_empty: "account_is_empty a \<Longrightarrow> wa a = 0"
    and wa_returned: "wa (returned od a) = wa a + wo od"
begin

definition wb :: "book \<Rightarrow> nat" where
  "wb b = sum_list (map wo (bids b @ asks b))"

definition total :: "exchange \<Rightarrow> nat" where
  "total e = bsum wa (accounts e) + bsum wb (books e)"

lemma wa_account_empty [simp]: "wa account_empty = 0"
  by (rule wa_empty) (simp add: account_is_empty_def account_empty_def)

lemma wb_empty [simp]: "wb book_empty = 0"
  by (simp add: wb_def book_empty_def)

lemma total_hand_back: "total (hand_back od e) = total e + wo od"
proof -
  let ?a = "bor account_empty (bget (accounts e) (o_trader od))"
  have old: "(case bget (accounts e) (o_trader od) of None \<Rightarrow> 0 | Some w \<Rightarrow> wa w) = wa ?a"
    by (cases "bget (accounts e) (o_trader od)") simp_all
  show ?thesis
  proof (cases "account_is_empty (returned od ?a)")
    case True
    then have "wa ?a = 0" "wo od = 0" using wa_empty wa_returned [of od ?a] by force+
    with True bsum_bdel [of wa "o_trader od" "accounts e"] old show ?thesis
      by (simp add: hand_back_def total_def)
  next
    case False
    with bsum_bput [of wa "o_trader od" "returned od ?a" "accounts e"] old show ?thesis
      by (simp add: hand_back_def total_def wa_returned)
  qed
qed

lemma total_at_account:
  assumes "\<And>a. wa (f a) = wa a + n"
  shows "total (at_account f t e) = total e + n"
  using bsum_bupd_add [of wa f account_empty "accounts e" t n] assms
  by (simp add: at_account_def total_def)

lemma total_put_book: "total (e\<lparr>books := bput i b (books e)\<rparr>) + wb (book_at e i) = total e + wb b"
  using book_sum_put [of wb i b e] by (simp add: total_def)

lemma wb_insert: "wb (book_insert od b) = wb b + wo od"
  by (simp add: wb_def book_insert_def put_before_def sum_list_insert_at split: side.split)

lemma total_rest: "total (rest_order od e) = total e + wo od"
  using total_put_book [of "o_item od" "book_insert od (book_at e (o_item od))" e]
  by (simp add: rest_order_def bupd_def book_at_def bor_def wb_insert [unfolded bor_def])

lemma total_open [simp]: "total (open_book i e) = total e"
  using total_put_book [of i "book_at e i" e]
  by (simp add: open_book_def bupd_def book_at_def bor_def)

lemma wb_cancel: "book_cancel t k b = Some (od, b') \<Longrightarrow> wb b' + wo od = wb b"
  using sum_list_remove_at [where f = wo and xs = "bids b"] sum_list_remove_at [where f = wo and xs = "asks b"]
  by (fastforce simp: book_cancel_def wb_def dest: position_split(1) split: option.splits)

lemma total_cancel: "total (snd (ex_cancel t k e)) = total e"
proof (cases "ex_cancel t k e")
  case (Pair found e')
  show ?thesis
  proof (cases found)
    case True
    with Pair obtain i od b b' where "bget (books e) i = Some b" "book_cancel t k b = Some (od, b')"
      "e' = hand_back od (e\<lparr>books := bput i b' (books e)\<rparr>)"
      by (auto elim: cancel_cases)
    with Pair wb_cancel [of t k b od b'] total_put_book [of i b' e] show ?thesis
      by (simp add: total_hand_back book_at_def)
  next
    case False
    with Pair show ?thesis by (auto dest: cancel_False)
  qed
qed

lemma total_cancel_all: "total (ex_cancel_all t e) = total e"
proof -
  have "total (fold (\<lambda>k e. snd (ex_cancel t k e)) ks e) = total e" for ks
    by (induction ks arbitrary: e) (simp_all add: total_cancel)
  then show ?thesis by (simp add: ex_cancel_all_def)
qed

lemma total_collect: "total (snd (ex_collect t e)) + wa (fst (ex_collect t e)) = total e"
  using bsum_bdel [of wa t "accounts e"]
  by (cases "bget (accounts e) t") (simp_all add: ex_collect_def total_def)

lemma total_trade_book:
  assumes "trade_book s i qty value e = Some (t, e')"
  obtains maker rest esc where "other_side s (book_at e i) = maker # rest" "t = o_trader maker"
    "if s = Sell then o_escrow maker = value + esc else esc = o_escrow maker"
    "total e' + wo maker = total e + wo (maker\<lparr>o_qty := o_qty maker - qty, o_escrow := esc\<rparr>)"
proof (cases "other_side s (book_at e i)")
  case Nil
  with assms show ?thesis by (simp add: trade_book_def)
next
  case (Cons maker rest)
  note list = this
  show ?thesis
  proof (cases "if s = Sell then sub_ck (o_escrow maker) value else Some (o_escrow maker)")
    case None
    with assms list show ?thesis by (simp add: trade_book_def)
  next
    case (Some esc)
    let ?m = "maker\<lparr>o_qty := o_qty maker - qty, o_escrow := esc\<rparr>"
    have wbs: "wb (set_other_side s xs (book_at e i)) + sum_list (map wo (maker # rest))
        = wb (book_at e i) + sum_list (map wo xs)" for xs
      using list by (cases s) (simp_all add: wb_def set_other_side_def other_side_def)
    have "t = o_trader maker" "total e' + wo maker = total e + wo ?m"
    proof -
      show "t = o_trader maker" using assms list Some by (auto simp: trade_book_def Let_def split: if_split_asm)
      show "total e' + wo maker = total e + wo ?m"
      proof (cases "o_qty maker - qty = 0")
        case True
        with assms list Some have "e' = hand_back ?m
            (e\<lparr>books := bput i (set_other_side s rest (book_at e i)) (books e)\<rparr>)"
          by (simp add: trade_book_def)
        with total_put_book [of i "set_other_side s rest (book_at e i)" e] wbs [of rest]
        show ?thesis by (simp add: total_hand_back)
      next
        case False
        with assms list Some have "e' =
            e\<lparr>books := bput i (set_other_side s (?m # rest) (book_at e i)) (books e)\<rparr>"
          by (simp add: trade_book_def)
        with total_put_book [of i "set_other_side s (?m # rest) (book_at e i)" e] wbs [of "?m # rest"]
        show ?thesis by simp
      qed
    qed
    moreover from Some have "if s = Sell then o_escrow maker = value + esc else esc = o_escrow maker"
      by (simp split: if_split_asm)
    ultimately show ?thesis using list by (intro that)
  qed
qed

lemma total_trade_colony [simp]: "total (trade_colony d s i n v e) = total e"
  by (simp add: total_def trade_colony_def Let_def split: side.split)

lemma total_update [simp]: "total (record_trade i p n e) = total e" "total (e\<lparr>fees := f\<rparr>) = total e"
  "total (e\<lparr>colony := c\<rparr>) = total e" "total (e\<lparr>clock := k, colony := c\<rparr>) = total e"
  "total (e\<lparr>tapes := tp\<rparr>) = total e" "total (e\<lparr>next_sample := x\<rparr>) = total e"
  "total (e\<lparr>seq := s, next_id := n'\<rparr>) = total e"
  by (simp_all add: total_def record_trade_def)

end

definition order_credits :: "order \<Rightarrow> nat" where
  "order_credits od = (case o_side od of Buy \<Rightarrow> o_escrow od | Sell \<Rightarrow> 0)"

definition order_goods :: "item \<Rightarrow> order \<Rightarrow> nat" where
  "order_goods g od = (case o_side od of Buy \<Rightarrow> 0 | Sell \<Rightarrow> if o_item od = g then o_qty od else 0)"

definition account_goods :: "item \<Rightarrow> account \<Rightarrow> nat" where
  "account_goods g a = bor 0 (bget (ac_goods a) g)"

interpretation cr: ledger order_credits ac_credits
  by unfold_locales
    (auto simp: account_is_empty_def returned_def order_credits_def add_goods_def split: side.split)

lemma account_goods_add [simp]:
  "account_goods g (add_goods i n a) = account_goods g a + (if g = i then n else 0)"
  by (simp add: account_goods_def add_goods_def)

lemma account_goods_upd [simp]: "account_goods g (a\<lparr>ac_credits := c\<rparr>) = account_goods g a"
  "account_goods g (a\<lparr>ac_credits := c, ac_notes := ns\<rparr>) = account_goods g a"
  "account_goods g (a\<lparr>ac_notes := ns\<rparr>) = account_goods g a"
  by (simp_all add: account_goods_def)

lemma account_goods_empty: "account_is_empty a \<Longrightarrow> account_goods g a = 0"
  by (simp add: account_is_empty_def account_goods_def bget.rep_eq)

interpretation gd: ledger "order_goods g" "account_goods g" for g
  by unfold_locales
    (auto simp: account_goods_empty returned_def order_goods_def split: side.split)


section \<open>The invariant\<close>

text \<open>The most escrow an order may hold for its fees to be computed without overflow.\<close>

definition FEE_CAP :: nat where "FEE_CAP = u64_max div FEE_BP"

definition order_ok :: "item \<Rightarrow> side \<Rightarrow> order \<Rightarrow> bool" where
  "order_ok i s od \<longleftrightarrow> o_item od = i \<and> o_side od = s \<and> 0 < o_price od
     \<and> o_price od \<le> MAX_PRICE \<and> o_qty od \<le> MAX_QTY
     \<and> (case s of Buy \<Rightarrow> worth i (o_price od) (o_qty od) \<le> o_escrow od \<and> o_escrow od \<le> FEE_CAP
        | Sell \<Rightarrow> o_escrow od = 0)"

text \<open>Price-time order: the best price first, the oldest first at a price.\<close>

definition order_key :: "side \<Rightarrow> order \<Rightarrow> int \<times> nat" where
  "order_key s od = ((case s of Buy \<Rightarrow> - int (o_price od) | Sell \<Rightarrow> int (o_price od)), o_seq od)"

definition side_ok :: "item \<Rightarrow> nat \<Rightarrow> side \<Rightarrow> order list \<Rightarrow> bool" where
  "side_ok i n s xs \<longleftrightarrow>
     list_all (\<lambda>od. order_ok i s od \<and> 0 < o_qty od \<and> o_seq od \<le> n) xs \<and> sorted (map (order_key s) xs)"

definition uncrossed :: "order list \<Rightarrow> order list \<Rightarrow> bool" where
  "uncrossed bs as \<longleftrightarrow> (\<forall>x\<in>o_price ` set bs. \<forall>y\<in>o_price ` set as. x < y)"

definition book_ok :: "item \<Rightarrow> nat \<Rightarrow> book \<Rightarrow> bool" where
  "book_ok i n b \<longleftrightarrow> side_ok i n Buy (bids b) \<and> side_ok i n Sell (asks b) \<and> uncrossed (bids b) (asks b)"

definition books_ok :: "nat \<Rightarrow> exchange \<Rightarrow> bool" where
  "books_ok n e \<longleftrightarrow> (\<forall>i. book_ok i n (book_at e i))"

definition exchange_ok :: "exchange \<Rightarrow> bool" where
  "exchange_ok e \<longleftrightarrow> books_ok (seq e) e"

lemma side_ok_simps [simp]: "side_ok i n s []"
  by (simp add: side_ok_def)

lemma side_ok_mono: "side_ok i n s xs \<Longrightarrow> n \<le> m \<Longrightarrow> side_ok i m s xs"
  by (auto simp: side_ok_def list_all_iff)

lemma side_ok_tl: "side_ok i n s (x # xs) \<Longrightarrow> side_ok i n s xs"
  by (simp add: side_ok_def)

lemma side_ok_hd: "side_ok i n s (x # xs) \<Longrightarrow> order_ok i s x \<and> 0 < o_qty x \<and> o_seq x \<le> n"
  by (simp add: side_ok_def)

lemma side_ok_replace:
  assumes "side_ok i n s (x # xs)" and "order_ok i s y" and "0 < o_qty y" and "o_price y = o_price x"
    and "o_seq y = o_seq x"
  shows "side_ok i n s (y # xs)"
proof -
  have "order_key s y = order_key s x" using assms(4,5) by (cases s) (simp_all add: order_key_def)
  with assms show ?thesis by (simp add: side_ok_def)
qed

lemma side_ok_remove: "side_ok i n s xs \<Longrightarrow> side_ok i n s (remove_at k xs)"
  using set_remove_at [of k xs] by (auto simp: side_ok_def list_all_iff sorted_map_remove_at)

lemma uncrossed_mono:
  "uncrossed bs as \<Longrightarrow> o_price ` set bs' \<subseteq> o_price ` set bs \<Longrightarrow> o_price ` set as' \<subseteq> o_price ` set as \<Longrightarrow>
   uncrossed bs' as'"
  unfolding uncrossed_def by blast

lemma uncrossed_Nil [simp]: "uncrossed [] as" "uncrossed bs []"
  by (simp_all add: uncrossed_def)

lemma book_ok_empty [simp]: "book_ok i n book_empty"
  by (simp add: book_ok_def book_empty_def)

lemma book_ok_mono: "book_ok i n b \<Longrightarrow> n \<le> m \<Longrightarrow> book_ok i m b"
  by (auto simp: book_ok_def intro: side_ok_mono)

lemma book_ok_other: "book_ok i n b \<Longrightarrow> side_ok i n (case s of Buy \<Rightarrow> Sell | Sell \<Rightarrow> Buy) (other_side s b)"
  by (cases s) (simp_all add: book_ok_def other_side_def)

lemma book_okD:
  assumes "book_ok i n b" and "other_side s b = maker # rest"
  shows "order_ok i (case s of Buy \<Rightarrow> Sell | Sell \<Rightarrow> Buy) maker" and "0 < o_qty maker"
  using side_ok_hd [of i n _ maker rest] book_ok_other [OF assms(1), of s] assms(2) by auto

lemma book_ok_set_other:
  assumes "book_ok i n b" and "side_ok i n (case s of Buy \<Rightarrow> Sell | Sell \<Rightarrow> Buy) xs"
    and "o_price ` set xs \<subseteq> o_price ` set (other_side s b)"
  shows "book_ok i n (set_other_side s xs b)"
  using assms uncrossed_mono [of "bids b" "asks b" "bids b" xs] uncrossed_mono [of "bids b" "asks b" xs "asks b"]
  by (cases s) (simp_all add: book_ok_def set_other_side_def other_side_def)

lemma order_ok_less:
  assumes "order_ok i s od" and "n \<le> o_qty od" and "esc = (if s = Buy then o_escrow od - v else o_escrow od)"
    and "v \<le> worth i (o_price od) n"
  shows "order_ok i s (od\<lparr>o_qty := o_qty od - n, o_escrow := esc\<rparr>)"
proof (cases s)
  case Buy
  with assms(1) have w: "worth i (o_price od) (o_qty od) \<le> o_escrow od" "o_escrow od < u64_max"
    by (auto simp: order_ok_def FEE_CAP_def FEE_BP_def u64_max_def)
  have "worth i (o_price od) n + worth i (o_price od) (o_qty od - n) \<le> worth i (o_price od) (o_qty od)"
    using worth_split [of i "o_price od" n "o_qty od - n"] w assms(2) by simp
  with assms Buy w show ?thesis by (auto simp: order_ok_def)
qed (use assms in \<open>auto simp: order_ok_def\<close>)

lemma order_ok_cost:
  assumes "order_ok i Buy od" and "n \<le> o_qty od"
  shows "worth i (o_price od) n \<le> o_escrow od"
  using assms worth_mono [of "o_price od" "o_price od" n "o_qty od" i] by (auto simp: order_ok_def)

lemma book_ok_trade:
  assumes "book_ok i n b" and "other_side s b = maker # rest" and "q \<le> o_qty maker"
    and "if s = Sell then o_escrow maker = worth i (o_price maker) q + esc else esc = o_escrow maker"
  shows "book_ok i n (set_other_side s
           ((if o_qty maker - q = 0 then [] else [maker\<lparr>o_qty := o_qty maker - q, o_escrow := esc\<rparr>]) @ rest) b)"
proof -
  let ?m = "maker\<lparr>o_qty := o_qty maker - q, o_escrow := esc\<rparr>" and ?s = "case s of Buy \<Rightarrow> Sell | Sell \<Rightarrow> Buy"
  have so: "side_ok i n ?s (maker # rest)" using book_ok_other [OF assms(1), of s] assms(2) by simp
  have "esc = (if ?s = Buy then o_escrow maker - worth i (o_price maker) q else o_escrow maker)"
    using assms(4) by (cases s) simp_all
  then have ok: "order_ok i ?s ?m"
    by (rule order_ok_less [OF book_okD(1) [OF assms(1,2)] assms(3)]) simp
  show ?thesis
  proof (cases "o_qty maker - q = 0")
    case True
    with book_ok_set_other [OF assms(1) side_ok_tl [OF so]] assms(2) show ?thesis by auto
  next
    case False
    with ok have "side_ok i n ?s (?m # rest)" by (intro side_ok_replace [OF so]) auto
    with book_ok_set_other [OF assms(1) this] assms(2) False show ?thesis by simp
  qed
qed

lemma book_ok_cancel:
  assumes "book_ok i n b" and "book_cancel t k b = Some (od, b')"
  shows "book_ok i n b'"
proof -
  have u: "uncrossed (remove_at j (bids b)) (asks b)" "uncrossed (bids b) (remove_at j (asks b))" for j
    using assms(1) set_remove_at [of j "bids b"] set_remove_at [of j "asks b"]
    by (auto simp: book_ok_def intro!: uncrossed_mono [of "bids b" "asks b"])
  from assms show ?thesis
    by (auto simp: book_cancel_def book_ok_def side_ok_remove u split: option.splits)
qed

lemma books_okD: "books_ok n e \<Longrightarrow> book_ok i n (book_at e i)"
  by (simp add: books_ok_def)

lemma exchange_okD: "exchange_ok e \<Longrightarrow> book_ok i (seq e) (book_at e i)"
  by (simp add: exchange_ok_def books_ok_def)

lemma seq_simps [simp]:
  "seq (at_account f t e) = seq e" "seq (hand_back od e) = seq e"
  "seq (record_trade i p n e) = seq e" "seq (pay_buyer i n v t e) = seq e"
  "seq (pay_seller i n v fee t e) = seq e" "seq (trade_colony d s i n v e) = seq e"
  "seq (open_book i e) = seq e" "seq (rest_order od e) = seq e"
  by (simp_all add: at_account_def hand_back_def record_trade_def pay_buyer_def pay_seller_def
      trade_colony_def open_book_def rest_order_def Let_def split: side.split)

lemma seq_opt_do [simp]: "(\<And>a e. seq (f a e) = seq e) \<Longrightarrow> seq (opt_do f x e) = seq e"
  by (simp add: opt_do_def split: option.split)

lemma seq_trade_book: "trade_book s i q v e = Some (t, e') \<Longrightarrow> seq e' = seq e"
  by (auto simp: trade_book_def Let_def split: list.splits option.splits if_split_asm)

lemma book_at_trade_book_other: "trade_book s i q v e = Some (t, e') \<Longrightarrow> j \<noteq> i \<Longrightarrow> book_at e' j = book_at e j"
  by (auto simp: trade_book_def Let_def book_at_def split: list.splits option.splits if_split_asm)

lemma exchange_ok_cancel: "exchange_ok e \<Longrightarrow> exchange_ok (snd (ex_cancel t k e))"
proof (cases "ex_cancel t k e")
  case (Pair found e')
  assume ok: "exchange_ok e"
  show ?thesis
  proof (cases found)
    case True
    with Pair obtain i od b b' where c: "bget (books e) i = Some b" "book_cancel t k b = Some (od, b')"
      "e' = hand_back od (e\<lparr>books := bput i b' (books e)\<rparr>)"
      by (auto elim: cancel_cases)
    from c(1) exchange_okD [OF ok, of i] have "book_ok i (seq e) b" by (simp add: book_at_def)
    then have "book_ok i (seq e) b'" using c(2) by (rule book_ok_cancel)
    with ok Pair c(3) show ?thesis
      by (simp add: exchange_ok_def books_ok_def book_at_def)
  next
    case False
    with Pair ok show ?thesis by (auto dest: cancel_False)
  qed
qed

lemma exchange_ok_cancel_all: "exchange_ok e \<Longrightarrow> exchange_ok (ex_cancel_all t e)"
proof -
  have "exchange_ok e \<Longrightarrow> exchange_ok (fold (\<lambda>k e. snd (ex_cancel t k e)) ks e)" for ks
    by (induction ks arbitrary: e) (simp_all add: exchange_ok_cancel)
  then show "exchange_ok e \<Longrightarrow> ?thesis" by (simp add: ex_cancel_all_def)
qed

lemma exchange_ok_cong:
  "books e' = books e \<Longrightarrow> seq e' = seq e \<Longrightarrow> exchange_ok e' = exchange_ok e"
  by (simp add: exchange_ok_def books_ok_def book_at_def)


section \<open>The colony's prices\<close>

definition desk_capped :: "item \<Rightarrow> bool" where
  "desk_capped i = (case desk_for i of None \<Rightarrow> True | Some d \<Rightarrow> d_base d \<le> MAX_PRICE)"

lemma fclamp_bounds: "lo \<le> hi \<Longrightarrow> lo \<le> fclamp lo hi x \<and> fclamp lo hi x \<le> hi"
  by (simp add: fclamp_def)

lemma colony_mid_bounds:
  "rn64 (rn64 (of_nat (d_base d)) / 5) \<le> colony_mid pw d h \<and> colony_mid pw d h \<le> rn64 (rn64 (of_nat (d_base d)) * 5)"
proof -
  have "0 \<le> rn64 (of_nat (d_base d))" by (rule rn_nonneg) simp
  then have "rn64 (rn64 (of_nat (d_base d)) / 5) \<le> rn64 (rn64 (of_nat (d_base d)) * 5)"
    by (intro rn_mono) simp
  then show ?thesis unfolding colony_mid_def Let_def by (rule fclamp_bounds)
qed

lemma colony_mid_pos: "0 < d_base d \<Longrightarrow> 0 < colony_mid pw d h"
  using colony_mid_bounds [of d pw h] rn_pos(2) [of "rn64 (of_nat (d_base d)) / 5"] rn_pos(2) [of "of_nat (d_base d)"]
  by simp

lemma colony_mid_nonneg: "0 \<le> colony_mid pw d h"
  using colony_mid_bounds [of d pw h] rn_nonneg(2) [of "rn64 (of_nat (d_base d)) / 5"] rn_nonneg(2) [of "of_nat (d_base d)"]
  by simp

lemma to_nat_trunc_mono: "x \<le> y \<Longrightarrow> to_nat_trunc c x \<le> to_nat_trunc c y"
  using nat_mono [OF floor_mono [of x y]] by (auto simp: to_nat_trunc_def)

lemma to_nat_trunc_nat [simp]: "to_nat_trunc c (of_nat n) = min c n"
  by (simp add: to_nat_trunc_def)

lemma rn64_le_nat: "x \<le> of_nat n \<Longrightarrow> n < 2 ^ 53 \<Longrightarrow> rn64 x \<le> of_nat n"
  using rn_mono(2) [of x "of_nat n"] by (simp add: rn64_nat)

lemma colony_bid_le:
  assumes "colony_price pw d h Sell = Some p" and "d_base d \<le> MAX_PRICE"
  shows "p \<le> 5 * MAX_PRICE"
proof -
  let ?m = "colony_mid pw d h"
  have b: "d_base d < 2 ^ 53" "d_base d * 5 < 2 ^ 53" using assms(2) by (simp_all add: MAX_PRICE_def)
  have "rn64 (rn64 (of_nat (d_base d)) * 5) = of_nat (d_base d * 5)"
    using rn64_nat [OF b(2)] rn64_nat [OF b(1)] by simp
  then have "?m \<le> of_nat (d_base d * 5)" using colony_mid_bounds [of d pw h] by simp
  moreover have "rn64 (9 / 10) \<le> 1" using rn64_le_nat [of "9 / 10" 1] by simp
  then have "?m * rn64 (9 / 10) \<le> ?m * 1" by (intro mult_left_mono colony_mid_nonneg)
  ultimately have "?m * rn64 (9 / 10) \<le> of_nat (d_base d * 5)" by simp
  from rn64_le_nat [OF this b(2)] have "rn64 (?m * rn64 (9 / 10)) \<le> of_nat (d_base d * 5)" .
  also have "\<dots> \<le> of_nat (5 * MAX_PRICE)" using assms(2) by (simp only: of_nat_le_iff)
  finally have "of_int \<lfloor>rn64 (?m * rn64 (9 / 10))\<rfloor> \<le> (of_nat (5 * MAX_PRICE) :: rat)"
    using of_int_floor_le [of "rn64 (?m * rn64 (9 / 10))"] by linarith
  then have "max (of_int \<lfloor>rn64 (?m * rn64 (9 / 10))\<rfloor>) 1 \<le> (of_nat (5 * MAX_PRICE) :: rat)"
    by (simp add: MAX_PRICE_def)
  from to_nat_trunc_mono [OF this, of u64_max]
  have "to_nat_trunc u64_max (max (of_int \<lfloor>rn64 (?m * rn64 (9 / 10))\<rfloor>) 1) \<le> 5 * MAX_PRICE"
    unfolding to_nat_trunc_nat by simp
  with assms(1) show ?thesis by (simp add: colony_price_def Let_def split: if_splits)
qed

lemma colony_bid_ask:
  assumes "colony_price pw d h Sell = Some p" and "colony_price pw d h Buy = Some a" and "0 < d_base d"
  shows "p \<le> a"
proof -
  let ?m = "colony_mid pw d h"
  have "rn64 (9 / 10) \<le> rn64 (11 / 10)" by (rule rn_mono) simp
  then have "?m * rn64 (9 / 10) \<le> ?m * rn64 (11 / 10)" by (intro mult_left_mono colony_mid_nonneg)
  then have "rn64 (?m * rn64 (9 / 10)) \<le> rn64 (?m * rn64 (11 / 10))" by (rule rn_mono)
  then have "of_int \<lfloor>rn64 (?m * rn64 (9 / 10))\<rfloor> \<le> (of_int \<lceil>rn64 (?m * rn64 (11 / 10))\<rceil> :: rat)"
    using of_int_floor_le [of "rn64 (?m * rn64 (9 / 10))"] le_of_int_ceiling [of "rn64 (?m * rn64 (11 / 10))"]
    by linarith
  moreover have "0 < rn64 (?m * rn64 (11 / 10))"
    using rn_pos(2) colony_mid_pos [OF assms(3)] by simp
  then have "1 \<le> \<lceil>rn64 (?m * rn64 (11 / 10))\<rceil>" by simp
  then have "(1::rat) \<le> of_int \<lceil>rn64 (?m * rn64 (11 / 10))\<rceil>" by (metis of_int_1 of_int_le_iff)
  ultimately have "max (of_int \<lfloor>rn64 (?m * rn64 (9 / 10))\<rfloor>) 1 \<le> (of_int \<lceil>rn64 (?m * rn64 (11 / 10))\<rceil> :: rat)"
    by simp
  from to_nat_trunc_mono [OF this, of u64_max] assms(1,2) show ?thesis
    by (auto simp: colony_price_def Let_def split: if_splits)
qed

lemma desk_target_le: "desk_for i = Some d \<Longrightarrow> d_target d \<le> 60000"
  by (cases "(i, colony_value i)" rule: desk_terms.cases)
    (auto simp: desk_for_def desk_of_value_def split: if_splits)

lemma worth_le_product: "worth i p q \<le> p * q"
  using order_trans [OF sat64_le(1) div_le_dividend, of "p * q" 1000] sat64_le(1) [of "p * q"]
  by (simp add: worth_def Let_def)

lemma colony_sale_le:
  assumes "desk_capped i" and "colony_quote pw e i Sell = Some (p, n)" and "q \<le> n"
  shows "worth i p q \<le> FEE_CAP"
proof -
  from assms(2) obtain d where d: "desk_for i = Some d" "colony_price pw d (held_of e i) Sell = Some p"
    "n = colony_step d"
    by (auto simp: colony_quote_def Let_def split: option.splits if_splits)
  with assms(1) have "p \<le> 5 * MAX_PRICE" by (auto simp: desk_capped_def intro: colony_bid_le)
  moreover have "q \<le> 1200" using assms(3) d(3) desk_target_le [OF d(1)] by (simp add: colony_step_def)
  ultimately have "p * q \<le> 5 * MAX_PRICE * 1200" by (rule mult_le_mono)
  also have "\<dots> \<le> FEE_CAP" by (simp add: MAX_PRICE_def FEE_CAP_def FEE_BP_def u64_max_def)
  finally show ?thesis using worth_le_product [of i p q] by linarith
qed

section \<open>One fill\<close>

lemma fee_on_Some: "v \<le> FEE_CAP \<Longrightarrow> \<exists>fee. fee_on s v = Some fee"
  by (auto simp: fee_on_def mul_ck_def FEE_CAP_def FEE_BP_def u64_max_def split: option.split)

lemma fee_on_le: "fee_on s v = Some fee \<Longrightarrow> fee \<le> v \<and> (s = None \<longrightarrow> fee = 0)"
  by (auto simp: fee_on_def mul_ck_def FEE_BP_def split: option.splits if_splits)

lemma buy_covers:
  assumes "order_ok i Buy od" and "crosses Buy p (o_price od)" and "q \<le> o_qty od"
  shows "worth i p q \<le> o_escrow od" and "worth i p q \<le> worth i (o_price od) q" and "o_escrow od \<le> FEE_CAP"
  using assms worth_mono [of p "o_price od" q "o_qty od" i] worth_mono [of p "o_price od" q q i]
  by (auto simp: order_ok_def crosses_def)

lemma pilot_fill:
  assumes "choose_best s (first_of (other_side s (book_at e i))) c = Some (False, p, n)"
    and "books_ok m e"
  obtains maker rest where "other_side s (book_at e i) = maker # rest" "p = o_price maker" "n = o_qty maker"
    "order_ok i (case s of Buy \<Rightarrow> Sell | Sell \<Rightarrow> Buy) maker" "0 < n"
proof -
  from choose_best_Some [OF assms(1)] obtain maker rest where
    m: "other_side s (book_at e i) = maker # rest" "p = o_price maker" "n = o_qty maker"
    by (auto simp: first_of_Some)
  with that book_okD [OF books_okD [OF assms(2)] m(1)] show ?thesis by blast
qed

lemma match_one_no_panic:
  assumes ok: "books_ok m e" "order_ok i s od" and cap: "desk_capped i"
  shows "match_one pw od e \<noteq> Panic"
proof -
  let ?e = "open_book i e"
  from ok(2) have od: "o_item od = i" "o_side od = s" by (auto simp: order_ok_def)
  show ?thesis
  proof (cases "choose_best s (first_of (other_side s (book_at ?e i))) (colony_quote pw ?e i s)")
    case None
    with od show ?thesis by (simp add: match_one_def Let_def)
  next
    case (Some x)
    obtain col p n where x: "x = (col, p, n)" by (cases x)
    let ?q = "min (o_qty od) n" and ?v = "worth i p (min (o_qty od) n)"
    show ?thesis
    proof (cases "crosses s p (o_price od)")
      case False
      with od Some x show ?thesis by (simp add: match_one_def Let_def)
    next
      case True
      have esc: "\<exists>c. (if s = Buy then sub_ck (o_escrow od) ?v else Some (o_escrow od)) = Some c"
        using buy_covers(1) [of i od p ?q] True ok(2) by (auto simp: sub_ck_def)
      have buy: "s = Buy \<Longrightarrow> ?v \<le> FEE_CAP"
        using buy_covers [of i od p ?q] True ok(2) by auto
      have "(\<exists>b sl e1. trade col ?q ?v od ?e = Some (b, sl, e1)) \<and> ?v \<le> FEE_CAP"
      proof (cases col)
        case True
        with choose_best_Some [OF Some [unfolded x]] have c: "colony_quote pw ?e i s = Some (p, n)" by simp
        then obtain d where "desk_for i = Some d" by (auto simp: colony_quote_def split: option.splits)
        with True od c buy colony_sale_le [OF cap, of pw ?e p n ?q] show ?thesis
          by (cases s) (auto simp: trade_def Let_def)
      next
        case False
        have oke: "books_ok m ?e" using ok(1) by (simp add: books_ok_def)
        from Some x False have ch: "choose_best s (first_of (other_side s (book_at ?e i)))
            (colony_quote pw ?e i s) = Some (False, p, n)" by simp
        from pilot_fill [OF ch oke] obtain maker rest where m: "other_side s (book_at ?e i) = maker # rest"
          "p = o_price maker" "n = o_qty maker" "order_ok i (case s of Buy \<Rightarrow> Sell | Sell \<Rightarrow> Buy) maker" .
        have sell: "s = Sell \<Longrightarrow> ?v \<le> o_escrow maker \<and> o_escrow maker \<le> FEE_CAP"
          using m order_ok_cost [of i maker ?q] by (auto simp: order_ok_def)
        have "\<exists>t e1. trade_book s i ?q ?v ?e = Some (t, e1)"
          using m(1) sell by (auto simp: trade_book_def Let_def sub_ck_def)
        with False od buy sell show ?thesis
          by (cases s) (auto simp: trade_def Let_def)
      qed
      then obtain b sl e1 where t: "trade col ?q ?v od ?e = Some (b, sl, e1)" and "?v \<le> FEE_CAP" by blast
      moreover from fee_on_Some [OF \<open>?v \<le> FEE_CAP\<close>] obtain fee where "fee_on sl ?v = Some fee" by blast
      ultimately show ?thesis using od Some x True esc
        by (auto simp: match_one_def Let_def simp del: sub_ck_Some_iff)
    qed
  qed
qed


definition from_colony :: "item \<Rightarrow> fill \<Rightarrow> nat" where
  "from_colony g fi = (if f_seller fi = None \<and> f_item fi = g then f_qty fi else 0)"

definition to_colony :: "item \<Rightarrow> fill \<Rightarrow> nat" where
  "to_colony g fi = (if f_buyer fi = None \<and> f_item fi = g then f_qty fi else 0)"

lemma total_pay [simp]:
  "cr.total (pay_buyer i q v t e) = cr.total e"
  "cr.total (pay_seller i q v v' t e) = cr.total e + (v - v')"
  "gd.total g (pay_buyer i q v t e) = gd.total g e + (if g = i then q else 0)"
  "gd.total g (pay_seller i q v v' t e) = gd.total g e"
proof -
  show "cr.total (pay_buyer i q v t e) = cr.total e"
    unfolding pay_buyer_def by (subst cr.total_at_account [where n = 0]) (simp_all add: add_goods_def)
  show "cr.total (pay_seller i q v v' t e) = cr.total e + (v - v')"
    unfolding pay_seller_def by (rule cr.total_at_account) simp
  show "gd.total g (pay_buyer i q v t e) = gd.total g e + (if g = i then q else 0)"
    unfolding pay_buyer_def by (rule gd.total_at_account) simp
  show "gd.total g (pay_seller i q v v' t e) = gd.total g e"
    unfolding pay_seller_def by (subst gd.total_at_account [where n = 0]) simp_all
qed

lemma counters_simps [simp]:
  "fees (pay_buyer i q v t e) = fees e" "fees (pay_seller i q v v' t e) = fees e"
  "fees (record_trade i p q e) = fees e" "fees (hand_back od e) = fees e" "fees (open_book i e) = fees e"
  "fees (trade_colony d s i q v e) = fees e" "fees (rest_order od e) = fees e"
  "colony_paid (pay_buyer i q v t e) = colony_paid e" "colony_paid (pay_seller i q v v' t e) = colony_paid e"
  "colony_paid (record_trade i p q e) = colony_paid e" "colony_paid (hand_back od e) = colony_paid e"
  "colony_paid (open_book i e) = colony_paid e" "colony_paid (rest_order od e) = colony_paid e"
  "colony_took (pay_buyer i q v t e) = colony_took e" "colony_took (pay_seller i q v v' t e) = colony_took e"
  "colony_took (record_trade i p q e) = colony_took e" "colony_took (hand_back od e) = colony_took e"
  "colony_took (open_book i e) = colony_took e" "colony_took (rest_order od e) = colony_took e"
  "colony_paid (trade_colony d s i q v e) = colony_paid e + (case s of Buy \<Rightarrow> 0 | Sell \<Rightarrow> v)"
  "colony_took (trade_colony d s i q v e) = colony_took e + (case s of Buy \<Rightarrow> v | Sell \<Rightarrow> 0)"
  by (simp_all add: pay_buyer_def pay_seller_def at_account_def record_trade_def hand_back_def open_book_def
      trade_colony_def rest_order_def Let_def split: side.split)

lemma counters_trade_book:
  "trade_book s i q v e = Some (t, e') \<Longrightarrow>
   fees e' = fees e \<and> colony_paid e' = colony_paid e \<and> colony_took e' = colony_took e"
  by (auto simp: trade_book_def Let_def split: list.splits option.splits if_split_asm)

text \<open>One fill: what the counters, the accounts and the books gain and lose balances.\<close>

lemma match_one_ledger:
  assumes f: "match_one pw od e = Filled fi od' e'" and ok: "books_ok m e" "order_ok i s od"
  shows "cr.total e' + order_credits od' + fees e' + colony_took e' + colony_paid e
       = cr.total e + order_credits od + colony_paid e' + fees e + colony_took e"
    and "gd.total g e' + order_goods g od' + to_colony g fi
       = gd.total g e + order_goods g od + from_colony g fi"
proof -
  from ok(2) have od: "o_item od = i" "o_side od = s" by (auto simp: order_ok_def)
  let ?e = "open_book i e" and ?v = "worth i (f_price fi) (f_qty fi)"
  from f show "cr.total e' + order_credits od' + fees e' + colony_took e' + colony_paid e
       = cr.total e + order_credits od + colony_paid e' + fees e + colony_took e"
    and "gd.total g e' + order_goods g od' + to_colony g fi
       = gd.total g e + order_goods g od + from_colony g fi"
  proof (atomize (full), cases rule: match_one_FilledE)
    case (1 col avail e1 fee)
    note F = 1 [unfolded od]
    have od': "o_side od' = s" "o_item od' = i" "o_qty od' = o_qty od - f_qty fi"
      by (subst F(9), simp add: od)+
    have q: "f_qty fi \<le> o_qty od" "f_qty fi \<le> avail" using F(4) by simp_all
    have fee: "fee \<le> ?v" "f_seller fi = None \<longrightarrow> fee = 0" using fee_on_le [OF F(7)] by simp_all
    have oke: "books_ok m ?e" using ok(1) by (simp add: books_ok_def)
    from F(6) show "(cr.total e' + order_credits od' + fees e' + colony_took e' + colony_paid e
       = cr.total e + order_credits od + colony_paid e' + fees e + colony_took e) \<and>
      (gd.total g e' + order_goods g od' + to_colony g fi
       = gd.total g e + order_goods g od + from_colony g fi)"
    proof (cases rule: trade_cases)
      case (colony d)
      with od F(3,8,10,11) od' q fee show ?thesis
        by (cases s) (auto simp: opt_do_def order_credits_def order_goods_def to_colony_def from_colony_def)
    next
      case (pilot t)
      note trd = pilot(2) [unfolded od]
      from pilot(1) F(1) have ch: "choose_best s (first_of (other_side s (book_at ?e i)))
          (colony_quote pw ?e i s) = Some (False, f_price fi, avail)" by simp
      from pilot_fill [OF ch oke] obtain maker rest where mk: "other_side s (book_at ?e i) = maker # rest"
        "avail = o_qty maker" "order_ok i (case s of Buy \<Rightarrow> Sell | Sell \<Rightarrow> Buy) maker" .
      from cr.total_trade_book [OF trd] mk(1) obtain esc where c:
        "if s = Sell then o_escrow maker = ?v + esc else esc = o_escrow maker"
        "cr.total e1 + order_credits maker
           = cr.total ?e + order_credits (maker\<lparr>o_qty := o_qty maker - f_qty fi, o_escrow := esc\<rparr>)"
        by auto
      from gd.total_trade_book [OF trd, of g] mk(1) obtain esc' where g:
        "gd.total g e1 + order_goods g maker
           = gd.total g ?e + order_goods g (maker\<lparr>o_qty := o_qty maker - f_qty fi, o_escrow := esc'\<rparr>)"
        by auto
      have m: "o_side maker = (case s of Buy \<Rightarrow> Sell | Sell \<Rightarrow> Buy)" "o_item maker = i"
        using mk(3) by (simp_all add: order_ok_def)
      from pilot(3) od F(3,8,10,11) od' q fee c g m mk(2) counters_trade_book [OF trd] show ?thesis
        by (cases s) (auto simp: opt_do_def order_credits_def order_goods_def to_colony_def from_colony_def)
    qed
  qed
qed


text \<open>One fill keeps the books in order and the taker covered, and is at the best price there is.\<close>

definition fill_fair :: "order \<Rightarrow> fill \<Rightarrow> bool" where
  "fill_fair od fi \<longleftrightarrow> f_item fi = o_item od \<and> 0 < f_qty fi
     \<and> (case o_side od of
          Buy \<Rightarrow> f_price fi \<le> o_price od \<and> f_buyer fi = Some (o_trader od)
        | Sell \<Rightarrow> o_price od \<le> f_price fi \<and> f_seller fi = Some (o_trader od))
     \<and> (f_fee fi * 10000 \<le> worth (f_item fi) (f_price fi) (f_qty fi) * FEE_BP)"

lemma fee_on_bp: "fee_on s v = Some fee \<Longrightarrow> fee * 10000 \<le> v * FEE_BP"
  by (auto simp: fee_on_def mul_ck_def split: option.splits if_splits)

lemma match_one_keeps:
  assumes f: "match_one pw od e = Filled fi od' e'" and ok: "books_ok m e" "order_ok i s od" "0 < o_qty od"
  shows "books_ok m e'" and "order_ok i s od'" and "fill_fair od fi" and "seq e' = seq e"
    and "o_qty od' + f_qty fi = o_qty od"
    and "o_id od' = o_id od \<and> o_trader od' = o_trader od \<and> o_price od' = o_price od \<and> o_seq od' = o_seq od"
proof -
  from ok(2) have od: "o_item od = i" "o_side od = s" by (auto simp: order_ok_def)
  let ?e = "open_book i e" and ?v = "worth i (f_price fi) (f_qty fi)"
  have oke: "books_ok m ?e" using ok(1) by (simp add: books_ok_def)
  have "books_ok m e' \<and> order_ok i s od' \<and> fill_fair od fi \<and> seq e' = seq e
        \<and> o_qty od' + f_qty fi = o_qty od
        \<and> o_id od' = o_id od \<and> o_trader od' = o_trader od \<and> o_price od' = o_price od \<and> o_seq od' = o_seq od"
    using f
  proof (cases rule: match_one_FilledE)
    case (1 col avail e1 fee)
    note F = 1 [unfolded od]
    have od': "o_qty od' = o_qty od - f_qty fi"
      "o_id od' = o_id od \<and> o_trader od' = o_trader od \<and> o_price od' = o_price od \<and> o_seq od' = o_seq od"
      by (subst F(9), simp)+
    have q: "f_qty fi \<le> o_qty od" "f_qty fi \<le> avail" using F(4) by simp_all
    have "order_ok i s (od\<lparr>o_qty := o_qty od - f_qty fi, o_escrow := o_escrow od'\<rparr>)"
    proof (rule order_ok_less [OF ok(2) q(1), where v = "if s = Buy then ?v else 0"])
      show "o_escrow od' = (if s = Buy then o_escrow od - (if s = Buy then ?v else 0) else o_escrow od)"
        using F(8,10) by (cases s) simp_all
      show "(if s = Buy then ?v else 0) \<le> worth i (o_price od) (f_qty fi)"
        using ok(2) F(2) q(1) buy_covers(2) [of i od "f_price fi" "f_qty fi"] by (cases s) simp_all
    qed
    with F(9) have okd: "order_ok i s od'" by simp
    have keeps: "books_ok m e1 \<and> seq e1 = seq e \<and> 0 < avail
        \<and> (case s of Buy \<Rightarrow> f_buyer fi = Some (o_trader od) | Sell \<Rightarrow> f_seller fi = Some (o_trader od))"
      using F(6)
    proof (cases rule: trade_cases)
      case (colony d)
      with F(1) have "colony_quote pw ?e i s = Some (f_price fi, avail)" by (auto dest: choose_best_Some)
      then have "0 < avail" by (rule colony_quote_pos)
      with colony oke od show ?thesis
        by (auto simp: books_ok_def book_at_cong [OF books_simps(6)] split: side.splits)
    next
      case (pilot t)
      note trd = pilot(2) [unfolded od]
      from pilot(1) F(1) have ch: "choose_best s (first_of (other_side s (book_at ?e i)))
          (colony_quote pw ?e i s) = Some (False, f_price fi, avail)" by simp
      from pilot_fill [OF ch oke] obtain maker rest where mk: "other_side s (book_at ?e i) = maker # rest"
        "f_price fi = o_price maker" "avail = o_qty maker" "0 < avail" .
      from trade_book_Some [OF trd] mk(1) obtain esc where b:
        "if s = Sell then o_escrow maker = ?v + esc else esc = o_escrow maker"
        "book_at e1 i = set_other_side s
           ((if o_qty maker - f_qty fi = 0 then [] else [maker\<lparr>o_qty := o_qty maker - f_qty fi, o_escrow := esc\<rparr>]) @ rest)
           (book_at ?e i)" by auto
      have "book_ok i m (book_at e1 i)"
        unfolding b(2) by (rule book_ok_trade [OF books_okD [OF oke] mk(1)]) (use q mk b in simp_all)
      moreover have "book_ok j m (book_at e1 j)" if "j \<noteq> i" for j
        using book_at_trade_book_other [OF trd that] books_okD [OF oke, of j] by simp
      ultimately have "books_ok m e1" unfolding books_ok_def by metis
      with pilot(3) mk(4) seq_trade_book [OF trd] od show ?thesis by (cases s) simp_all
    qed
    have "books_ok m e'"
      using keeps by (subst F(11)) (simp add: books_ok_def book_at_def)
    moreover have "seq e' = seq e" using keeps by (subst F(11)) simp
    moreover have "fill_fair od fi"
      using keeps F(2,3,4,5) ok(3) fee_on_bp [OF F(7)] od
      by (auto simp: fill_fair_def crosses_def split: side.splits)
    ultimately show "books_ok m e' \<and> order_ok i s od' \<and> fill_fair od fi \<and> seq e' = seq e
        \<and> o_qty od' + f_qty fi = o_qty od
        \<and> o_id od' = o_id od \<and> o_trader od' = o_trader od \<and> o_price od' = o_price od \<and> o_seq od' = o_seq od"
      using okd od' q(1) by simp
  qed
  then show "books_ok m e'" and "order_ok i s od'" and "fill_fair od fi" and "seq e' = seq e"
    and "o_qty od' + f_qty fi = o_qty od"
    and "o_id od' = o_id od \<and> o_trader od' = o_trader od \<and> o_price od' = o_price od \<and> o_seq od' = o_seq od"
    by simp_all
qed

section \<open>Matching an order to the end\<close>

lemma match_all_rule [consumes 1, case_names Done Stop Fill]:
  assumes "match_all pw od e = Some (fls, od', e')"
    and "\<And>od e. o_qty od = 0 \<Longrightarrow> P od e [] od e"
    and "\<And>od e e'. 0 < o_qty od \<Longrightarrow> match_one pw od e = NoMatch e' \<Longrightarrow> P od e [] od e'"
    and "\<And>od e fi od1 e1 fls od' e'. 0 < o_qty od \<Longrightarrow> match_one pw od e = Filled fi od1 e1 \<Longrightarrow>
           match_all pw od1 e1 = Some (fls, od', e') \<Longrightarrow> P od1 e1 fls od' e' \<Longrightarrow> P od e (fi # fls) od' e'"
  shows "P od e fls od' e'"
  using assms
proof (induction pw od e arbitrary: fls od' e' rule: match_all.induct)
  case (1 pw od e)
  show ?case
  proof (cases "0 < o_qty od")
    case False
    with "1.prems"(1,2) show ?thesis by (simp add: match_all.simps [of pw od e])
  next
    case True
    show ?thesis
    proof (cases "match_one pw od e")
      case Panic
      with True "1.prems"(1) show ?thesis by (simp add: match_all.simps [of pw od e])
    next
      case (NoMatch e2)
      with True "1.prems"(1) "1.prems"(3) [OF True NoMatch] show ?thesis by (auto simp: match_all.simps [of pw od e])
    next
      case (Filled fi od1 e1)
      with True have "match_all pw od e = map_option (\<lambda>(fls, r). (fi # fls, r)) (match_all pw od1 e1)"
        by (subst match_all.simps) simp
      with "1.prems"(1) obtain fls' where m: "match_all pw od1 e1 = Some (fls', od', e')" "fls = fi # fls'"
        by (cases "match_all pw od1 e1") auto
      show ?thesis
        unfolding m(2) by (rule "1.prems"(4) [OF True Filled m(1) "1.IH" [OF True Filled m(1) "1.prems"(2-4)]])
    qed
  qed
qed


lemma side_ok_best:
  assumes "side_ok i n s (x # xs)" and "r \<in> set (x # xs)"
  shows "case s of Buy \<Rightarrow> o_price r \<le> o_price x | Sell \<Rightarrow> o_price x \<le> o_price r"
  using assms by (cases s) (auto simp: side_ok_def order_key_def)

lemma match_one_NoMatch:
  assumes "match_one pw od e = NoMatch e'" and "books_ok m e" and "o_side od = s" and "o_item od = i"
  shows "e' = open_book i e" and "\<forall>r\<in>set (other_side s (book_at e i)). \<not> crosses s (o_price r) (o_price od)"
proof -
  let ?l = "other_side s (book_at e i)" and ?c = "colony_quote pw (open_book i e) i s"
  from assms(1,3,4) show "e' = open_book i e"
    by (auto simp: match_one_def Let_def split: option.splits prod.splits if_splits)
  have ch: "(case choose_best s (first_of ?l) ?c of None \<Rightarrow> True | Some (col, p, n) \<Rightarrow> \<not> crosses s p (o_price od))"
    using assms(1,3,4) by (auto simp: match_one_def Let_def split: option.splits prod.splits if_splits)
  show "\<forall>r\<in>set ?l. \<not> crosses s (o_price r) (o_price od)"
  proof (cases ?l)
    case (Cons x xs)
    have "\<not> crosses s (o_price x) (o_price od)"
      using ch Cons
      by (cases ?c; cases s) (auto simp: first_of_def crosses_def better_def split: if_splits)
    moreover have "side_ok i m (case s of Buy \<Rightarrow> Sell | Sell \<Rightarrow> Buy) (x # xs)"
      using book_ok_other [OF books_okD [OF assms(2)], of i s] Cons by simp
    ultimately show ?thesis
      unfolding Cons using side_ok_best [of i m _ x xs] by (cases s) (fastforce simp: crosses_def)+
  qed simp
qed

lemma match_all_no_panic:
  "books_ok m e \<Longrightarrow> order_ok i s od \<Longrightarrow> desk_capped i \<Longrightarrow> match_all pw od e \<noteq> None"
proof (induction pw od e rule: match_all.induct)
  case (1 pw od e)
  show ?case
  proof (cases "0 < o_qty od")
    case True
    show ?thesis
    proof (cases "match_one pw od e")
      case Panic
      with match_one_no_panic [OF 1(2,3,4)] show ?thesis by blast
    next
      case (NoMatch e2)
      with True show ?thesis by (subst match_all.simps) simp
    next
      case (Filled fi od1 e1)
      from "1.IH" [OF True Filled] match_one_keeps(1,2) [OF Filled 1(2,3) True] 1(4)
      show ?thesis using True Filled by (subst match_all.simps) simp
    qed
  qed (subst match_all.simps, simp)
qed

text \<open>Everything a whole match does, in one statement.\<close>

definition same_order :: "order \<Rightarrow> order \<Rightarrow> bool" where
  "same_order a b \<longleftrightarrow> o_id a = o_id b \<and> o_trader a = o_trader b \<and> o_item a = o_item b \<and> o_side a = o_side b
     \<and> o_price a = o_price b \<and> o_seq a = o_seq b"

lemma fill_fair_same: "same_order a b \<Longrightarrow> fill_fair a = fill_fair b"
  by (cases "o_side b") (auto simp: fill_fair_def same_order_def fun_eq_iff)

lemma match_all_keeps:
  assumes "match_all pw od e = Some (fls, od', e')" and "books_ok m e" and "order_ok i s od"
  shows "books_ok m e' \<and> order_ok i s od' \<and> seq e' = seq e \<and> same_order od' od
       \<and> list_all (fill_fair od) fls \<and> o_qty od' + sum_list (map f_qty fls) = o_qty od
       \<and> (0 < o_qty od' \<longrightarrow> (\<forall>r\<in>set (other_side s (book_at e' i)). \<not> crosses s (o_price r) (o_price od)))"
  using assms
proof (induction rule: match_all_rule)
  case (Done od e)
  then show ?case by (simp add: same_order_def)
next
  case (Stop od e e')
  then have od: "o_side od = s" "o_item od = i" by (simp_all add: order_ok_def)
  from match_one_NoMatch [OF Stop(2) Stop(3) od] Stop show ?case
    by (simp add: same_order_def books_ok_def)
next
  case (Fill od e fi od1 e1 fls od' e')
  note k = match_one_keeps [OF Fill(2,5,6,1)]
  from Fill(6) k(2) have "o_item od1 = o_item od" "o_side od1 = o_side od" by (auto simp: order_ok_def)
  with k(6) have sm: "same_order od1 od" by (simp add: same_order_def)
  from Fill(4) [OF k(1,2)] k sm fill_fair_same [OF sm] show ?case
    by (auto simp: same_order_def)
qed

lemma match_all_ledger:
  assumes "match_all pw od e = Some (fls, od', e')" and "books_ok m e" and "order_ok i s od"
  shows "cr.total e' + order_credits od' + fees e' + colony_took e' + colony_paid e
       = cr.total e + order_credits od + colony_paid e' + fees e + colony_took e
    \<and> gd.total g e' + order_goods g od' + sum_list (map (to_colony g) fls)
       = gd.total g e + order_goods g od + sum_list (map (from_colony g) fls)"
  using assms
proof (induction rule: match_all_rule)
  case (Stop od e e')
  then have od: "o_side od = s" "o_item od = i" by (simp_all add: order_ok_def)
  from match_one_NoMatch(1) [OF Stop(2) Stop(3) od] show ?case by simp
next
  case (Fill od e fi od1 e1 fls od' e')
  note k = match_one_keeps [OF Fill(2,5,6,1)] and l = match_one_ledger [OF Fill(2,5,6)]
  from Fill(4) [OF k(1,2)] l(1) l(2) [of g] show ?case by simp
qed simp

section \<open>Resting\<close>

lemma put_before_insert_by:
  assumes "\<forall>r\<in>set xs. o_seq r < o_seq od"
  shows "put_before (case s of Buy \<Rightarrow> \<lambda>r. o_price r < o_price od | Sell \<Rightarrow> \<lambda>r. o_price od < o_price r) od xs
       = insert_by (order_key s) od xs"
proof -
  let ?P = "case s of Buy \<Rightarrow> \<lambda>r. o_price r < o_price od | Sell \<Rightarrow> \<lambda>r. o_price od < o_price r"
  have pos: "position P ys = position Q ys" if "\<And>r. r \<in> set ys \<Longrightarrow> P r = Q r" for P Q :: "order \<Rightarrow> bool" and ys
    using that by (induction ys) auto
  have "?P r = (order_key s od < order_key s r)" if "r \<in> set xs" for r
    using assms that by (cases s) (fastforce simp: order_key_def)+
  then have "position ?P xs = position (\<lambda>r. order_key s od < order_key s r) xs" by (rule pos)
  then show ?thesis by (simp add: put_before_def insert_by_def)
qed

lemma side_ok_insert:
  assumes "side_ok i n s xs" and "order_ok i s od" and "0 < o_qty od" and "n < o_seq od"
  shows "side_ok i (o_seq od) s (insert_by (order_key s) od xs)"
  using assms by (auto simp: side_ok_def list_all_iff sorted_insert_by)

lemma books_ok_rest:
  assumes "books_ok n e" and "order_ok i s od" and "0 < o_qty od" and "n < o_seq od"
    and "\<forall>r\<in>set (other_side s (book_at e i)). \<not> crosses s (o_price r) (o_price od)"
  shows "books_ok (o_seq od) (rest_order od e)"
proof -
  let ?b = "book_at e i"
  have od: "o_item od = i" "o_side od = s" using assms(2) by (simp_all add: order_ok_def)
  have old: "book_ok j n (book_at e j)" for j by (rule books_okD [OF assms(1)])
  have lt: "\<forall>r\<in>set (bids ?b). o_seq r < o_seq od" "\<forall>r\<in>set (asks ?b). o_seq r < o_seq od"
    using old [of i] assms(4) by (auto simp: book_ok_def side_ok_def list_all_iff)
  have "book_ok i (o_seq od) (book_insert od ?b)"
  proof (cases s)
    case Buy
    have "put_before (\<lambda>r. o_price r < o_price od) od (bids ?b) = insert_by (order_key Buy) od (bids ?b)"
      using put_before_insert_by [OF lt(1), of Buy] by simp
    with Buy od assms old [of i] show ?thesis
      by (auto simp: book_ok_def book_insert_def uncrossed_def crosses_def other_side_def not_le
          intro: side_ok_insert side_ok_mono)
  next
    case Sell
    have "put_before (\<lambda>r. o_price od < o_price r) od (asks ?b) = insert_by (order_key Sell) od (asks ?b)"
      using put_before_insert_by [OF lt(2), of Sell] by simp
    with Sell od assms old [of i] show ?thesis
      by (auto simp: book_ok_def book_insert_def uncrossed_def crosses_def other_side_def not_le
          intro: side_ok_insert side_ok_mono)
  qed
  moreover have "book_at (rest_order od e) j = (if j = i then book_insert od ?b else book_at e j)" for j
    by (simp add: rest_order_def od book_at_def)
  ultimately show ?thesis
    using book_ok_mono [OF old, of "o_seq od"] assms(4) by (simp add: books_ok_def)
qed


section \<open>What is held, as the exchange itself counts it\<close>

definition credits_held :: "exchange \<Rightarrow> nat" where
  "credits_held e = bsum ac_credits (accounts e) + fst (escrowed e)"

definition goods_held :: "item \<Rightarrow> exchange \<Rightarrow> nat" where
  "goods_held g e = bsum (account_goods g) (accounts e) + bor 0 (bget (snd (escrowed e)) g)"

lemma book_ok_weights:
  assumes "book_ok i n b"
  shows "cr.wb b = sum_list (map o_escrow (bids b))"
    and "gd.wb g b = sum_list (map (\<lambda>od. if o_item od = g then o_qty od else 0) (asks b))"
proof -
  from assms have "o_side od = Buy" if "od \<in> set (bids b)" for od
    using that by (auto simp: book_ok_def side_ok_def list_all_iff order_ok_def)
  moreover from assms have "o_side od = Sell" if "od \<in> set (asks b)" for od
    using that by (auto simp: book_ok_def side_ok_def list_all_iff order_ok_def)
  ultimately have w: "map order_credits (bids b) = map o_escrow (bids b)" "map order_credits (asks b) = map (\<lambda>_. 0) (asks b)"
    "map (order_goods g) (bids b) = map (\<lambda>_. 0) (bids b)"
    "map (order_goods g) (asks b) = map (\<lambda>od. if o_item od = g then o_qty od else 0) (asks b)"
    by (simp_all add: order_credits_def order_goods_def)
  show "cr.wb b = sum_list (map o_escrow (bids b))"
    "gd.wb g b = sum_list (map (\<lambda>od. if o_item od = g then o_qty od else 0) (asks b))"
    unfolding cr.wb_def gd.wb_def map_append sum_list_append w by simp_all
qed

lemma fold_goods:
  "bor 0 (bget (fold (\<lambda>od. bupd 0 (\<lambda>n. n + o_qty od) (o_item od)) ods m) g)
     = bor 0 (bget m g) + sum_list (map (\<lambda>od. if o_item od = g then o_qty od else 0) ods)"
  by (induction ods arbitrary: m) auto

lemma held_totals:
  assumes "exchange_ok e"
  shows "credits_held e = cr.total e" and "goods_held g e = gd.total g e"
proof -
  have ok: "book_ok i (seq e) b" if "bget (books e) i = Some b" for i b
    using exchange_okD [OF assms, of i] that by (simp add: book_at_def)
  have "bsum cr.wb (books e) = bsum (\<lambda>b. sum_list (map o_escrow (bids b))) (books e)"
    by (rule bsum_cong) (rule book_ok_weights(1) [OF ok])
  then show "credits_held e = cr.total e"
    by (simp add: credits_held_def cr.total_def escrowed_def bsum_def)
  have "bsum (gd.wb g) (books e) = bsum (\<lambda>b. sum_list (map (\<lambda>od. if o_item od = g then o_qty od else 0) (asks b))) (books e)"
    by (rule bsum_cong) (rule book_ok_weights(2) [OF ok])
  moreover have "sum_list (map f (concat (map asks bs))) = sum_list (map (\<lambda>b. sum_list (map f (asks b))) bs)"
    for f :: "order \<Rightarrow> nat" and bs by (induction bs) simp_all
  ultimately show "goods_held g e = gd.total g e"
    by (simp add: goods_held_def gd.total_def escrowed_def bsum_def fold_goods)
qed

section \<open>Placing an order\<close>

lemma new_order_ok:
  assumes "place_refused t i s price qty escrow rest e = None" and "escrow \<le> FEE_CAP"
  shows "order_ok i s (new_order t i s price qty escrow e)" and "0 < qty"
  using assms by (auto simp: place_refused_def new_order_def order_ok_def escrow_for_def split: if_splits side.split)

lemma place_cases:
  assumes "place pw t i s price qty escrow rest e = Some (r, e')"
  obtains (refused) x where "r = Inl x" "e' = e" "place_refused t i s price qty escrow rest e = Some x"
  | (rests) fls od e1 where "place_refused t i s price qty escrow rest e = None"
      "match_all pw (new_order t i s price qty escrow e) (e\<lparr>seq := seq e + 1, next_id := next_id e + 1\<rparr>)
         = Some (fls, od, e1)"
      "r = Inr \<lparr>p_fills = fls, p_resting = Some (o_id od)\<rparr>" "e' = rest_order od e1" "0 < o_qty od" "rest"
  | (returns) fls od e1 where "place_refused t i s price qty escrow rest e = None"
      "match_all pw (new_order t i s price qty escrow e) (e\<lparr>seq := seq e + 1, next_id := next_id e + 1\<rparr>)
         = Some (fls, od, e1)"
      "r = Inr \<lparr>p_fills = fls, p_resting = None\<rparr>" "e' = hand_back od e1" "o_qty od = 0 \<or> \<not> rest"
  using assms by (auto simp: place_def split: option.splits if_splits)

lemma books_ok_bump: "exchange_ok e \<Longrightarrow> books_ok (seq e) (e\<lparr>seq := k, next_id := j\<rparr>)"
  by (simp add: exchange_ok_def books_ok_def book_at_def)

lemma place_outcome:
  assumes "place pw t i s price qty escrow rest e = Some (Inr pl, e')" and "exchange_ok e" and "escrow \<le> FEE_CAP"
  obtains od e1 where
    "match_all pw (new_order t i s price qty escrow e) (e\<lparr>seq := seq e + 1, next_id := next_id e + 1\<rparr>)
       = Some (p_fills pl, od, e1)"
    "books_ok (seq e) (e\<lparr>seq := seq e + 1, next_id := next_id e + 1\<rparr>)"
    "order_ok i s (new_order t i s price qty escrow e)"
    "e' = rest_order od e1 \<and> rest \<and> 0 < o_qty od \<and> p_resting pl = Some (o_id od)
     \<or> e' = hand_back od e1 \<and> (o_qty od = 0 \<or> \<not> rest) \<and> p_resting pl = None"
  using assms(1)
proof (cases rule: place_cases)
  case (rests fls od e1)
  with that new_order_ok(1) [OF rests(1) assms(3)] books_ok_bump [OF assms(2)] show ?thesis by auto
next
  case (returns fls od e1)
  with that new_order_ok(1) [OF returns(1) assms(3)] books_ok_bump [OF assms(2)] show ?thesis by auto
qed simp

lemma place_exchange_ok:
  assumes "place pw t i s price qty escrow rest e = Some (r, e')" and "exchange_ok e" and "escrow \<le> FEE_CAP"
  shows "exchange_ok e'"
proof (cases r)
  case (Inl x)
  with assms(1,2) show ?thesis by (auto elim: place_cases)
next
  case (Inr pl)
  from place_outcome [OF assms(1) [unfolded Inr] assms(2,3)] obtain od e1 where
    m: "match_all pw (new_order t i s price qty escrow e) (e\<lparr>seq := seq e + 1, next_id := next_id e + 1\<rparr>)
       = Some (p_fills pl, od, e1)"
    and ok: "books_ok (seq e) (e\<lparr>seq := seq e + 1, next_id := next_id e + 1\<rparr>)"
      "order_ok i s (new_order t i s price qty escrow e)"
    and e': "e' = rest_order od e1 \<and> 0 < o_qty od \<or> e' = hand_back od e1"
    by blast
  note k = match_all_keeps [OF m ok]
  then have sq: "seq e1 = seq e + 1" "o_seq od = seq e + 1"
    by (simp_all add: same_order_def new_order_def)
  from e' show ?thesis
  proof (elim disjE conjE)
    assume r: "e' = rest_order od e1" "0 < o_qty od"
    with k have nc: "\<forall>r\<in>set (other_side s (book_at e1 i)). \<not> crosses s (o_price r) (o_price od)"
      by (simp add: same_order_def)
    have "books_ok (o_seq od) (rest_order od e1)"
      by (rule books_ok_rest [OF _ _ r(2) _ nc]) (use k sq in auto)
    with r sq show ?thesis by (simp add: exchange_ok_def)
  next
    assume "e' = hand_back od e1"
    with k sq show ?thesis
      by (simp add: exchange_ok_def books_ok_def book_at_def book_ok_mono [of _ "seq e"])
  qed
qed

lemma exchange_empty_ok: "exchange_ok \<lparr>books = bempty, colony = c, accounts = bempty, tapes = bempty,
    next_id = k, seq = n, clock = x, next_sample = y, fees = a, colony_paid = p, colony_took = q\<rparr>"
  by (simp add: exchange_ok_def books_ok_def book_at_def)

abbreviation no_trades :: exchange where
  "no_trades \<equiv> \<lparr>books = bempty, colony = bempty, accounts = bempty, tapes = bempty,
    next_id = 1, seq = 0, clock = 0, next_sample = 0, fees = 0, colony_paid = 0, colony_took = 0\<rparr>"

lemmas place_eval = place_def place_refused_def orders_of_def all_orders_def bvals_def MAX_PRICE_def MAX_QTY_def
  MAX_ORDERS_def new_order_def match_all.simps match_one_def book_at_def open_book_def book_empty_def
  other_side_def first_of_def rest_order_def book_insert_def put_before_def insert_at_def escrow_for_def
  worth_def sat64_def u64_max_def crosses_def trade_def trade_book_def set_other_side_def sub_ck_def
  fee_on_def mul_ck_def FEE_BP_def opt_do_def pay_buyer_def pay_seller_def at_account_def record_trade_def
  hand_back_def returned_def add_goods_def account_empty_def account_is_empty_def tape_empty_def
  Let_def bupd_def

lemma no_desk: "colony_quote pw e SIDERIUM s = None"
  by (simp add: colony_quote_def desk_for_def)

text \<open>An exchange with one sale on offer, and a pilot who buys from it.\<close>

abbreviation one_ask :: exchange where
  "one_ask \<equiv> no_trades\<lparr>books := bput SIDERIUM \<lparr>bids = [], asks = [\<lparr>o_id = 1, o_trader = ''bob'',
      o_item = SIDERIUM, o_side = Sell, o_price = 400, o_qty = 3000, o_escrow = 0, o_seq = 1\<rparr>]\<rparr> bempty,
      next_id := 2, seq := 1\<rparr>"

abbreviation ann_fill :: fill where
  "ann_fill \<equiv> \<lparr>f_item = SIDERIUM, f_price = 400, f_qty = 2000, f_buyer = Some ''ann'',
      f_seller = Some ''bob'', f_fee = 16\<rparr>"

abbreviation pw0 :: "rat \<Rightarrow> rat \<Rightarrow> rat" where
  "pw0 \<equiv> \<lambda>x y. x"

lemma bob_sells: "place pw ''bob'' SIDERIUM Sell 400 3000 0 True no_trades
    = Some (Inr \<lparr>p_fills = [], p_resting = Some 1\<rparr>, one_ask)"
  by (simp add: place_eval no_desk)

lemma ann_buys: "\<exists>e'. place pw ''ann'' SIDERIUM Buy 500 2000 1000 True one_ask
    = Some (Inr \<lparr>p_fills = [ann_fill], p_resting = None\<rparr>, e') \<and> fees e' = 16"
  by (simp add: place_eval no_desk)

lemma escrow_1000: "1000 \<le> FEE_CAP" "0 \<le> FEE_CAP"
  by (simp_all add: FEE_CAP_def u64_max_def FEE_BP_def)

lemma one_ask_ok: "exchange_ok one_ask"
  using place_exchange_ok [OF bob_sells exchange_empty_ok escrow_1000(2)] by simp



lemma place_ledger:
  assumes "place pw t i s price qty escrow rest e = Some (r, e')" and "exchange_ok e" and "escrow \<le> FEE_CAP"
  shows "case r of
      Inl _ \<Rightarrow> e' = e
    | Inr _ \<Rightarrow> credits_held e' + fees e' + colony_took e' + colony_paid e
        = credits_held e + (if s = Buy then escrow else 0) + colony_paid e' + fees e + colony_took e"
proof (cases r)
  case (Inl x)
  with assms(1) show ?thesis by (auto elim: place_cases)
next
  case (Inr pl)
  let ?e0 = "e\<lparr>seq := seq e + 1, next_id := next_id e + 1\<rparr>"
  from place_outcome [OF assms(1) [unfolded Inr] assms(2,3)] obtain od e1 where
    m: "match_all pw (new_order t i s price qty escrow e) ?e0 = Some (p_fills pl, od, e1)"
    and ok: "books_ok (seq e) ?e0" "order_ok i s (new_order t i s price qty escrow e)"
    and e': "e' = rest_order od e1 \<or> e' = hand_back od e1" by blast
  from e' have "cr.total e' = cr.total e1 + order_credits od \<and> fees e' = fees e1
      \<and> colony_took e' = colony_took e1 \<and> colony_paid e' = colony_paid e1"
    by (auto simp: cr.total_rest cr.total_hand_back)
  moreover have "order_credits (new_order t i s price qty escrow e) = (if s = Buy then escrow else 0)"
    by (cases s) (simp_all add: order_credits_def new_order_def)
  ultimately show ?thesis
    using match_all_ledger [OF m ok] Inr held_totals(1) [OF assms(2)]
      held_totals(1) [OF place_exchange_ok [OF assms]] by simp
qed

text \<open>C1: credits are conserved to the credit: whatever an order does, the credits in the accounts
  and in escrow change by exactly the escrow handed over, what the colony paid out and took in, and
  the fees; a refused order changes nothing.\<close>

theorem place_conserves_credits:
  assumes "place pw t i s price qty escrow rest e = Some (r, e')" and "exchange_ok e" and "escrow \<le> FEE_CAP"
  shows "case r of
      Inl _ \<Rightarrow> e' = e
    | Inr _ \<Rightarrow> credits_held e' + fees e' + colony_took e' + colony_paid e
        = credits_held e + (if s = Buy then escrow else 0) + colony_paid e' + fees e + colony_took e"
  by (rule place_ledger [OF assms])

theorem place_conserves_credits_witness:
  "\<exists>e'. place pw0 ''ann'' SIDERIUM Buy 500 2000 1000 True one_ask
      = Some (Inr \<lparr>p_fills = [ann_fill], p_resting = None\<rparr>, e')
    \<and> credits_held e' + 16 + colony_took e' = credits_held one_ask + 1000 + colony_paid e'"
proof -
  from ann_buys [of pw0] obtain e' where b: "place pw0 ''ann'' SIDERIUM Buy 500 2000 1000 True one_ask
      = Some (Inr \<lparr>p_fills = [ann_fill], p_resting = None\<rparr>, e')" "fees e' = 16" by blast
  from place_conserves_credits [OF b(1) one_ask_ok escrow_1000(1)] b show ?thesis by simp
qed

text \<open>C2: goods are conserved too: of every item, what is in the accounts and on offer grows by what
  the order puts up for sale and what the colony sells in its fills, less what the colony buys.\<close>

theorem place_conserves_goods:
  assumes "place pw t i s price qty escrow rest e = Some (Inr pl, e')" and "exchange_ok e" and "escrow \<le> FEE_CAP"
  shows "goods_held g e' + sum_list (map (to_colony g) (p_fills pl))
       = goods_held g e + (if s = Sell \<and> i = g then qty else 0) + sum_list (map (from_colony g) (p_fills pl))"
proof -
  let ?e0 = "e\<lparr>seq := seq e + 1, next_id := next_id e + 1\<rparr>"
  from place_outcome [OF assms] obtain od e1 where
    m: "match_all pw (new_order t i s price qty escrow e) ?e0 = Some (p_fills pl, od, e1)"
    and ok: "books_ok (seq e) ?e0" "order_ok i s (new_order t i s price qty escrow e)"
    and e': "e' = rest_order od e1 \<or> e' = hand_back od e1" by blast
  from e' have "gd.total g e' = gd.total g e1 + order_goods g od"
    by (auto simp: gd.total_rest gd.total_hand_back)
  moreover have "order_goods g (new_order t i s price qty escrow e) = (if s = Sell \<and> i = g then qty else 0)"
    by (cases s) (simp_all add: order_goods_def new_order_def)
  ultimately show ?thesis
    using match_all_ledger [OF m ok, of g] held_totals(2) [OF assms(2), of g]
      held_totals(2) [OF place_exchange_ok [OF assms], of g] by simp
qed


theorem place_conserves_goods_witness:
  "\<exists>e'. place pw0 ''ann'' SIDERIUM Buy 500 2000 1000 True one_ask
      = Some (Inr \<lparr>p_fills = [ann_fill], p_resting = None\<rparr>, e')
    \<and> goods_held SIDERIUM e' = goods_held SIDERIUM one_ask"
proof -
  from ann_buys [of pw0] obtain e' where b: "place pw0 ''ann'' SIDERIUM Buy 500 2000 1000 True one_ask
      = Some (Inr \<lparr>p_fills = [ann_fill], p_resting = None\<rparr>, e')" by blast
  from place_conserves_goods [OF b one_ask_ok escrow_1000(1), of SIDERIUM] b show ?thesis
    by (simp add: to_colony_def from_colony_def)
qed

text \<open>C12: an order gets what it asked for or better: every fill is of its item, at its limit or
  better, names it on its own side and takes a fee of at most 2%; the fills together never exceed
  the quantity; it rests only if the caller lets it and something is left, and if nothing is left
  nothing rests.\<close>

theorem place_fills_fair:
  assumes "place pw t i s price qty escrow rest e = Some (Inr pl, e')" and "exchange_ok e" and "escrow \<le> FEE_CAP"
  shows "list_all (fill_fair (new_order t i s price qty escrow e)) (p_fills pl)
       \<and> sum_list (map f_qty (p_fills pl)) \<le> qty
       \<and> (p_resting pl = (if rest \<and> sum_list (map f_qty (p_fills pl)) < qty then Some (next_id e) else None))"
proof -
  let ?e0 = "e\<lparr>seq := seq e + 1, next_id := next_id e + 1\<rparr>"
  from place_outcome [OF assms] obtain od e1 where
    m: "match_all pw (new_order t i s price qty escrow e) ?e0 = Some (p_fills pl, od, e1)"
    and ok: "books_ok (seq e) ?e0" "order_ok i s (new_order t i s price qty escrow e)"
    and r: "rest \<and> 0 < o_qty od \<and> p_resting pl = Some (o_id od) \<or> (o_qty od = 0 \<or> \<not> rest) \<and> p_resting pl = None"
    by blast
  from match_all_keeps [OF m ok] r show ?thesis by (auto simp: same_order_def new_order_def)
qed

theorem place_fills_fair_witness:
  "fill_fair (new_order ''ann'' SIDERIUM Buy 500 2000 1000 one_ask) ann_fill"
proof -
  from ann_buys [of pw0] obtain e' where b: "place pw0 ''ann'' SIDERIUM Buy 500 2000 1000 True one_ask
      = Some (Inr \<lparr>p_fills = [ann_fill], p_resting = None\<rparr>, e')" by blast
  from place_fills_fair [OF b one_ask_ok escrow_1000(1)] show ?thesis by simp
qed

section \<open>Lodestar technology\<close>

lemma lodestar_no_quote: "lodestar_tech i \<Longrightarrow> colony_quote pw e i s = None"
  by (simp add: colony_quote_def desk_for_def)

lemma colony_simps [simp]:
  "colony (at_account f t e) = colony e" "colony (hand_back od e) = colony e"
  "colony (record_trade i p n e) = colony e" "colony (pay_buyer i n v t e) = colony e"
  "colony (pay_seller i n v fee t e) = colony e" "colony (open_book i e) = colony e"
  "colony (rest_order od e) = colony e"
  by (simp_all add: at_account_def hand_back_def record_trade_def pay_buyer_def pay_seller_def
      open_book_def rest_order_def Let_def)

lemma colony_trade_book: "trade_book s i q v e = Some (t, e') \<Longrightarrow> colony e' = colony e"
  by (auto simp: trade_book_def Let_def split: list.splits option.splits if_split_asm)

definition between_pilots :: "fill \<Rightarrow> bool" where
  "between_pilots fi \<longleftrightarrow> f_buyer fi \<noteq> None \<and> f_seller fi \<noteq> None"

lemma match_one_lodestar:
  assumes "match_one pw od e = Filled fi od' e'" and "lodestar_tech (o_item od)"
  shows "between_pilots fi \<and> colony e' = colony e \<and> o_item od' = o_item od"
  using assms(1)
proof (cases rule: match_one_FilledE)
  case (1 col avail e1 fee)
  have od': "o_item od' = o_item od" by (subst 1(9)) simp
  from 1(1) have "\<not> col" using choose_best_Some lodestar_no_quote [OF assms(2)] by fastforce
  with 1(6) obtain t where "trade_book (o_side od) (o_item od) (f_qty fi)
      (worth (o_item od) (f_price fi) (f_qty fi)) (open_book (o_item od) e) = Some (t, e1)"
    "(f_buyer fi, f_seller fi) = (case o_side od of Buy \<Rightarrow> (Some (o_trader od), Some t) | Sell \<Rightarrow> (Some t, Some (o_trader od)))"
    by (auto elim: trade_cases)
  then show ?thesis
    using od' colony_trade_book
    by (subst 1(11)) (cases "o_side od"; auto simp: between_pilots_def opt_do_def)
qed

lemma match_all_lodestar:
  assumes "match_all pw od e = Some (fls, od', e')" and "lodestar_tech (o_item od)"
  shows "list_all between_pilots fls \<and> colony e' = colony e"
  using assms
proof (induction rule: match_all_rule)
  case (Stop od e e')
  then show ?case by (auto simp: match_one_def Let_def split: option.splits prod.splits if_splits)
next
  case (Fill od e fi od1 e1 fls od' e')
  with match_one_lodestar [OF Fill(2) Fill(5)] show ?case by simp
qed simp

text \<open>The colony never deals in Lodestar technology: an order for it trades only with other
  pilots, and the colony's stock is what it was.\<close>

theorem lodestar_only_between_pilots:
  assumes "place pw t i s price qty escrow rest e = Some (Inr pl, e')" and "lodestar_tech i"
  shows "list_all between_pilots (p_fills pl) \<and> colony e' = colony e"
  using assms(1)
proof (cases rule: place_cases)
  case (rests fls od e1)
  with match_all_lodestar [OF rests(2)] assms(2) show ?thesis by (simp add: new_order_def)
next
  case (returns fls od e1)
  with match_all_lodestar [OF returns(2)] assms(2) show ?thesis by (simp add: new_order_def)
qed simp

theorem lodestar_only_between_pilots_witness: "between_pilots ann_fill"
proof -
  from ann_buys [of pw0] obtain e' where b: "place pw0 ''ann'' SIDERIUM Buy 500 2000 1000 True one_ask
      = Some (Inr \<lparr>p_fills = [ann_fill], p_resting = None\<rparr>, e')" by blast
  from lodestar_only_between_pilots [OF b] show ?thesis by simp
qed

text \<open>The colony's spread never pays a round trip: whatever \<open>powf\<close> gives, its bid is at most its
  ask at the same stock.\<close>

theorem colony_bid_at_most_ask:
  assumes "colony_quote pw e i Sell = Some (bid, n)" and "colony_quote pw e i Buy = Some (ask, m)"
    and "\<exists>d. desk_for i = Some d \<and> 0 < d_base d"
  shows "bid \<le> ask"
proof -
  from assms(3) obtain d where d: "desk_for i = Some d" "0 < d_base d" by blast
  with assms(1,2) have "colony_price pw d (held_of e i) Sell = Some bid"
    "colony_price pw d (held_of e i) Buy = Some ask"
    by (auto simp: colony_quote_def Let_def split: option.splits if_splits)
  then show ?thesis by (rule colony_bid_ask [OF _ _ d(2)])
qed


lemma propellant_desk: "desk_for PROPELLANT = Some (desk_of_value 1000 60000 True True 1)"
  by (simp add: desk_for_def)

theorem colony_bid_at_most_ask_witness:
  "\<exists>bid n ask m. colony_quote pw0 (no_trades\<lparr>colony := bput PROPELLANT 100 bempty\<rparr>) PROPELLANT Sell = Some (bid, n)
     \<and> colony_quote pw0 (no_trades\<lparr>colony := bput PROPELLANT 100 bempty\<rparr>) PROPELLANT Buy = Some (ask, m)
     \<and> bid \<le> ask"
proof -
  let ?e = "no_trades\<lparr>colony := bput PROPELLANT 100 bempty\<rparr>"
  obtain bid n where b: "colony_quote pw0 ?e PROPELLANT Sell = Some (bid, n)"
    by (simp add: colony_quote_def propellant_desk desk_of_value_def colony_price_def colony_step_def Let_def)
  obtain ask m where a: "colony_quote pw0 ?e PROPELLANT Buy = Some (ask, m)"
    by (simp add: colony_quote_def propellant_desk desk_of_value_def colony_price_def colony_step_def Let_def
        held_of_def to_nat_trunc_def u64_max_def)
  have "\<exists>d. desk_for PROPELLANT = Some d \<and> 0 < d_base d"
    by (simp add: propellant_desk desk_of_value_def)
  from colony_bid_at_most_ask [OF b a this] a b show ?thesis by blast
qed

end
