(* ===== verification/Closing.thy ===== *)
theory Closing
  imports Market
begin

text \<open>
  The rest of the exchange's day (\<open>crates/bc-econ/src/exchange.rs\<close>, \<open>cancel\<close>, \<open>cancel_all\<close>,
  \<open>collect\<close>, \<open>tick\<close>): cancelling gives an order's holding back and touches nobody else's orders;
  collecting pays out exactly what is owed; the clock's sampling loop returns and keeps every
  chart to its length.
\<close>

section \<open>Cancelling\<close>

lemma filter_remove_at_owner:
  assumes "position (is_order t k) xs = Some j"
  shows "map o_id (filter (\<lambda>od. o_trader od = t) (remove_at j xs))
       = remove1 k (map o_id (filter (\<lambda>od. o_trader od = t) xs))"
    and "u \<noteq> t \<Longrightarrow> filter (\<lambda>od. o_trader od = u) (remove_at j xs) = filter (\<lambda>od. o_trader od = u) xs"
  using assms
proof (induction xs arbitrary: j)
  case (Cons x xs)
  { case 1
    then show ?case using Cons.IH(1) by (auto simp: is_order_def remove_at_def split: if_splits) }
  { case 2
    then show ?case using Cons.IH(2) by (auto simp: is_order_def remove_at_def split: if_splits) }
qed simp_all

definition owned :: "trader \<Rightarrow> book \<Rightarrow> order list" where
  "owned t b = filter (\<lambda>od. o_trader od = t) (bids b @ asks b)"

lemma position_owner_None:
  "position (is_order t k) xs = None \<Longrightarrow> k \<notin> set (map o_id (filter (\<lambda>od. o_trader od = t) xs))"
  by (auto simp: position_None is_order_def)

lemma position_owner_Some:
  "position (is_order t k) xs = Some j \<Longrightarrow> k \<in> set (map o_id (filter (\<lambda>od. o_trader od = t) xs))"
  by (auto dest!: position_Some simp: is_order_def intro!: image_eqI [of _ _ "xs ! j"])

lemma book_cancel_owned:
  assumes "book_cancel t k b = Some (od, b')"
  shows "map o_id (owned t b') = remove1 k (map o_id (owned t b))" and "k \<in> set (map o_id (owned t b))"
    and "u \<noteq> t \<Longrightarrow> owned u b' = owned u b" and "is_order t k od"
  using assms filter_remove_at_owner [of t k "bids b"] filter_remove_at_owner [of t k "asks b"]
    position_owner_None [of t k "bids b"] position_owner_Some [of t k "bids b"] position_owner_Some [of t k "asks b"]
  by (auto simp: book_cancel_def owned_def remove1_append dest: position_Some split: option.splits)

lemma book_cancel_None: "book_cancel t k b = None \<Longrightarrow> k \<notin> set (map o_id (owned t b))"
  using position_owner_None [of t k "bids b"] position_owner_None [of t k "asks b"]
  by (auto simp: book_cancel_def owned_def split: option.splits)

lemma orders_of_owned: "orders_of t e = concat (map (owned t) (bvals (books e)))"
  by (simp add: orders_of_def all_orders_def owned_def [abs_def] filter_concat comp_def)


lemma find_cancel_owned:
  assumes "find_cancel t k bs = Some (i, od, b')" and "ssorted bs"
  shows "map o_id (concat (map (owned t) (map snd (al_put i b' bs))))
       = remove1 k (map o_id (concat (map (owned t) (map snd bs))))"
    and "u \<noteq> t \<Longrightarrow> concat (map (owned u) (map snd (al_put i b' bs))) = concat (map (owned u) (map snd bs))"
proof -
  have "map o_id (concat (map (owned t) (map snd (al_put i b' bs))))
       = remove1 k (map o_id (concat (map (owned t) (map snd bs))))
    \<and> (u \<noteq> t \<longrightarrow> concat (map (owned u) (map snd (al_put i b' bs))) = concat (map (owned u) (map snd bs)))"
    using assms
  proof (induction t k bs rule: find_cancel.induct)
    case (2 t k i0 b0 bs)
    show ?case
    proof (cases "book_cancel t k b0")
      case None
      with "2.prems" have f: "find_cancel t k bs = Some (i, od, b')" and s: "ssorted bs"
        by (simp_all add: ssorted_def)
      from f obtain b where "(i, b) \<in> set bs" by (rule find_cancel_Some)
      with "2.prems"(2) have "i0 < i" by (force simp: ssorted_def)
      then have "i \<noteq> i0" "\<not> i < i0" by auto
      with "2.IH" [OF None f s] book_cancel_None [OF None] show ?thesis
        by (simp add: remove1_append)
    next
      case (Some x)
      obtain od1 b1 where x: "x = (od1, b1)" by force
      with Some "2.prems"(1) have "i = i0" "b' = b1" by auto
      with book_cancel_owned [OF Some [unfolded x]] show ?thesis
        by (simp add: remove1_append)
    qed
  qed simp
  then show "map o_id (concat (map (owned t) (map snd (al_put i b' bs))))
       = remove1 k (map o_id (concat (map (owned t) (map snd bs))))"
    and "u \<noteq> t \<Longrightarrow> concat (map (owned u) (map snd (al_put i b' bs))) = concat (map (owned u) (map snd bs))"
    by simp_all
qed

lemma find_cancel_None:
  "find_cancel t k bs = None \<Longrightarrow> k \<notin> set (map o_id (concat (map (owned t) (map snd bs))))"
proof (induction t k bs rule: find_cancel.induct)
  case (2 t k i b bs)
  then show ?case using book_cancel_None [of t k b] by (auto split: option.splits)
qed simp

lemma cancel_orders:
  "map o_id (orders_of t (snd (ex_cancel t k e))) = remove1 k (map o_id (orders_of t e))"
  "u \<noteq> t \<Longrightarrow> orders_of u (snd (ex_cancel t k e)) = orders_of u e"
  "fst (ex_cancel t k e) \<longleftrightarrow> k \<in> set (map o_id (orders_of t e))"
proof -
  have "map o_id (orders_of t (snd (ex_cancel t k e))) = remove1 k (map o_id (orders_of t e))
    \<and> (u \<noteq> t \<longrightarrow> orders_of u (snd (ex_cancel t k e)) = orders_of u e)
    \<and> (fst (ex_cancel t k e) \<longleftrightarrow> k \<in> set (map o_id (orders_of t e)))"
  proof (cases "find_cancel t k (entries (books e))")
    case None
    with find_cancel_None [OF None] show ?thesis
      by (simp add: ex_cancel_def orders_of_owned bvals_def remove1_idem)
  next
    case (Some x)
    obtain i od b' where x: "x = (i, od, b')" by (cases x)
    note f = Some [unfolded x]
    from f obtain b where b: "(i, b) \<in> set (entries (books e))" "book_cancel t k b = Some (od, b')"
      by (rule find_cancel_Some)
    from b(1) book_cancel_owned(2) [OF b(2)] have "k \<in> set (map o_id (orders_of t e))"
      by (force simp: orders_of_owned bvals_def)
    with find_cancel_owned [OF f entries_sorted] Some x show ?thesis
      by (simp add: ex_cancel_def orders_of_owned bvals_def)
  qed
  then show "map o_id (orders_of t (snd (ex_cancel t k e))) = remove1 k (map o_id (orders_of t e))"
    "u \<noteq> t \<Longrightarrow> orders_of u (snd (ex_cancel t k e)) = orders_of u e"
    "fst (ex_cancel t k e) \<longleftrightarrow> k \<in> set (map o_id (orders_of t e))"
    by blast+
qed

lemma cancel_all_orders: "orders_of t (ex_cancel_all t e) = []"
  and cancel_all_others: "u \<noteq> t \<Longrightarrow> orders_of u (ex_cancel_all t e) = orders_of u e"
proof -
  have "map o_id (orders_of t (fold (\<lambda>k e. snd (ex_cancel t k e)) ks e)) = []"
    if "map o_id (orders_of t e) = ks" for ks e
    using that by (induction ks arbitrary: e) (simp_all add: cancel_orders(1) del: map_is_Nil_conv)
  then show "orders_of t (ex_cancel_all t e) = []" by (simp add: ex_cancel_all_def)
  have "u \<noteq> t \<Longrightarrow> orders_of u (fold (\<lambda>k e. snd (ex_cancel t k e)) ks e) = orders_of u e" for ks
    by (induction ks arbitrary: e) (simp_all add: cancel_orders(2))
  then show "u \<noteq> t \<Longrightarrow> orders_of u (ex_cancel_all t e) = orders_of u e"
    by (simp add: ex_cancel_all_def)
qed

text \<open>Cancelling loses nothing and touches nobody else: a trader's order is cancelled exactly when
  one of that id is theirs, it is then gone, everyone else's orders are as they were, and the
  credits and goods held on the exchange are the same (what was in escrow is in the account);
  cancelling them all leaves none.\<close>

theorem cancel_returns_holding:
  assumes "exchange_ok e"
  shows "(fst (ex_cancel t k e) \<longleftrightarrow> k \<in> set (map o_id (orders_of t e)))
       \<and> map o_id (orders_of t (snd (ex_cancel t k e))) = remove1 k (map o_id (orders_of t e))
       \<and> (\<forall>u. u \<noteq> t \<longrightarrow> orders_of u (snd (ex_cancel t k e)) = orders_of u e)
       \<and> credits_held (snd (ex_cancel t k e)) = credits_held e
       \<and> goods_held g (snd (ex_cancel t k e)) = goods_held g e
       \<and> exchange_ok (snd (ex_cancel t k e))
       \<and> orders_of t (ex_cancel_all t e) = [] \<and> credits_held (ex_cancel_all t e) = credits_held e"
  using cancel_orders(1,3) [of t k e] cancel_orders(2) [of _ t k e] cancel_all_orders [of t e]
    held_totals [OF assms] held_totals [OF exchange_ok_cancel [OF assms]]
    held_totals [OF exchange_ok_cancel_all [OF assms]]
  by (simp add: exchange_ok_cancel [OF assms] cr.total_cancel gd.total_cancel cr.total_cancel_all)

theorem cancel_returns_holding_witness:
  "credits_held (ex_cancel_all ''bob'' one_ask) = credits_held one_ask
   \<and> orders_of ''bob'' (ex_cancel_all ''bob'' one_ask) = []"
  using cancel_returns_holding [OF one_ask_ok, of "''bob''" 1 SIDERIUM] by blast

lemma collect_ledger:
  assumes "exchange_ok e" and "ex_collect t e = (a, e')"
  shows "credits_held e' + ac_credits a = credits_held e"
    and "goods_held g e' + account_goods g a = goods_held g e" and "exchange_ok e'"
proof -
  have ok: "exchange_ok (snd (ex_collect t e))"
    using assms(1) by (simp add: ex_collect_def exchange_ok_def books_ok_def book_at_def)
  then show "exchange_ok e'" using assms(2) by simp
  show "credits_held e' + ac_credits a = credits_held e" "goods_held g e' + account_goods g a = goods_held g e"
    using held_totals [OF assms(1)] held_totals [OF ok] cr.total_collect [of t e] gd.total_collect [of g t e] assms(2)
    by simp_all
qed

text \<open>Collecting takes exactly what is owed: the credits and goods handed over are what the
  exchange holds less, and nothing more is owed to that trader.\<close>

theorem collect_takes_what_is_owed:
  assumes "exchange_ok e" and "ex_collect t e = (a, e')"
  shows "credits_held e' + ac_credits a = credits_held e
       \<and> goods_held g e' + account_goods g a = goods_held g e
       \<and> \<not> ex_owed t e' \<and> (\<not> ex_owed t e \<longrightarrow> account_is_empty a)"
proof -
  have "\<not> ex_owed t e \<Longrightarrow> account_is_empty (fst (ex_collect t e))"
    by (auto simp: ex_owed_def ex_collect_def account_is_empty_def account_empty_def split: option.splits)
  moreover have "\<not> ex_owed t (snd (ex_collect t e))" by (simp add: ex_owed_def ex_collect_def)
  ultimately show ?thesis using collect_ledger [OF assms] assms(2) by simp
qed

theorem collect_takes_what_is_owed_witness:
  "credits_held (snd (ex_collect ''bob'' one_ask)) + ac_credits (fst (ex_collect ''bob'' one_ask))
     = credits_held one_ask"
  using collect_takes_what_is_owed [OF one_ask_ok, of "''bob''"] by (metis prod.collapse)


section \<open>The clock\<close>

definition charts_ok :: "exchange \<Rightarrow> bool" where
  "charts_ok e \<longleftrightarrow> list_all (\<lambda>t. length (tp_samples t) \<le> HISTORY) (bvals (tapes e))"

lemma push_sample_length: "length (tp_samples t) \<le> HISTORY \<Longrightarrow> length (tp_samples (push_sample p t)) \<le> HISTORY"
  by (cases "tp_samples t") (auto simp: push_sample_def Let_def HISTORY_def)

lemma charts_ok_get: "charts_ok e \<longleftrightarrow> (\<forall>i t. bget (tapes e) i = Some t \<longrightarrow> length (tp_samples t) \<le> HISTORY)"
  unfolding charts_ok_def list_all_iff Ball_def set_bvals by blast

lemma sample_item_keeps:
  "next_sample (sample_item pw i e) = next_sample e \<and> clock (sample_item pw i e) = clock e
   \<and> books (sample_item pw i e) = books e \<and> accounts (sample_item pw i e) = accounts e
   \<and> seq (sample_item pw i e) = seq e \<and> (charts_ok e \<longrightarrow> charts_ok (sample_item pw i e))"
proof -
  have "charts_ok e \<Longrightarrow> charts_ok (e\<lparr>tapes := bupd tape_empty (push_sample p) i (tapes e)\<rparr>)" for p
    unfolding charts_ok_get
    by (cases "bget (tapes e) i") (auto intro!: push_sample_length simp: tape_empty_def)
  then show ?thesis by (auto simp: sample_item_def split: option.split)
qed

lemma sample_fold_keeps:
  "next_sample (fold (sample_item pw) is e) = next_sample e \<and> clock (fold (sample_item pw) is e) = clock e
   \<and> books (fold (sample_item pw) is e) = books e \<and> accounts (fold (sample_item pw) is e) = accounts e
   \<and> seq (fold (sample_item pw) is e) = seq e \<and> (charts_ok e \<longrightarrow> charts_ok (fold (sample_item pw) is e))"
  by (induction "is" arbitrary: e) (simp_all add: sample_item_keeps)

definition quiet_step :: "exchange \<Rightarrow> exchange \<Rightarrow> bool" where
  "quiet_step e e' \<longleftrightarrow> clock e' = clock e \<and> books e' = books e \<and> accounts e' = accounts e
     \<and> seq e' = seq e \<and> (charts_ok e \<longrightarrow> charts_ok e')"

lemma sample_all_keeps:
  "quiet_step e (sample_all pw e)" "next_sample (sample_all pw e) = rn64 (next_sample e + 60)"
  using sample_fold_keeps [of pw item_all "e\<lparr>next_sample := rn64 (next_sample e + SAMPLE_SECS)\<rparr>"]
  by (simp_all add: quiet_step_def sample_all_def charts_ok_def SAMPLE_SECS_def)

lemma sample_loop_returns:
  "next_sample e = of_nat (60 * k) \<Longrightarrow> clock e < of_nat (60 * (k + n)) \<Longrightarrow> 60 * (k + n) < 2 ^ 53 \<Longrightarrow>
   \<exists>e' k'. sample_loop pw e = Some e' \<and> quiet_step e e' \<and> next_sample e' = of_nat (60 * k')
     \<and> clock e < next_sample e'"
proof (induction n arbitrary: k e)
  case 0
  then show ?case by (subst sample_loop.simps) (auto simp: quiet_step_def)
next
  case (Suc n)
  show ?case
  proof (cases "next_sample e \<le> clock e")
    case False
    with Suc.prems show ?thesis by (subst sample_loop.simps) (auto simp: quiet_step_def)
  next
    case True
    have "next_sample (sample_all pw e) = rn64 (of_nat (60 * (k + 1)))"
      using Suc.prems(1) by (simp add: sample_all_keeps(2) algebra_simps)
    also have "\<dots> = of_nat (60 * (k + 1))" using Suc.prems(3) by (intro rn64_nat) simp
    finally obtain e' k' where "sample_loop pw (sample_all pw e) = Some e'" "quiet_step (sample_all pw e) e'"
      "next_sample e' = of_nat (60 * k')" "clock (sample_all pw e) < next_sample e'"
      using Suc.IH [of "sample_all pw e" "k + 1"] Suc.prems(2,3) sample_all_keeps(1) [of e pw]
      by (auto simp: quiet_step_def)
    with True sample_all_keeps(1) [of e pw] show ?thesis
      by (subst sample_loop.simps) (auto simp: quiet_step_def)
  qed
qed

text \<open>C16: the clock always comes round: while it has run less than \<open>2 ^ 52\<close> seconds, \<open>tick\<close> returns
  with the next sample due later, every chart still at most an hour long, the books in order and
  not a credit or a kilogram of what is held changed.\<close>

theorem tick_returns:
  assumes "exchange_ok e" and "charts_ok e" and "next_sample e = of_nat (60 * k)" and "60 * k + 60 \<le> 2 ^ 52"
    and "rn64 (clock e + max dt 0) < 2 ^ 52"
  shows "\<exists>e' k'. ex_tick pw ex dt e = Some e' \<and> clock e' = rn64 (clock e + max dt 0) \<and> clock e' < next_sample e'
       \<and> next_sample e' = of_nat (60 * k') \<and> exchange_ok e' \<and> charts_ok e'
       \<and> credits_held e' = credits_held e \<and> goods_held g e' = goods_held g e"
proof -
  let ?e = "e\<lparr>clock := rn64 (clock e + max dt 0), colony := bmapv (settle_stock ex (max dt 0)) (colony e)\<rparr>"
  let ?n = "2 ^ 52 div 60 + 1 :: nat"
  have n: "60 * (k + ?n) < 2 ^ 53" "(2 ^ 52 :: nat) < 60 * (k + ?n)" using assms(4) by simp_all
  have "clock ?e < (of_nat (2 ^ 52) :: rat)" using assms(5) by simp
  also have "\<dots> < of_nat (60 * (k + ?n))" using n(2) by (simp only: of_nat_less_iff)
  finally have "clock ?e < of_nat (60 * (k + ?n))" .
  from sample_loop_returns [of ?e k ?n pw] this n(1) assms(3) obtain e' k' where
    s: "sample_loop pw ?e = Some e'" "quiet_step ?e e'" "next_sample e' = of_nat (60 * k')" "clock ?e < next_sample e'"
    by auto
  from s(2) have eq: "books e' = books e" "accounts e' = accounts e" "seq e' = seq e" "charts_ok e'"
    "clock e' = rn64 (clock e + max dt 0)"
    using assms(2) by (auto simp: quiet_step_def charts_ok_def)
  then have "exchange_ok e'" "credits_held e' = credits_held e" "goods_held g e' = goods_held g e"
    using assms(1) by (simp_all add: exchange_ok_def books_ok_def book_at_def credits_held_def goods_held_def escrowed_def)
  with s eq show ?thesis by (auto simp: ex_tick_def Let_def)
qed

theorem tick_returns_witness:
  "\<exists>e'. ex_tick pw0 (\<lambda>x. x) 100 one_ask = Some e' \<and> clock e' < next_sample e' \<and> credits_held e' = credits_held one_ask"
proof -
  have "charts_ok one_ask" by (simp add: charts_ok_def bvals_def)
  moreover have "rn64 (clock one_ask + max 100 0) = 100" using rn64_nat [of 100] by simp
  ultimately show ?thesis
    using tick_returns [OF one_ask_ok, of 0 100 pw0 "\<lambda>x. x" SIDERIUM] by auto
qed

end
