(* ===== verification/Equipment.thy ===== *)
theory Equipment
  imports Faults "HOL-Library.Word"
begin

unbundle bit_operations_syntax

text \<open>
  What a suit carries, packed in words: the consumables in its rack, two bits a kind
  (\<open>Kits\<close>, \<open>crates/bc-sim/src/content/kits.rs\<close>), and the equipment on its mounts, four bits a mount
  (\<open>Modules\<close>, \<open>crates/bc-sim/src/content/modules.rs\<close>). The locale \<open>packed\<close> is the contract both
  keep: a field of the word is a cell, what is written to one is read back from it and no other.
\<close>

section \<open>Fields of a word\<close>

definition field_get :: "nat \<Rightarrow> nat \<Rightarrow> 'a::len word \<Rightarrow> 'a word" where
  "field_get b k w = drop_bit k w AND mask b"

definition field_set :: "nat \<Rightarrow> nat \<Rightarrow> 'a::len word \<Rightarrow> 'a word \<Rightarrow> 'a word" where
  "field_set b k v w = (w AND NOT (push_bit k (mask b))) OR push_bit k v"

lemma field_get_set_same:
  fixes v w :: "'a::len word"
  assumes "k + b \<le> LENGTH('a)" and "v AND mask b = v"
  shows "field_get b k (field_set b k v w) = v"
proof (rule bit_word_eqI)
  fix n assume "n < LENGTH('a)"
  have "bit v n \<longleftrightarrow> bit v n \<and> n < b"
    by (metis assms(2) bit_and_iff bit_mask_iff)
  moreover have "n < b \<Longrightarrow> k + n < LENGTH('a)" using assms(1) by linarith
  ultimately show "bit (field_get b k (field_set b k v w)) n = bit v n"
    by (auto simp: field_get_def field_set_def bit_simps)
qed

lemma field_get_set_other:
  fixes v w :: "'a::len word"
  assumes "k + b \<le> j \<or> j + b \<le> k" and "v AND mask b = v"
  shows "field_get b j (field_set b k v w) = field_get b j w"
proof (rule bit_word_eqI)
  fix n assume n: "n < LENGTH('a)"
  have v: "bit v m \<Longrightarrow> m < b" for m by (metis assms(2) bit_and_iff bit_mask_iff)
  have "n < b \<Longrightarrow> k \<le> j + n \<Longrightarrow> \<not> j + n - k < b" using assms(1) by linarith
  then show "bit (field_get b j (field_set b k v w)) n = bit (field_get b j w) n"
    using v by (auto simp: field_get_def field_set_def bit_simps dest: bit_imp_le_length)
qed

text \<open>What a packed word promises: cells that do not disturb each other, each holding what fits.\<close>

locale packed =
  fixes cell_get :: "'w \<Rightarrow> 'i \<Rightarrow> 'v" and cell_set :: "'i \<Rightarrow> 'v \<Rightarrow> 'w \<Rightarrow> 'w"
    and fits :: "'v \<Rightarrow> 'v" and index_ok :: "'i \<Rightarrow> bool"
  assumes get_set_same: "index_ok i \<Longrightarrow> cell_get (cell_set i v w) i = fits v"
    and get_set_other: "i \<noteq> j \<Longrightarrow> cell_get (cell_set i v w) j = cell_get w j"
    and fits_get: "fits (cell_get w i) = cell_get w i"
begin

lemma set_twice: "index_ok i \<Longrightarrow> cell_get (cell_set i v (cell_set i u w)) j = cell_get (cell_set i v w) j"
  by (cases "j = i") (simp_all add: get_set_same get_set_other)

lemma set_back: "index_ok i \<Longrightarrow> cell_get (cell_set i (cell_get w i) (cell_set i v w)) j = cell_get w j"
  by (cases "j = i") (simp_all add: get_set_same get_set_other fits_get)

lemma set_list_get:
  assumes "distinct is" and "list_all index_ok is"
  shows "cell_get (fold (\<lambda>i. cell_set i (f i)) is w) j = (if j \<in> set is then fits (f j) else cell_get w j)"
  using assms
proof (induction "is" arbitrary: w)
  case (Cons i "is")
  then show ?case by (cases "j = i") (auto simp: get_set_same get_set_other)
qed simp

end

section \<open>The rack\<close>

type_synonym kits = "8 word"

definition kits_get :: "kits \<Rightarrow> kit \<Rightarrow> nat" where
  "kits_get w k = unat (field_get 2 (2 * kit_ix k) w)"

definition kits_set :: "kit \<Rightarrow> nat \<Rightarrow> kits \<Rightarrow> kits" where
  "kits_set k n w = field_set 2 (2 * kit_ix k) (of_nat (min n RACK)) w"

definition kits_take :: "kit \<Rightarrow> kits \<Rightarrow> bool \<times> kits" where
  "kits_take k w = (let n = kits_get w k in if n = 0 then (False, w) else (True, kits_set k (n - 1) w))"

lemma small_8: "n < 4 \<Longrightarrow> (of_nat n :: kits) AND mask 2 = of_nat n"
  by (simp add: numeral_eq_Suc less_Suc_eq, elim disjE) (simp_all add: mask_eq_decr_exp)

lemma unat_field_get_less: "unat (field_get b k (w :: 'a::len word)) < 2 ^ b"
proof -
  have "take_bit b (drop_bit k w) = field_get b k w" by (simp add: field_get_def take_bit_eq_mask)
  then show ?thesis by (metis take_bit_nat_less_exp unsigned_take_bit_eq)
qed

interpretation rack: packed kits_get kits_set "\<lambda>n. min n RACK" "\<lambda>_. True"
proof
  show "kits_get (kits_set i v w) i = min v RACK" for i v and w :: kits
  proof -
    have "2 * kit_ix i + 2 \<le> LENGTH(8)" by (cases i) simp_all
    moreover have "min v RACK < 4" by (simp add: RACK_def)
    then have "(of_nat (min v RACK) :: kits) AND mask 2 = of_nat (min v RACK)" by (rule small_8)
    ultimately have "field_get 2 (2 * kit_ix i) (kits_set i v w) = of_nat (min v RACK)"
      unfolding kits_set_def by (rule field_get_set_same)
    moreover have "unat (of_nat (min v RACK) :: kits) = min v RACK"
      using \<open>min v RACK < 4\<close> by (simp add: unat_of_nat)
    ultimately show ?thesis by (simp add: kits_get_def)
  qed
  show "kits_get (kits_set i v w) j = kits_get w j" if "i \<noteq> j" for i j v and w :: kits
  proof -
    have "kit_ix i \<noteq> kit_ix j" using that by simp
    then have "2 * kit_ix i + 2 \<le> 2 * kit_ix j \<or> 2 * kit_ix j + 2 \<le> 2 * kit_ix i" by linarith
    moreover have "(of_nat (min v RACK) :: kits) AND mask 2 = of_nat (min v RACK)"
      by (rule small_8) (simp add: RACK_def)
    ultimately show ?thesis unfolding kits_get_def kits_set_def by (simp add: field_get_set_other)
  qed
  show "min (kits_get w i) RACK = kits_get w i" for i and w :: kits
    using unat_field_get_less [of 2 "2 * kit_ix i" w] by (simp add: kits_get_def RACK_def)
qed

section \<open>Equipment\<close>

type_synonym modules = "32 word"

definition module_from_code :: "nat \<Rightarrow> module_kind option" where
  "module_from_code c = find (\<lambda>k. module_code k = c) module_all"

definition mod_get :: "modules \<Rightarrow> nat \<Rightarrow> module_kind option" where
  "mod_get w m = (if m < length MOUNTS then module_from_code (unat (field_get 4 (4 * m) w)) else None)"

definition mod_code :: "module_kind option \<Rightarrow> nat" where
  "mod_code k = (case k of None \<Rightarrow> 0 | Some k \<Rightarrow> module_code k)"

definition mod_set :: "nat \<Rightarrow> module_kind option \<Rightarrow> modules \<Rightarrow> modules" where
  "mod_set m k w = (if length MOUNTS \<le> m then w else field_set 4 (4 * m) (of_nat (mod_code k)) w)"

definition mod_fitted :: "modules \<Rightarrow> nat \<Rightarrow> (nat \<times> module_kind) list" where
  "mod_fitted w gone =
     concat (map (\<lambda>m. if part_bit gone (MOUNTS ! m) then []
                      else (case mod_get w m of None \<Rightarrow> [] | Some k \<Rightarrow> [(m, k)])) [0..<length MOUNTS])"

definition mod_has :: "modules \<Rightarrow> module_kind \<Rightarrow> nat \<Rightarrow> bool" where
  "mod_has w k gone \<longleftrightarrow> (\<exists>x\<in>set (mod_fitted w gone). snd x = k)"

fun mod_clean_from :: "modules \<Rightarrow> nat list \<Rightarrow> module_kind list \<Rightarrow> modules \<Rightarrow> modules" where
  "mod_clean_from w [] seen out = out"
| "mod_clean_from w (m # ms) seen out =
     (case mod_get w m of
        Some k \<Rightarrow> if module_part k = MOUNTS ! m \<and> k \<notin> set seen
                  then mod_clean_from w ms (k # seen) (mod_set m (Some k) out)
                  else mod_clean_from w ms seen out
      | None \<Rightarrow> mod_clean_from w ms seen out)"

definition mod_clean :: "modules \<Rightarrow> modules" where
  "mod_clean w = mod_clean_from w [0..<length MOUNTS] [] 0"

definition mod_without :: "nat \<Rightarrow> modules \<Rightarrow> modules" where
  "mod_without gone w =
     fold (\<lambda>m w. if part_bit gone (MOUNTS ! m) then mod_set m None w else w) [0..<length MOUNTS] w"

lemma small_32: "n < 15 \<Longrightarrow> (of_nat n :: modules) AND mask 4 = of_nat n"
  by (simp add: numeral_eq_Suc less_Suc_eq, elim disjE) (simp_all add: mask_eq_decr_exp)

lemma mod_code_less: "mod_code k < 15"
  by (simp add: mod_code_def split: option.split)

lemma module_from_code_code: "module_from_code (mod_code k) = k"
proof (cases k)
  case None
  then show ?thesis by (auto simp: module_from_code_def mod_code_def find_None_iff)
next
  case (Some a)
  then show ?thesis by (cases a) (simp_all add: module_from_code_def mod_code_def module_all_def)
qed

lemma length_MOUNTS [simp]: "length MOUNTS = 5"
  by (simp add: MOUNTS_def)

interpretation mount: packed mod_get mod_set "\<lambda>k. k" "\<lambda>m. m < length MOUNTS"
proof
  show "mod_get (mod_set i v w) i = v" if "i < length MOUNTS" for i v w
  proof -
    have "4 * i + 4 \<le> LENGTH(32)" using that by simp
    from field_get_set_same [OF this small_32 [OF mod_code_less], of v w] that
    have "field_get 4 (4 * i) (mod_set i v w) = of_nat (mod_code v)" by (simp add: mod_set_def)
    moreover have "unat (of_nat (mod_code v) :: modules) = mod_code v"
      using mod_code_less [of v] by (simp add: unat_of_nat)
    ultimately show ?thesis using that by (simp add: mod_get_def module_from_code_code)
  qed
  show "mod_get (mod_set i v w) j = mod_get w j" if "i \<noteq> j" for i j v w
  proof -
    have "4 * i + 4 \<le> 4 * j \<or> 4 * j + 4 \<le> 4 * i" using that by linarith
    from field_get_set_other [OF this small_32 [OF mod_code_less], of v w] show ?thesis
      by (simp add: mod_get_def mod_set_def)
  qed
qed simp

section \<open>Clean equipment\<close>

lemma mod_clean_from_get:
  assumes "distinct ms" and "list_all (\<lambda>m. m < length MOUNTS) ms" and "list_all (\<lambda>m. mod_get out m = None) ms"
  shows "mod_get (mod_clean_from w ms seen out) j =
     (if j \<in> set ms
      then (case mod_get w j of
              None \<Rightarrow> None
            | Some k \<Rightarrow> if module_part k = MOUNTS ! j \<and> k \<notin> set seen
                            \<and> \<not> list_ex (\<lambda>m. mod_get w m = Some k \<and> MOUNTS ! m = MOUNTS ! j) (takeWhile ((\<noteq>) j) ms)
                         then Some k else None)
      else mod_get out j)"
  using assms
proof (induction ms arbitrary: seen out j)
  case (Cons m ms)
  have IH: "mod_get (mod_clean_from w ms seen' out') j =
     (if j \<in> set ms
      then (case mod_get w j of
              None \<Rightarrow> None
            | Some k \<Rightarrow> if module_part k = MOUNTS ! j \<and> k \<notin> set seen'
                            \<and> \<not> list_ex (\<lambda>m. mod_get w m = Some k \<and> MOUNTS ! m = MOUNTS ! j) (takeWhile ((\<noteq>) j) ms)
                         then Some k else None)
      else mod_get out' j)" if "list_all (\<lambda>m. mod_get out' m = None) ms" for seen' out' j
    using Cons that by auto
  have keep: "list_all (\<lambda>k. mod_get (mod_set m v out) k = None) ms" for v
    using Cons.prems mount.get_set_other [of m _ v out] by (fastforce simp: list_all_iff)
  show ?case
  proof (cases "mod_get w m")
    case None
    with Cons.prems show ?thesis by (auto simp: IH split: option.split)
  next
    case (Some k)
    show ?thesis
    proof (cases "module_part k = MOUNTS ! m \<and> k \<notin> set seen")
      case True
      with Some Cons.prems show ?thesis
        by (cases "j = m") (auto simp: IH [OF keep] mount.get_set_same mount.get_set_other split: option.split)
    next
      case False
      with Some Cons.prems show ?thesis
        by (cases "j = m") (auto simp: IH split: option.split)
    qed
  qed
qed simp

lemma mod_get_0 [simp]: "mod_get 0 m = None"
  using module_from_code_code [of None] by (simp add: mod_get_def field_get_def mod_code_def)

lemma mod_get_clean:
  "mod_get (mod_clean w) j =
     (if j < length MOUNTS
      then (case mod_get w j of
              None \<Rightarrow> None
            | Some k \<Rightarrow> if module_part k = MOUNTS ! j
                            \<and> \<not> list_ex (\<lambda>m. mod_get w m = Some k \<and> MOUNTS ! m = MOUNTS ! j) [0..<j]
                         then Some k else None)
      else None)"
proof -
  have "takeWhile ((\<noteq>) j) [0..<5] = [0..<j]" if "j < 5"
    using that by (simp add: numeral_eq_Suc less_Suc_eq, elim disjE) simp_all
  moreover have "list_all (\<lambda>m. m < length MOUNTS) [0..<length MOUNTS]" by (simp add: list_all_iff)
  moreover have "list_all (\<lambda>m. mod_get 0 m = None) [0..<length MOUNTS]" by (simp add: list_all_iff)
  ultimately show ?thesis
    unfolding mod_clean_def by (subst mod_clean_from_get) (auto split: option.split)
qed

text \<open>Cleaned equipment is what a suit can carry: every module on a mount of its own part and
  no kind twice; cleaning invents nothing, leaves clean equipment as it is, and does nothing the
  second time.\<close>

theorem clean_equipment:
  "(mod_get (mod_clean w) m = Some k \<longrightarrow> m < length MOUNTS \<and> module_part k = MOUNTS ! m \<and> mod_get w m = Some k)
   \<and> (mod_get (mod_clean w) m = Some k \<and> mod_get (mod_clean w) n = Some k \<longrightarrow> m = n)
   \<and> mod_get (mod_clean (mod_clean w)) m = mod_get (mod_clean w) m"
proof -
  have one: "mod_get (mod_clean w) m = Some k \<Longrightarrow> mod_get (mod_clean w) n = Some k \<Longrightarrow> \<not> m < n" for m n
    by (auto simp: mod_get_clean list_ex_iff split: if_splits option.splits)
  have twice: "mod_get (mod_clean (mod_clean w)) m = mod_get (mod_clean w) m" for m
  proof (cases "mod_get (mod_clean w) m")
    case None
    then show ?thesis by (subst mod_get_clean) simp
  next
    case (Some k)
    then have "\<not> list_ex (\<lambda>m'. mod_get (mod_clean w) m' = Some k \<and> MOUNTS ! m' = MOUNTS ! m) [0..<m]"
      by (auto simp: mod_get_clean list_ex_iff split: if_splits option.splits)
    with Some show ?thesis
      by (subst mod_get_clean) (auto simp: mod_get_clean [of w] split: if_splits option.splits)
  qed
  have "m = n" if "mod_get (mod_clean w) m = Some k" "mod_get (mod_clean w) n = Some k"
    using one [of m n] one [of n m] that by linarith
  with twice show ?thesis
    by (auto simp: mod_get_clean [of w] split: if_splits option.splits)
qed


theorem clean_equipment_witness:
  "mod_get (mod_clean (mod_set 2 (Some GSeat) (mod_set 1 (Some GSeat) 0))) 2 \<noteq> Some GSeat"
proof -
  let ?w = "mod_set 2 (Some GSeat) (mod_set 1 (Some GSeat) 0)"
  have "mod_get (mod_clean ?w) 1 = Some GSeat"
    by (simp add: mod_get_clean mount.get_set_same mount.get_set_other MOUNTS_def)
  then show ?thesis using clean_equipment [of ?w 2 GSeat 1] by auto
qed

text \<open>A rack is four counters in a byte: setting one kind to a number puts the lesser of it and
  three there and leaves the others, and taking one takes exactly one when there is one.\<close>

theorem rack_counts:
  "kits_get (kits_set k n w) k' = (if k' = k then min n RACK else kits_get w k')
   \<and> fst (kits_take k w) = (0 < kits_get w k)
   \<and> kits_get (snd (kits_take k w)) k' = (if k' = k then kits_get w k - 1 else kits_get w k')"
proof -
  have "kits_get w k - 1 \<le> RACK" using rack.fits_get [of w k] by linarith
  then show ?thesis
    by (auto simp: kits_take_def Let_def rack.get_set_same rack.get_set_other)
qed

end
