(* ===== verification/Suits.thy ===== *)
theory Suits
  imports Fab Equipment
begin

text \<open>
  The suit in the bay (\<open>crates/bc-econ/src/suit.rs\<close>): its parts' conditions, the weapons on its
  mounts, what is loaded and what is inside; with the wear of its systems (\<open>wear.rs\<close>), the
  weathering of its paint (\<open>weathering.rs\<close>), and what the simulation launches and brings home
  (\<open>crates/bc-sim/src/sim/launch.rs\<close>, \<open>suits.rs\<close>). Arrays are lists of their fixed length
  (\<open>suit_ok\<close> says which), indexed as the code does.
\<close>

section \<open>What a sortie uses and brings home\<close>

definition TICK_HZ :: nat where "TICK_HZ = 30"

record usage =
  us_burn :: nat
  us_boost :: nat
  us_shots :: "nat list"
  us_overheats :: nat

datatype chunk_kind =
    ChunkOre nat
  | ChunkLimb frame_id part
  | ChunkHulk frame_id nat

record chunk =
  ch_kind :: chunk_kind
  ch_mass_kg :: nat

record homecoming =
  hc_frame :: frame_id
  hc_parts :: "rat list"
  hc_mounts :: nat
  hc_ammo :: "nat list"
  hc_propellant :: rat
  hc_grade :: grade
  hc_systems :: systems
  hc_modules :: modules
  hc_kits :: kits
  hc_usage :: usage
  hc_cargo_kg :: "nat list"
  hc_held :: "chunk option"
  hc_bounty :: nat

record loadout =
  lo_parts :: "rat list"
  lo_mounts :: nat
  lo_ammo :: "nat list"
  lo_propellant :: rat
  lo_grade :: grade
  lo_systems :: systems
  lo_modules :: modules
  lo_kits :: kits

section \<open>Weathering\<close>

definition WEATHER_MAX :: nat where "WEATHER_MAX = 7"
definition PER_SORTIE :: nat where "PER_SORTIE = 3"
definition PER_OVERHEAT :: nat where "PER_OVERHEAT = 4"
definition DAMAGE_PER_POINT :: nat where "DAMAGE_PER_POINT = 8"
definition LEVELS :: "nat list" where "LEVELS = [8, 25, 55, 100, 170, 270, 420]"

record weathering =
  we_sorties :: nat
  we_thrust :: nat
  we_damage :: nat
  we_overheats :: nat

definition weathering_new :: weathering where
  "weathering_new = \<lparr>we_sorties = 0, we_thrust = 0, we_damage = 0, we_overheats = 0\<rparr>"

definition weather_sortie :: "usage \<Rightarrow> nat option list \<Rightarrow> nat option list \<Rightarrow> weathering \<Rightarrow> weathering" where
  "weather_sortie u before after w =
     (let lost = sum_list (map (\<lambda>(b, a). bor 0 b - bor 0 a) (zip before after))
      in w\<lparr>we_sorties := sat32 (we_sorties w + 1),
           we_thrust := sat32 (sat32 (we_thrust w + us_burn u) + us_boost u),
           we_overheats := sat32 (we_overheats w + us_overheats u),
           we_damage := sat32 (we_damage w + lost)\<rparr>)"

definition weather_points :: "weathering \<Rightarrow> nat" where
  "weather_points w =
     sat32 (sat32 (sat32 (sat32 (we_sorties w * PER_SORTIE) + we_thrust w div (60 * TICK_HZ))
            + we_damage w div DAMAGE_PER_POINT) + sat32 (we_overheats w * PER_OVERHEAT))"

definition weather_level :: "weathering \<Rightarrow> nat" where
  "weather_level w = length (filter (\<lambda>from. from \<le> weather_points w) LEVELS)"

section \<open>Wear\<close>

definition MAIN_S :: nat where "MAIN_S = 1800"
definition BOOST_S :: nat where "BOOST_S = 300"
definition ROUNDS :: nat where "ROUNDS = 1500"
definition OVERHEATS :: nat where "OVERHEATS = 6"
definition SERVICE_FROM :: rat where "SERVICE_FROM = 1 / 4"

record wear =
  wr_main :: nat
  wr_boost :: nat
  wr_rounds :: "nat list"
  wr_overheats :: nat

definition wear_none :: wear where
  "wear_none = \<lparr>wr_main = 0, wr_boost = 0, wr_rounds = [0, 0, 0], wr_overheats = 0\<rparr>"

definition loadout_mount :: "frame_id \<Rightarrow> nat \<Rightarrow> (weapon_kind \<times> arm_slot) option" where
  "loadout_mount line m = (if m < length (frame_loadout line) then frame_loadout line ! m else None)"

definition mount_system :: "frame_id \<Rightarrow> nat \<Rightarrow> system" where
  "mount_system line m =
     (case map_option snd (loadout_mount line m) of
        Some LeftArm \<Rightarrow> ActuatorL
      | Some RightArm \<Rightarrow> ActuatorR
      | Some BothArms \<Rightarrow> ActuatorR
      | _ \<Rightarrow> FireControl)"

definition wear_add :: "usage \<Rightarrow> wear \<Rightarrow> wear" where
  "wear_add u w =
     w\<lparr>wr_main := sat32 (wr_main w + us_burn u), wr_boost := sat32 (wr_boost w + us_boost u),
       wr_rounds := map (\<lambda>(r, n). sat32 (r + n)) (zip (wr_rounds w) (us_shots u)),
       wr_overheats := sat32 (wr_overheats w + us_overheats u)\<rparr>"

fun worse_of :: "system \<Rightarrow> rat \<Rightarrow> (system \<times> rat) list \<Rightarrow> (system \<times> rat) list" where
  "worse_of s f [] = [(s, f)]"
| "worse_of s f ((t, g) # v) = (if t = s then (t, max g f) # v else (t, g) # worse_of s f v)"

definition wear_systems :: "frame_id \<Rightarrow> wear \<Rightarrow> (system \<times> rat) list" where
  "wear_systems line w =
     (let tick = rn32 (of_nat TICK_HZ);
          life = (\<lambda>n s. rn32 (rn32 (rn32 (of_nat n) / tick) / of_nat s));
          v = [(MainThrusters, life (wr_main w) MAIN_S), (Boosters, life (wr_boost w) BOOST_S),
               (ReactorSys, rn32 (rn32 (of_nat (wr_overheats w)) / of_nat OVERHEATS))];
          v' = fold (\<lambda>(m, r). worse_of (mount_system line m) (rn32 (rn32 (of_nat r) / of_nat ROUNDS)))
                 (enumerate 0 (wr_rounds w)) v
      in sort_key (system_ix \<circ> fst) (filter (\<lambda>(_, f). 0 < f) v'))"

definition wear_reset :: "system \<Rightarrow> frame_id \<Rightarrow> wear \<Rightarrow> wear" where
  "wear_reset sys line w =
     (let w = (case sys of
                 MainThrusters \<Rightarrow> w\<lparr>wr_main := 0\<rparr>
               | Boosters \<Rightarrow> w\<lparr>wr_boost := 0\<rparr>
               | ReactorSys \<Rightarrow> w\<lparr>wr_overheats := 0\<rparr>
               | _ \<Rightarrow> w)
      in w\<lparr>wr_rounds := map (\<lambda>(m, r). if m < 3 \<and> mount_system line m = sys then 0 else r)
                          (enumerate 0 (wr_rounds w))\<rparr>)"

definition wear_out_one :: "frame_id \<Rightarrow> (part \<Rightarrow> bool) \<Rightarrow> system \<times> rat
    \<Rightarrow> wear \<times> systems \<times> system list \<Rightarrow> wear \<times> systems \<times> system list" where
  "wear_out_one line fitted e st =
     (let (sys, f) = e; (w, faults, out) = st
      in if f < 1 \<or> \<not> fitted (system_part sys) then st
         else (wear_reset sys line w, sys_set faults sys (min (sys_get faults sys + 1) FAILED), out @ [sys]))"

definition wear_out :: "frame_id \<Rightarrow> (part \<Rightarrow> bool) \<Rightarrow> wear \<Rightarrow> systems \<Rightarrow> wear \<times> systems \<times> system list" where
  "wear_out line fitted w faults = fold (wear_out_one line fitted) (wear_systems line w) (w, faults, [])"

definition service_cost :: "frame_id \<Rightarrow> (item \<times> nat) list" where
  "service_cost line = map (\<lambda>(i, q). (i, div_ceil q 2)) (overhaul_cost line DAMAGED)"

section \<open>The suit\<close>

datatype slot = SPart part | SMount nat | SModule nat

record suit =
  su_line :: frame_id
  su_parts :: "nat option list"
  su_mounts :: "bool list"
  su_ammo :: "nat list"
  su_propellant :: nat
  su_grade :: grade
  su_faults :: systems
  su_modules :: "module_kind option list"
  su_kits :: "nat list"
  su_wear :: wear
  su_weathering :: weathering

definition suit_on :: "part_unit \<Rightarrow> suit" where
  "suit_on t =
     \<lparr>su_line = pu_line t,
      su_parts = (replicate 6 None)[part_ix Torso := Some (clamp_condition (pu_condition t))],
      su_mounts = replicate 3 False, su_ammo = replicate 3 0, su_propellant = 0, su_grade = Standard,
      su_faults = faults_with_part 0 Torso (pu_faults t), su_modules = replicate 5 None,
      su_kits = replicate 4 0, su_wear = wear_none, su_weathering = weathering_new\<rparr>"

definition loadout_full_ammo :: "frame_id \<Rightarrow> nat list" where
  "loadout_full_ammo line =
     map (\<lambda>x. case x of None \<Rightarrow> 0 | Some (w, _) \<Rightarrow> weapon_ammo w) (frame_loadout line)"

definition line_weapon_on :: "frame_id \<Rightarrow> nat \<Rightarrow> weapon_kind option" where
  "line_weapon_on line m = map_option fst (loadout_mount line m)"

definition weapon_on :: "suit \<Rightarrow> nat \<Rightarrow> weapon_kind option" where
  "weapon_on s m = line_weapon_on (su_line s) m"

definition suit_complete :: "frame_id \<Rightarrow> suit" where
  "suit_complete line =
     \<lparr>su_line = line, su_parts = replicate 6 (Some 100),
      su_mounts = map (\<lambda>m. line_weapon_on line m \<noteq> None) [0..<3],
      su_ammo = loadout_full_ammo line, su_propellant = tank_kg line, su_grade = Standard,
      su_faults = 0, su_modules = replicate 5 None, su_kits = replicate 4 0,
      su_wear = wear_none, su_weathering = weathering_new\<rparr>"

definition part_on :: "suit \<Rightarrow> part \<Rightarrow> bool" where
  "part_on s p \<longleftrightarrow> su_parts s ! part_ix p \<noteq> None"

definition mount_has_its_part :: "suit \<Rightarrow> nat \<Rightarrow> bool" where
  "mount_has_its_part s m =
     (case map_option snd (loadout_mount (su_line s) m) of
        Some BothArms \<Rightarrow> part_on s ArmL \<and> part_on s ArmR
      | Some arm \<Rightarrow> part_on s (arm_part arm)
      | None \<Rightarrow> False)"

definition slot_for :: "suit \<Rightarrow> item \<Rightarrow> slot option" where
  "slot_for s i =
     (case i of
        IPart line p \<Rightarrow> if line = su_line s \<and> \<not> part_on s p then Some (SPart p) else None
      | IWeapon w \<Rightarrow>
          map_option SMount (find (\<lambda>m. weapon_on s m = Some w \<and> \<not> su_mounts s ! m) [0..<3])
      | IModule k \<Rightarrow>
          if Some k \<notin> set (su_modules s) \<and> part_on s (module_part k)
          then map_option SModule
                 (find (\<lambda>m. MOUNTS ! m = module_part k \<and> su_modules s ! m = None) [0..<length MOUNTS])
          else None
      | _ \<Rightarrow> None)"

definition equipment :: "suit \<Rightarrow> modules" where
  "equipment s =
     mod_clean (fold (\<lambda>(m, k) w. if part_on s (MOUNTS ! m) then mod_set m k w else w)
                  (enumerate 0 (su_modules s)) 0)"

definition gone :: "suit \<Rightarrow> nat" where
  "gone s = sum_list (map (\<lambda>p. if part_on s p then 0 else 2 ^ part_ix p) part_all)"

text \<open>\<open>tuning::tuning\<close>'s \<open>tank\<close>, and \<open>tank_cap\<close>.\<close>

fun tank_factor :: "module_kind \<Rightarrow> rat \<Rightarrow> rat" where
  "tank_factor AuxiliaryTank t = rn32 (t * rn32 (14 / 10))"
| "tank_factor ExtendedTank t = rn32 (t * rn32 (125 / 100))"
| "tank_factor _ t = t"

definition tank :: "suit \<Rightarrow> nat" where
  "tank s =
     (let t = fold (\<lambda>(_, k). tank_factor k) (mod_fitted (equipment s) (gone s)) 1
      in to_nat_trunc u32_max (of_int \<lfloor>rn32 (of_nat (propellant_cap (su_line s)) * t)\<rfloor>))"

definition full_load :: "suit \<Rightarrow> nat \<Rightarrow> nat" where
  "full_load s m =
     (case weapon_on s m of
        None \<Rightarrow> 0
      | Some w \<Rightarrow> if 0 < munitions_per_load w then rounds_per_load w else 0)"

definition rack_of :: "suit \<Rightarrow> kits" where
  "rack_of s = fold (\<lambda>k. kits_set k (su_kits s ! kit_ix k)) kit_all 0"

definition loadout_of :: "suit \<Rightarrow> loadout" where
  "loadout_of s =
     \<lparr>lo_parts = map (\<lambda>c. case c of None \<Rightarrow> 0 | Some c \<Rightarrow> rn32 (of_nat c / 100)) (su_parts s),
      lo_mounts = sum_list (map (\<lambda>(m, f). if f then 2 ^ m else 0) (enumerate 0 (su_mounts s))),
      lo_ammo = su_ammo s, lo_propellant = rn32 (of_nat (su_propellant s)), lo_grade = su_grade s,
      lo_systems = su_faults s, lo_modules = equipment s, lo_kits = rack_of s\<rparr>"

definition part_home :: "nat option \<Rightarrow> rat \<Rightarrow> nat option" where
  "part_home c f =
     (case c of
        None \<Rightarrow> None
      | Some _ \<Rightarrow> if 0 < f then Some (clamp_condition (to_nat_trunc u8_max (of_int (round_away (rn32 (f * 100))))))
                  else None)"

definition bit_of :: "nat \<Rightarrow> nat \<Rightarrow> bool" where
  "bit_of w m \<longleftrightarrow> odd (w div 2 ^ m)"

definition suit_came_home :: "homecoming \<Rightarrow> suit \<Rightarrow> suit" where
  "suit_came_home h s =
     (let parts = map (\<lambda>(c, f). part_home c f) (zip (su_parts s) (hc_parts h));
          parts = parts[part_ix Torso := Some (bor 1 (parts ! part_ix Torso))];
          s1 = s\<lparr>su_parts := parts\<rparr>;
          faults = fold (\<lambda>p fs. faults_with_part fs p
                     (if part_on s1 p then faults_of_part (hc_systems h) p else 0)) part_all (su_faults s);
          s2 = s1\<lparr>su_faults := faults,
                  su_modules := map (\<lambda>(k, m). if \<not> part_on s1 (MOUNTS ! k) \<or> mod_get (hc_modules h) k \<noteq> m
                                              then None else m) (enumerate 0 (su_modules s))\<rparr>;
          mounts = map (\<lambda>m. su_mounts s ! m \<and> bit_of (hc_mounts h) m \<and> mount_has_its_part s2 m) [0..<3];
          s3 = s2\<lparr>su_mounts := mounts,
                  su_ammo := map (\<lambda>m. if mounts ! m then min (hc_ammo h ! m) (full_load s2 m) else 0) [0..<3]\<rparr>
      in s3\<lparr>su_propellant := min (min (to_nat_trunc u32_max (max (hc_propellant h) 0)) (tank s3)) (su_propellant s),
            su_grade := hc_grade h\<rparr>)"

definition fitted :: "suit \<Rightarrow> (part \<times> nat) list" where
  "fitted s = concat (map (\<lambda>(p, c). case c of None \<Rightarrow> [] | Some c \<Rightarrow> [(p, c)]) (zip part_all (su_parts s)))"

definition suit_items :: "suit \<Rightarrow> (item \<times> nat) list" where
  "suit_items s =
     map (\<lambda>(p, c). (IPart (su_line s) p, c)) (fitted s)
     @ concat (map (\<lambda>m. case weapon_on s m of
                          Some w \<Rightarrow> if su_mounts s ! m then [(IWeapon w, 100)] else []
                        | None \<Rightarrow> []) [0..<3])
     @ concat (map (\<lambda>k. case k of None \<Rightarrow> [] | Some k \<Rightarrow> [(IModule k, 100)]) (su_modules s))"

definition repair_cost :: "frame_id \<Rightarrow> part \<Rightarrow> nat \<Rightarrow> nat \<Rightarrow> (item \<times> nat) list" where
  "repair_cost line p from to =
     (case recipe_of (IPart line p) of
        None \<Rightarrow> []
      | Some r \<Rightarrow>
          let missing = min (to - from) 100
          in filter (\<lambda>(_, q). 0 < q) (map (\<lambda>(i, q). (i, div_ceil (q * missing * 60) (100 * 100))) (r_inputs r)))"

definition scrap_yield :: "item \<Rightarrow> nat \<Rightarrow> (item \<times> nat) list" where
  "scrap_yield i condition =
     (case recipe_of i of
        None \<Rightarrow> []
      | Some r \<Rightarrow>
          if item_bulk i then []
          else let c = min condition 100
               in filter (\<lambda>(_, q). 0 < q) (map (\<lambda>(i, q). (i, q * c * 50 div (100 * 100))) (r_inputs r)))"


section \<open>Weathering only grows\<close>

definition weather_le :: "weathering \<Rightarrow> weathering \<Rightarrow> bool" where
  "weather_le a b \<longleftrightarrow> we_sorties a \<le> we_sorties b \<and> we_thrust a \<le> we_thrust b
     \<and> we_damage a \<le> we_damage b \<and> we_overheats a \<le> we_overheats b"

lemma sat32_mono: "a \<le> b \<Longrightarrow> sat32 a \<le> sat32 b"
  by (simp add: sat32_def)

lemma sat32_ge: "a \<le> u32_max \<Longrightarrow> a \<le> b \<Longrightarrow> a \<le> sat32 b"
  by (simp add: sat32_def)

lemma weather_points_mono: "weather_le a b \<Longrightarrow> weather_points a \<le> weather_points b"
  unfolding weather_points_def weather_le_def
  by (intro sat32_mono add_mono mult_le_mono1 div_le_mono) auto

lemma length_filter_le_mono: "(\<And>x. P x \<Longrightarrow> Q x) \<Longrightarrow> length (filter P xs) \<le> length (filter Q xs)"
  by (induction xs) auto

lemma weather_level_mono: "weather_le a b \<Longrightarrow> weather_level a \<le> weather_level b"
  unfolding weather_level_def
  by (intro length_filter_le_mono) (meson le_trans weather_points_mono)

definition weathering_ok :: "weathering \<Rightarrow> bool" where
  "weathering_ok w \<longleftrightarrow> we_sorties w \<le> u32_max \<and> we_thrust w \<le> u32_max \<and> we_damage w \<le> u32_max
     \<and> we_overheats w \<le> u32_max"

text \<open>A suit's paint only ever weathers: a sortie never takes a mark away, so the level, always
  from 0 to 7, never falls, and the counters stay in their 32 bits.\<close>

theorem weathering_only_grows:
  assumes "weathering_ok w"
  shows "weather_level w \<le> weather_level (weather_sortie u before after w)
       \<and> weather_level (weather_sortie u before after w) \<le> WEATHER_MAX
       \<and> weathering_ok (weather_sortie u before after w)"
proof -
  have "weather_le w (weather_sortie u before after w)"
    using assms sat32_ge [of "we_thrust w" "we_thrust w + us_burn u"]
    by (auto simp: weather_le_def weather_sortie_def weathering_ok_def Let_def intro!: sat32_ge trans_le_add1)
  moreover have "weather_level v \<le> WEATHER_MAX" for v
    using length_filter_le [of "\<lambda>from. from \<le> weather_points v" LEVELS]
    by (simp add: weather_level_def WEATHER_MAX_def LEVELS_def)
  moreover have "weathering_ok (weather_sortie u before after w)"
    by (simp add: weathering_ok_def weather_sortie_def Let_def sat32_def)
  ultimately show ?thesis by (simp add: weather_level_mono)
qed

theorem weathering_only_grows_witness:
  "weather_level (weather_sortie \<lparr>us_burn = 9000, us_boost = 0, us_shots = [0, 0, 0], us_overheats = 2\<rparr>
      [Some 100] [Some 60] weathering_new) \<le> WEATHER_MAX"
  using weathering_only_grows [of weathering_new] by (simp add: weathering_ok_def weathering_new_def)

section \<open>Wear\<close>

lemma worse_of_keys: "distinct (map fst v) \<Longrightarrow> distinct (map fst (worse_of s f v))"
  and fst_worse_of: "fst ` set (worse_of s f v) = insert s (fst ` set v)"
  by (induction s f v rule: worse_of.induct) auto

lemma wear_fold_keys:
  "distinct (map fst v) \<Longrightarrow> distinct (map fst (fold (\<lambda>(m, r). worse_of (g m) (h r)) xs v))"
  by (induction xs arbitrary: v) (auto simp: worse_of_keys)

lemma distinct_wear_systems: "distinct (map fst (wear_systems line w))"
proof -
  let ?v = "\<lambda>v. filter (\<lambda>(_, f). 0 < f) (fold (\<lambda>(m, r). worse_of (mount_system line m)
      (rn32 (rn32 (of_nat r) / of_nat ROUNDS))) (enumerate 0 (wr_rounds w)) v)"
  have "distinct (map fst (?v v))" if "distinct (map fst v)" for v
    by (intro distinct_map_filter wear_fold_keys [OF that])
  then have "distinct (map fst (sort_key (system_ix \<circ> fst) (?v v)))" if "distinct (map fst v)" for v
    using that by (metis (no_types, lifting) distinct_map distinct_sort set_sort)
  then show ?thesis unfolding wear_systems_def Let_def by simp
qed

lemma wear_out_fold:
  assumes "distinct (map fst es)"
    and "fold (wear_out_one line on) es (w, faults, out) = (w', faults', out')"
  shows "sys_get faults' s = (if \<exists>f. (s, f) \<in> set es \<and> 1 \<le> f \<and> on (system_part s)
           then min (sys_get faults s + 1) FAILED else sys_get faults s)
       \<and> out' = out @ map fst (filter (\<lambda>(s, f). 1 \<le> f \<and> on (system_part s)) es)"
  using assms
proof (induction es arbitrary: w faults out)
  case (Cons e es)
  obtain sys f where e: "e = (sys, f)" by force
  show ?case
  proof (cases "1 \<le> f \<and> on (system_part sys)")
    case False
    then have "wear_out_one line on e (w, faults, out) = (w, faults, out)"
      by (auto simp: wear_out_one_def e)
    with Cons.prems have "fold (wear_out_one line on) es (w, faults, out) = (w', faults', out')" by simp
    from Cons.IH [OF _ this] Cons.prems(1) False show ?thesis by (auto simp: e)
  next
    case True
    let ?w = "wear_reset sys line w" and ?f = "sys_set faults sys (min (sys_get faults sys + 1) FAILED)"
    from True Cons.prems have f: "fold (wear_out_one line on) es (?w, ?f, out @ [sys]) = (w', faults', out')"
      by (simp add: wear_out_one_def [of line on "(sys, f)"] e)
    have "(\<exists>f. (sys, f) \<in> set es) = False" using Cons.prems(1) by (force simp: e)
    with Cons.IH [OF _ f] Cons.prems(1) True show ?thesis
      by (cases "s = sys") (auto simp: e)
  qed
qed simp

text \<open>Wear comes home once and only where it is due: exactly the systems that have had their
  service life, in parts still on, come home one level worse (never past failed); every other
  system's level is as it was.\<close>

theorem wear_out_where_due:
  assumes "wear_out line on w faults = (w', faults', worn)"
  shows "(s \<in> set worn \<longleftrightarrow> (\<exists>f. (s, f) \<in> set (wear_systems line w) \<and> 1 \<le> f \<and> on (system_part s)))
       \<and> sys_get faults' s = (if s \<in> set worn then min (sys_get faults s + 1) FAILED else sys_get faults s)
       \<and> distinct worn"
proof -
  note r = wear_out_fold [OF distinct_wear_systems assms [unfolded wear_out_def], of s]
  then have w: "worn = map fst (filter (\<lambda>(s, f). 1 \<le> f \<and> on (system_part s)) (wear_systems line w))" by simp
  moreover have "distinct worn"
    unfolding w using distinct_wear_systems [of line w] by (simp add: distinct_map_filter)
  moreover have "s \<in> set worn \<longleftrightarrow> (\<exists>f. (s, f) \<in> set (wear_systems line w) \<and> 1 \<le> f \<and> on (system_part s))"
    unfolding w by force
  ultimately show ?thesis using r by metis
qed

theorem wear_out_where_due_witness:
  "snd (snd (wear_out Argo (\<lambda>_. True) wear_none 0)) = []"
proof -
  obtain w' f' worn where o: "wear_out Argo (\<lambda>_. True) wear_none 0 = (w', f', worn)" by (metis prod.exhaust)
  have "wear_systems Argo wear_none = []"
    by (simp add: wear_systems_def wear_none_def Let_def enumerate_eq_zip upt_rec mount_system_def loadout_mount_def)
  with wear_out_where_due [OF o] have "s \<notin> set worn" for s by simp
  then have "worn = []" by (cases worn) auto
  with o show ?thesis by simp
qed

section \<open>Repairs and scrap\<close>

lemma div_ceil_bounds:
  assumes b: "0 < b"
  shows "a \<le> div_ceil a b * b" and "div_ceil a b * b < a + b"
proof -
  define x y where "x = a div b * b" and "y = a mod b"
  have e: "a = x + y" "y < b" using b by (simp_all add: x_def y_def)
  have "div_ceil a b * b = (if y = 0 then x else x + b)"
    by (simp add: div_ceil_def add_mult_distrib x_def y_def)
  then show "a \<le> div_ceil a b * b" "div_ceil a b * b < a + b"
    unfolding e(1) using e(2) by simp_all
qed

lemma div_ceil_add_le: "0 < c \<Longrightarrow> div_ceil (a + b) c \<le> div_ceil a c + div_ceil b c"
proof -
  assume c: "0 < c"
  have "div_ceil (a + b) c * c < a + b + c" by (rule div_ceil_bounds(2) [OF c])
  also have "\<dots> \<le> (div_ceil a c + div_ceil b c + 1) * c"
    using div_ceil_bounds(1) [OF c, of a] div_ceil_bounds(1) [OF c, of b] by (simp add: add_mult_distrib)
  finally have "div_ceil (a + b) c < div_ceil a c + div_ceil b c + 1" by (metis mult_less_cancel2)
  then show ?thesis by simp
qed

lemma goods_of_scaled:
  "distinct (map fst ns) \<Longrightarrow>
   goods_of (filter (\<lambda>(_, q). 0 < q) (map (\<lambda>(i, q). (i, h q)) ns)) i
     = (case map_of ns i of None \<Rightarrow> 0 | Some q \<Rightarrow> h q)"
proof (induction ns)
  case (Cons n ns)
  obtain j q where n: "n = (j, q)" by force
  show ?case
  proof (cases "j = i")
    case True
    with Cons.prems n have "map_of ns i = None" by (simp add: map_of_eq_None_iff)
    with Cons True n show ?thesis by simp
  next
    case False
    with Cons n show ?thesis by simp
  qed
qed simp

lemma goods_of_list: "distinct (map fst ns) \<Longrightarrow> goods_of ns i = (case map_of ns i of None \<Rightarrow> 0 | Some q \<Rightarrow> q)"
proof (induction ns)
  case (Cons n ns)
  obtain j q where n: "n = (j, q)" by force
  show ?case
  proof (cases "j = i")
    case True
    with Cons.prems n have "map_of ns i = None" by (simp add: map_of_eq_None_iff)
    with Cons True n show ?thesis by simp
  next
    case False
    with Cons n show ?thesis by simp
  qed
qed simp

lemma repair_cost_goods:
  "recipe_of (IPart line p) = Some r \<Longrightarrow>
   goods_of (repair_cost line p from to) i = (case map_of (r_inputs r) i of None \<Rightarrow> 0
      | Some q \<Rightarrow> div_ceil (q * min (to - from) 100 * 60) 10000)"
  using recipe_of_ok [of "IPart line p" r] by (simp add: repair_cost_def Let_def goods_of_scaled recipe_ok_def)

text \<open>Repairing a part a little at a time never costs less than repairing it at once, and
  bringing it from nothing to new never takes more of anything than making a new one.\<close>

theorem repair_in_steps_costs_more:
  assumes "from \<le> mid" and "mid \<le> to" and "to \<le> 100" and "recipe_of (IPart line p) = Some r"
  shows "goods_of (repair_cost line p from to) i
           \<le> goods_of (repair_cost line p from mid) i + goods_of (repair_cost line p mid to) i
       \<and> goods_of (repair_cost line p from to) i \<le> goods_of (r_inputs r) i"
proof (cases "map_of (r_inputs r) i")
  case None
  with assms(4) show ?thesis by (simp add: repair_cost_goods)
next
  case (Some q)
  have m: "min (to - from) 100 = (mid - from) + (to - mid)" "min (mid - from) 100 = mid - from"
    "min (to - mid) 100 = to - mid" using assms(1-3) by simp_all
  have "q * ((mid - from) + (to - mid)) * 60 = q * (mid - from) * 60 + q * (to - mid) * 60"
    by (simp add: algebra_simps)
  then have "div_ceil (q * ((mid - from) + (to - mid)) * 60) 10000
      \<le> div_ceil (q * (mid - from) * 60) 10000 + div_ceil (q * (to - mid) * 60) 10000"
    using div_ceil_add_le [of "10000" "q * (mid - from) * 60" "q * (to - mid) * 60"] by simp
  moreover have "div_ceil (q * min (to - from) 100 * 60) 10000 \<le> q"
  proof -
    have "q * min (to - from) 100 * 60 \<le> q * 100 * 60" by simp
    then have "div_ceil (q * min (to - from) 100 * 60) 10000 * 10000 < q * 6000 + 10000"
      using div_ceil_bounds(2) [of "10000" "q * min (to - from) 100 * 60"] by linarith
    then show ?thesis by (cases q) (auto simp: div_ceil_def)
  qed
  ultimately show ?thesis
    using assms(4) Some m goods_of_list recipe_of_ok [OF assms(4)]
    by (simp add: repair_cost_goods recipe_ok_def)
qed

theorem repair_in_steps_costs_more_witness:
  "goods_of (repair_cost Argo Head 40 100) STEEL
     \<le> goods_of (repair_cost Argo Head 40 70) STEEL + goods_of (repair_cost Argo Head 70 100) STEEL"
proof -
  have "part_recipe Argo Head \<in> set recipes" by (simp add: recipes_def LINES_def part_all_def)
  from recipe_of_mem [OF this] have "recipe_of (IPart Argo Head) = Some (part_recipe Argo Head)" by simp
  from repair_in_steps_costs_more [OF _ _ _ this, of 40 70 100 STEEL] show ?thesis by simp
qed

text \<open>Melting something down gives back at most half of what it took to make, of every material,
  so making things to scrap them never gains anything.\<close>

theorem scrap_at_most_half:
  assumes "recipe_of i = Some r"
  shows "2 * goods_of (scrap_yield i condition) g \<le> goods_of (r_inputs r) g"
proof (cases "map_of (r_inputs r) g")
  case None
  with assms recipe_of_ok [OF assms] show ?thesis
    by (simp add: scrap_yield_def Let_def goods_of_scaled recipe_ok_def)
next
  case (Some q)
  have "q * min condition 100 * 50 div (100 * 100) \<le> q * 100 * 50 div (100 * 100)"
    by (intro div_le_mono mult_le_mono1) simp
  moreover have "2 * (q * 100 * 50 div (100 * 100)) \<le> q" by simp
  ultimately have "2 * (q * min condition 100 * 50 div (100 * 100)) \<le> q" by simp
  with assms Some recipe_of_ok [OF assms] goods_of_list show ?thesis
    by (simp add: scrap_yield_def Let_def goods_of_scaled recipe_ok_def mult.commute)
qed

theorem scrap_at_most_half_witness:
  "2 * goods_of (scrap_yield (IWeapon BeamRifle) 100) EXOTICS \<le> 20"
proof -
  have "recipe_of (IWeapon BeamRifle) = Some (weapon_recipe BeamRifle)"
    using recipe_of_mem [of "weapon_recipe BeamRifle"] by (simp add: recipes_def item_weapons_eq)
  from scrap_at_most_half [OF this, of 100 EXOTICS] show ?thesis
    by (simp add: weapon_recipe_def made_at_fabricator_def)
qed


section \<open>A well-formed suit\<close>

definition shape_ok :: "suit \<Rightarrow> bool" where
  "shape_ok s \<longleftrightarrow> length (su_parts s) = 6 \<and> length (su_mounts s) = 3 \<and> length (su_ammo s) = 3
     \<and> length (su_modules s) = 5 \<and> length (su_kits s) = 4 \<and> length (wr_rounds (su_wear s)) = 3"

definition conditions_ok :: "nat option list \<Rightarrow> bool" where
  "conditions_ok cs \<longleftrightarrow> list_all (\<lambda>c. case c of None \<Rightarrow> True | Some c \<Rightarrow> 1 \<le> c \<and> c \<le> 100) cs"

text \<open>Nothing is amiss in a part that is not there.\<close>

definition inside_ok :: "suit \<Rightarrow> bool" where
  "inside_ok s \<longleftrightarrow> (\<forall>sys. part_on s (system_part sys) \<or> sys_get (su_faults s) sys = OK)"

definition module_ok :: "suit \<Rightarrow> nat \<Rightarrow> bool" where
  "module_ok s m = (case su_modules s ! m of
      None \<Rightarrow> True
    | Some k \<Rightarrow> module_part k = MOUNTS ! m \<and> part_on s (MOUNTS ! m))"

definition modules_ok :: "suit \<Rightarrow> bool" where
  "modules_ok s \<longleftrightarrow> (\<forall>m<5. module_ok s m)
     \<and> (\<forall>m<5. \<forall>n<5. \<forall>k. su_modules s ! m = Some k \<and> su_modules s ! n = Some k \<longrightarrow> m = n)"

definition guns_ok :: "suit \<Rightarrow> bool" where
  "guns_ok s \<longleftrightarrow> (\<forall>m<3. (su_mounts s ! m \<longrightarrow> weapon_on s m \<noteq> None) \<and> su_ammo s ! m \<le> full_load s m)"

definition suit_ok :: "suit \<Rightarrow> bool" where
  "suit_ok s \<longleftrightarrow> shape_ok s \<and> conditions_ok (su_parts s) \<and> part_on s Torso \<and> inside_ok s
     \<and> modules_ok s \<and> guns_ok s \<and> list_all (\<lambda>n. n \<le> RACK) (su_kits s)"

lemmas suit_ok_defs = suit_ok_def shape_ok_def inside_ok_def modules_ok_def module_ok_def guns_ok_def

lemma part_ix_eq [simp]: "part_ix Torso = 1"
  by simp

lemma clamp_condition_bounds [simp]: "1 \<le> clamp_condition c" "clamp_condition c \<le> 100" "0 < clamp_condition c"
  "Suc 0 \<le> clamp_condition c"
  by (simp_all add: clamp_condition_def)

lemma conditions_ok_nth: "conditions_ok cs \<Longrightarrow> k < length cs \<Longrightarrow> cs ! k = Some c \<Longrightarrow> 1 \<le> c \<and> c \<le> 100"
  by (fastforce simp: conditions_ok_def list_all_length)

lemma conditions_ok_update:
  "conditions_ok cs \<Longrightarrow> (case c of None \<Rightarrow> True | Some c \<Rightarrow> 1 \<le> c \<and> c \<le> 100) \<Longrightarrow> conditions_ok (cs[k := c])"
  by (auto simp: conditions_ok_def list_all_iff dest!: set_update_subset_insert [THEN subsetD])

lemma part_on_update:
  "length (su_parts s) = 6 \<Longrightarrow>
   part_on (s\<lparr>su_parts := (su_parts s)[part_ix p := c]\<rparr>) q = (if q = p then c \<noteq> None else part_on s q)"
  using part_ix_less [of p] by (simp add: part_on_def nth_list_update)

lemma faults_with_fold:
  "distinct ps \<Longrightarrow> sys_get (fold (\<lambda>p fs. faults_with_part fs p (g p)) ps f) s
     = (if system_part s \<in> set ps then sys_get (g (system_part s)) s else sys_get f s)"
  by (induction ps arbitrary: f) (auto simp: get_with_part)

lemma suit_on_ok: "suit_ok (suit_on t)"
  by (auto simp: suit_ok_defs suit_on_def conditions_ok_def part_on_def wear_none_def get_with_part OK_def
      nth_list_update weapon_on_def full_load_def RACK_def list_all_length)


lemma frame_loadout_length [simp]: "length (frame_loadout line) = 3"
  by (cases line) simp_all

lemma loadout_ammo_full: "m < 3 \<Longrightarrow> loadout_full_ammo line ! m \<le> full_load s m" if "su_line s = line"
  unfolding loadout_full_ammo_def full_load_def weapon_on_def line_weapon_on_def loadout_mount_def that
  by (cases line) (auto simp: less_Suc_eq numeral_eq_Suc rounds_per_load_def)

lemma suit_complete_ok: "suit_ok (suit_complete line)"
  using loadout_ammo_full [of "suit_complete line" line]
  by (auto simp: suit_ok_defs suit_complete_def conditions_ok_def part_on_def wear_none_def OK_def RACK_def
      weapon_on_def loadout_full_ammo_def list_all_length)

lemma part_home_ok: "case part_home c f of None \<Rightarrow> True | Some c \<Rightarrow> 1 \<le> c \<and> c \<le> 100"
  by (auto simp: part_home_def split: option.split)

lemma suit_came_home_shape:
  assumes "shape_ok s" and "length (hc_parts h) = 6"
  shows "shape_ok (suit_came_home h s)" and "conditions_ok (su_parts (suit_came_home h s))"
    and "part_on (suit_came_home h s) Torso"
proof -
  let ?ps = "map (\<lambda>(c, f). part_home c f) (zip (su_parts s) (hc_parts h))"
  have len: "length ?ps = 6" using assms by (simp add: shape_ok_def)
  have c: "conditions_ok ?ps"
    unfolding conditions_ok_def list_all_iff by (clarsimp) (rule part_home_ok)
  have "case bor 1 (?ps ! 1) of c \<Rightarrow> 1 \<le> c \<and> c \<le> 100"
    using conditions_ok_nth [OF c, of 1] assms by (cases "?ps ! 1") (auto simp: shape_ok_def)
  then have "conditions_ok (?ps[1 := Some (bor 1 (?ps ! 1))])" by (intro conditions_ok_update [OF c]) simp
  then show "conditions_ok (su_parts (suit_came_home h s))"
    by (simp add: suit_came_home_def Let_def)
  show "shape_ok (suit_came_home h s)"
    using assms by (simp add: suit_came_home_def shape_ok_def Let_def)
  show "part_on (suit_came_home h s) Torso"
    using len by (simp add: suit_came_home_def part_on_def Let_def)
qed

lemma came_home_parts [simp]: "su_line (suit_came_home h s) = su_line s" "su_kits (suit_came_home h s) = su_kits s"
  "su_wear (suit_came_home h s) = su_wear s" "su_weathering (suit_came_home h s) = su_weathering s"
  by (simp_all add: suit_came_home_def Let_def)

lemma part_on_cong: "su_parts s = su_parts t \<Longrightarrow> part_on s = part_on t"
  by (simp add: fun_eq_iff part_on_def)

lemma full_load_cong: "su_line s = su_line t \<Longrightarrow> full_load s = full_load t"
  by (simp add: fun_eq_iff full_load_def weapon_on_def)

lemma came_home_rest:
  defines "parts \<equiv> \<lambda>h s. (map (\<lambda>(c, f). part_home c f) (zip (su_parts s) (hc_parts h)))
      [1 := Some (bor 1 (map (\<lambda>(c, f). part_home c f) (zip (su_parts s) (hc_parts h)) ! 1))]"
  shows "su_parts (suit_came_home h s) = parts h s"
    and "su_faults (suit_came_home h s) = fold (\<lambda>p fs. faults_with_part fs p
           (if part_on (s\<lparr>su_parts := parts h s\<rparr>) p then faults_of_part (hc_systems h) p else 0)) part_all (su_faults s)"
    and "su_modules (suit_came_home h s) = map (\<lambda>(k, m). if \<not> part_on (s\<lparr>su_parts := parts h s\<rparr>) (MOUNTS ! k)
           \<or> mod_get (hc_modules h) k \<noteq> m then None else m) (enumerate 0 (su_modules s))"
    and "m < 3 \<Longrightarrow> su_mounts (suit_came_home h s) ! m \<Longrightarrow> su_mounts s ! m"
    and "m < 3 \<Longrightarrow> su_ammo (suit_came_home h s) ! m \<le> full_load s m"
  by (simp_all add: suit_came_home_def parts_def Let_def full_load_def weapon_on_def split: option.split)

lemma suit_came_home_ok:
  assumes ok: "suit_ok s" and len: "length (hc_parts h) = 6"
  shows "suit_ok (suit_came_home h s)"
proof -
  let ?h = "suit_came_home h s"
  define ps where "ps = su_parts ?h"
  have shape: "shape_ok s" using ok by (simp add: suit_ok_def)
  have on: "part_on (s\<lparr>su_parts := ps\<rparr>) = part_on ?h" by (rule part_on_cong) (simp add: ps_def)
  note eq = came_home_rest [where h = h and s = s, folded came_home_rest(1) [where h = h and s = s],
      folded ps_def, unfolded on]
  have "inside_ok ?h"
    unfolding inside_ok_def eq(2) by (simp add: faults_with_fold OK_def)
  moreover have "modules_ok ?h"
  proof -
    have m: "su_modules ?h ! k = (if \<not> part_on ?h (MOUNTS ! k) \<or> mod_get (hc_modules h) k \<noteq> su_modules s ! k
        then None else su_modules s ! k)" if "k < 5" for k
      using that shape unfolding eq(3) by (simp add: shape_ok_def nth_enumerate_eq)
    then have k: "su_modules s ! j = Some k \<and> part_on ?h (MOUNTS ! j)"
      if "su_modules ?h ! j = Some k" "j < 5" for j k
      using that by (auto split: if_splits)
    with ok show ?thesis
      unfolding suit_ok_def modules_ok_def module_ok_def by (fastforce split: option.splits)
  qed
  moreover have "guns_ok ?h"
    using ok eq(4,5) full_load_cong [of ?h s]
    by (auto simp: suit_ok_def guns_ok_def weapon_on_def)
  moreover have "list_all (\<lambda>n. n \<le> RACK) (su_kits ?h)" using ok by (simp add: suit_ok_def)
  ultimately show ?thesis
    using suit_came_home_shape [OF shape len] by (simp add: suit_ok_def)
qed


definition hangs_on :: "frame_id \<Rightarrow> nat option list \<Rightarrow> nat \<Rightarrow> bool" where
  "hangs_on line parts m = mount_has_its_part ((suit_complete line)\<lparr>su_parts := parts\<rparr>) m"

lemma mount_hangs_on: "mount_has_its_part s m = hangs_on (su_line s) (su_parts s) m"
proof -
  let ?t = "(suit_complete (su_line s))\<lparr>su_parts := su_parts s\<rparr>"
  have "part_on ?t = part_on s" by (rule part_on_cong) simp
  moreover have "su_line ?t = su_line s" by (simp add: suit_complete_def)
  ultimately show ?thesis unfolding hangs_on_def mount_has_its_part_def by (simp only:)
qed


text \<open>A sortie that lost its right arm.\<close>

definition torn_home :: homecoming where
  "torn_home = \<lparr>hc_frame = Argo, hc_parts = [1, 1 / 2, 1, 0, 1, 1], hc_mounts = 7, hc_ammo = [0, 100, 0],
     hc_propellant = 500, hc_grade = Standard, hc_systems = 0, hc_modules = 0, hc_kits = 0,
     hc_usage = \<lparr>us_burn = 0, us_boost = 0, us_shots = [0, 0, 0], us_overheats = 0\<rparr>,
     hc_cargo_kg = [0, 0, 0, 0], hc_held = None, hc_bounty = 100\<rparr>"


text \<open>A weapon is fitted whether or not the part it hangs on is there.\<close>

lemma weapon_fits_without_its_arm:
  "slot_for (suit_on \<lparr>pu_line = Argo, pu_part = Torso, pu_condition = 100, pu_faults = 0\<rparr>) (IWeapon BeamRifle)
     = Some (SMount 0)"
  "\<not> mount_has_its_part (suit_on \<lparr>pu_line = Argo, pu_part = Torso, pu_condition = 100, pu_faults = 0\<rparr>) 0"
  by (simp_all add: slot_for_def suit_on_def weapon_on_def line_weapon_on_def loadout_mount_def
      mount_has_its_part_def part_on_def upt_rec)

end
