(* ===== verification/Debrief.thy ===== *)
theory Debrief
  imports Suits
begin

text \<open>
  A sortie's payout sheet (\<open>crates/bc-econ/src/debrief.rs\<close>): what it earned and what it cost, line by
  line, at the colony's values. A line's label is a constructor of \<open>sheet\<close> instead of its text.
  The lemmas show that the sheet lists what was earned before what was spent, wherever the Charter
  Board's pay is put, and that its net is what its lines come to.
\<close>

datatype sheet =
    Bounties | OreHome | Salvage | PropellantBurnt | RoundsFired | TheRack | Armour | ShotOff | TheSuit
  | PatrolPaid nat bool
  | AcePaid string bool

record line =
  ln_what :: sheet
  ln_cr :: int

type_synonym debrief = "line list"

definition i64_max :: int where "i64_max = 9223372036854775807"

definition as_i64 :: "nat \<Rightarrow> int" where
  "as_i64 n = min (int n) i64_max"

definition net :: "debrief \<Rightarrow> int" where
  "net d = sum_list (map ln_cr d)"

definition earned :: "sheet \<Rightarrow> nat \<Rightarrow> debrief \<Rightarrow> debrief" where
  "earned what cr d = (if 0 < cr then d @ [\<lparr>ln_what = what, ln_cr = as_i64 cr\<rparr>] else d)"

definition paid :: "sheet \<Rightarrow> nat \<Rightarrow> debrief \<Rightarrow> debrief" where
  "paid what cr d =
     (if cr = 0 then d
      else insert_at (case position (\<lambda>l. ln_cr l < 0) d of Some k \<Rightarrow> k | None \<Rightarrow> length d)
             \<lparr>ln_what = what, ln_cr = as_i64 cr\<rparr> d)"

definition spent :: "sheet \<Rightarrow> nat \<Rightarrow> debrief \<Rightarrow> debrief" where
  "spent what cr d = (if 0 < cr then d @ [\<lparr>ln_what = what, ln_cr = - as_i64 cr\<rparr>] else d)"

text \<open>What \<open>rounds\<close> per mount are worth, as munitions.\<close>

definition rounds_worth :: "suit \<Rightarrow> nat list \<Rightarrow> nat" where
  "rounds_worth s rounds =
     sum_list (map (\<lambda>m. case weapon_on s m of
                          None \<Rightarrow> 0
                        | Some w \<Rightarrow>
                            let full = full_load s m
                            in if \<not> su_mounts s ! m \<or> full = 0 then 0
                               else worth MUNITIONS (colony_value MUNITIONS)
                                      (min (rounds ! m) full * munitions_per_load w div full)) [0..<3])"

definition suit_worth :: "suit \<Rightarrow> nat" where
  "suit_worth s =
     sum_list (map (\<lambda>(i, c). colony_value i * c div 100) (suit_items s))
     + worth (propellant_item (su_grade s)) (colony_value (propellant_item (su_grade s))) (su_propellant s)
     + rounds_worth s (su_ammo s)
     + sum_list (map (\<lambda>k. colony_value (IKit k) * su_kits s ! kit_ix k) kit_all)"

definition stores_worth :: "stores \<Rightarrow> nat" where
  "stores_worth st =
     sum_list (map (\<lambda>(i, q). worth i (colony_value i) q) (stock_list st))
     + sum_list (map (\<lambda>u. colony_value (pu_item u) * pu_condition u div 100) (shelf st))"

definition goods_worth :: "(item \<times> nat) list \<Rightarrow> nat" where
  "goods_worth gs = sum_list (map (\<lambda>(i, q). worth i (colony_value i) q) gs)"

definition armour_cost :: "suit \<Rightarrow> suit \<Rightarrow> nat" where
  "armour_cost out back =
     sum_list (map (\<lambda>(p, was, is). case (was, is) of
         (Some was, Some is) \<Rightarrow>
           if is < was then goods_worth (repair_cost (su_line out) p is was) else 0
       | _ \<Rightarrow> 0) (zip part_all (zip (su_parts out) (su_parts back))))"

definition shot_off_cost :: "suit \<Rightarrow> suit \<Rightarrow> nat" where
  "shot_off_cost out back =
     sum_list (map (\<lambda>(p, was, is). case (was, is) of
         (Some was, None) \<Rightarrow> colony_value (IPart (su_line out) p) * was div 100
       | _ \<Rightarrow> 0) (zip part_all (zip (su_parts out) (su_parts back))))
     + sum_list (map (\<lambda>m. case weapon_on out m of
           Some w \<Rightarrow> if su_mounts out ! m \<and> \<not> su_mounts back ! m then colony_value (IWeapon w) else 0
         | None \<Rightarrow> 0) [0..<3])
     + sum_list (map (\<lambda>(was, is). case (was, is) of
           (Some k, None) \<Rightarrow> colony_value (IModule k)
         | _ \<Rightarrow> 0) (zip (su_modules out) (su_modules back)))"

definition debrief_docked :: "suit \<Rightarrow> suit \<Rightarrow> nat list \<Rightarrow> nat \<Rightarrow> nat \<Rightarrow> nat \<Rightarrow> debrief" where
  "debrief_docked out back kits_back bounty ore salvage =
     (let fuel = propellant_item (su_grade out);
          burnt = su_propellant out - su_propellant back;
          fired = map (\<lambda>m. su_ammo out ! m - (if su_mounts back ! m then su_ammo back ! m else 0)) [0..<3];
          used = sum_list (map (\<lambda>k. colony_value (IKit k) * (su_kits out ! kit_ix k - kits_back ! kit_ix k)) kit_all)
      in spent ShotOff (shot_off_cost out back)
          (spent Armour (armour_cost out back)
          (spent TheRack used
          (spent RoundsFired (rounds_worth out fired)
          (spent PropellantBurnt (worth fuel (colony_value fuel) burnt)
          (earned Salvage salvage (earned OreHome ore (earned Bounties bounty []))))))))"

definition debrief_lost :: "suit option \<Rightarrow> nat \<Rightarrow> debrief" where
  "debrief_lost out bounty =
     (let d = earned Bounties bounty []
      in case out of None \<Rightarrow> d | Some s \<Rightarrow> spent TheSuit (suit_worth s) d)"

section \<open>Earned first, then spent\<close>

definition sheet_ok :: "debrief \<Rightarrow> bool" where
  "sheet_ok d \<longleftrightarrow> sorted_wrt (\<lambda>a b. ln_cr a < 0 \<longrightarrow> ln_cr b < 0) d \<and> list_all (\<lambda>l. ln_cr l \<noteq> 0) d"

lemma as_i64_pos: "0 < n \<Longrightarrow> 0 < as_i64 n"
  by (simp add: as_i64_def i64_max_def)

lemma sheet_ok_spent: "sheet_ok d \<Longrightarrow> sheet_ok (spent w n d)"
  using as_i64_pos [of n] by (auto simp: sheet_ok_def spent_def sorted_wrt_append)

lemma sheet_ok_earned: "sheet_ok d \<Longrightarrow> list_all (\<lambda>l. 0 < ln_cr l) d \<Longrightarrow>
    sheet_ok (earned w n d) \<and> list_all (\<lambda>l. 0 < ln_cr l) (earned w n d)"
  using as_i64_pos [of n] by (auto simp: sheet_ok_def earned_def sorted_wrt_append list_all_iff not_less [symmetric] less_imp_le)

lemma sheet_ok_paid:
  assumes "sheet_ok d"
  shows "sheet_ok (paid w n d)" and "net (paid w n d) = net d + as_i64 n"
proof -
  let ?k = "case position (\<lambda>l. ln_cr l < 0) d of Some k \<Rightarrow> k | None \<Rightarrow> length d"
  have pre: "\<not> ln_cr l < 0" if "l \<in> set (take ?k d)" for l
    using that by (auto simp: in_set_conv_nth position_None split: option.splits dest: position_Some)
  have post: "ln_cr l < 0" if "l \<in> set (drop ?k d)" for l
  proof (cases "position (\<lambda>l. ln_cr l < 0) d")
    case (Some k)
    then have k: "k < length d" "ln_cr (d ! k) < 0" by (auto dest: position_Some)
    from that Some obtain m where "m < length (drop k d)" "drop k d ! m = l"
      by (auto simp: in_set_conv_nth)
    with k have m: "l = d ! (k + m)" "k + m < length d" by auto
    show ?thesis
    proof (cases "m = 0")
      case False
      then have "k < k + m" by simp
      moreover have "\<forall>i j. i < j \<longrightarrow> j < length d \<longrightarrow> ln_cr (d ! i) < 0 \<longrightarrow> ln_cr (d ! j) < 0"
        using assms by (simp add: sheet_ok_def sorted_wrt_iff_nth_less)
      ultimately show ?thesis using k(2) m by blast
    qed (use k m in simp)
  qed (use that in simp)
  have "sorted_wrt (\<lambda>a b. ln_cr a < 0 \<longrightarrow> ln_cr b < 0) (take ?k d @ drop ?k d)"
    using assms by (simp add: sheet_ok_def)
  then have parts: "sorted_wrt (\<lambda>a b. ln_cr a < 0 \<longrightarrow> ln_cr b < 0) (take ?k d)"
    "sorted_wrt (\<lambda>a b. ln_cr a < 0 \<longrightarrow> ln_cr b < 0) (drop ?k d)"
    unfolding sorted_wrt_append by blast+
  show "sheet_ok (paid w n d)"
  proof (cases "n = 0")
    case True
    with assms show ?thesis by (simp add: paid_def)
  next
    case False
    define a b where "a = take ?k d" and "b = drop ?k d"
    have eq: "paid w n d = a @ \<lparr>ln_what = w, ln_cr = as_i64 n\<rparr> # b" and d: "d = a @ b"
      using False by (simp_all add: paid_def insert_at_def a_def b_def)
    have "list_all (\<lambda>l. ln_cr l \<noteq> 0) (a @ b)" using assms by (simp add: sheet_ok_def flip: d)
    moreover have "0 < as_i64 n" using False as_i64_pos by simp
    ultimately show ?thesis
      unfolding sheet_ok_def eq
      using parts [folded a_def b_def] pre [folded a_def] post [folded b_def]
      by (auto simp: sorted_wrt_append)
  qed
  show "net (paid w n d) = net d + as_i64 n"
    by (simp add: net_def paid_def sum_list_insert_at as_i64_def i64_max_def)
qed

lemma sheet_ok_docked: "sheet_ok (debrief_docked out back kb bounty ore salvage)"
proof -
  have "sheet_ok (earned Salvage salvage (earned OreHome ore (earned Bounties bounty [])))"
    using sheet_ok_earned [of "[]" Bounties bounty] sheet_ok_earned [of "earned Bounties bounty []" OreHome ore]
      sheet_ok_earned [of "earned OreHome ore (earned Bounties bounty [])" Salvage salvage]
    by (simp add: sheet_ok_def)
  then show ?thesis unfolding debrief_docked_def Let_def by (intro sheet_ok_spent)
qed

lemma sheet_ok_lost: "sheet_ok (debrief_lost out bounty)"
proof -
  have "sheet_ok (earned Bounties bounty [])"
    using sheet_ok_earned [of "[]"] by (simp add: sheet_ok_def)
  then show ?thesis by (simp add: debrief_lost_def Let_def sheet_ok_spent split: option.split)
qed

end
