(* ===== verification/Hangar.thy ===== *)
theory Hangar
  imports Debrief Exchange
begin

text \<open>
  A pilot's hangar bay (\<open>crates/bc-econ/src/hangar.rs\<close>): credits, stores, the suit standing in the bay
  (or out), the stations' queues, and every change a pilot asks for. An operation that can refuse
  returns what it tells the pilot (\<open>Inl\<close> a refusal, \<open>Inr\<close> a reply) with the hangar after it;
  the refusals and replies are the constructors of \<open>refusal\<close> and \<open>reply\<close>, with the numbers
  their sentences quote. A sortie's notes are the constructors of \<open>home_note\<close>. \<open>trade\<close> passes on
  the exchange's panic (theory Exchange) as \<open>None\<close>. The properties are in theory \<open>Gantry\<close>.
\<close>

section \<open>State\<close>

definition REISSUE_EVERY_SECS :: nat where "REISSUE_EVERY_SECS = 30 * 60"
definition SALVAGED_LIMB :: nat where "SALVAGED_LIMB = 15"
definition SALVAGED_HULK :: nat where "SALVAGED_HULK = 40"
definition MAX_BATCHES :: nat where "MAX_BATCHES = 500"

datatype bay = Empty | Docked suit | Out suit

record hangar =
  credits :: nat
  hstores :: stores
  hbay :: bay
  hworks :: works
  reissued_at :: "nat option"
  certified :: bool
  sortie_pay :: "line list"

definition hangar_empty :: hangar where
  "hangar_empty = \<lparr>credits = 0, hstores = stores_empty, hbay = Empty, hworks = works_empty,
     reissued_at = None, certified = False, sortie_pay = []\<rparr>"

definition worn_argo :: suit where
  "worn_argo =
     (let s = (suit_complete Argo)
            \<lparr>su_parts := [Some 70, Some 60, Some 55, Some 65, Some 60, Some 70],
             su_mounts := (su_mounts (suit_complete Argo))[0 := False],
             su_ammo := (su_ammo (suit_complete Argo))[0 := 0]\<rparr>
      in s\<lparr>su_propellant := tank s div 2, su_faults := sys_set (su_faults s) Radiators DAMAGED,
           su_weathering := \<lparr>we_sorties = 6, we_thrust = 12 * 60 * TICK_HZ, we_damage = 120, we_overheats = 0\<rparr>\<rparr>)"

datatype refusal =
    SuitIsOut | NoSuitInBay | BuildOneFirst | AlreadyOut
  | CantBeMade item | NotBatches | QueueFull station | FoundryWants nat | ShortOf "(item \<times> nat) list"
  | NoSuchJob
  | NoneInStores item | FitTorsoFirst | PartsDontFit frame_id frame_id | NoFreePlace item
  | NoModulePlace module_kind | NotFittable item | NotEquipment
  | StripElseFirst | NoPartFitted part | NoEquipmentThere | NoWeaponThere
  | NotEnoughToRepair | NothingToRepair | NotEnoughToOverhaul | NothingToOverhaul
  | CantBeScrapped item | NoSuitToFuel | TankDry grade
  | UnknownItem | TooFewToSell item nat | TooFewCredits nat nat | Exchange_refused refused

datatype reply =
    Queued nat item | JobCancelled | NewSuitStands item
  | FittedPart item nat systems | FittedItem item
  | BayEmpty | PartOff part "item list" | ItemOff item | NothingOff
  | AndPumpedBack reply nat
  | Repaired "(part \<times> nat \<times> nat) list"
  | Overhauled "(system \<times> bool) list"
  | Scrapped item "(item \<times> nat) list"
  | TankNow nat nat grade nat
  | Traded "fill_note list" "(nat \<times> nat) option" bool

type_synonym 's outcome = "(refusal + reply) \<times> 's"

record rules =
  craft_speed :: rat
  foundry_fee_pct :: nat
  foundry_speed :: rat

definition rules_default :: rules where
  "rules_default = \<lparr>craft_speed = 1, foundry_fee_pct = 100, foundry_speed = 1\<rparr>"

definition starter :: hangar where
  "starter =
     hangar_empty\<lparr>credits := 2000,
       hstores := st_add STEEL 200 (st_add MUNITIONS 100 (st_add PROPELLANT 600 stores_empty)),
       hbay := Docked worn_argo\<rparr>"

section \<open>The floor under loss\<close>

definition reissue :: "nat \<Rightarrow> hangar \<Rightarrow> frame_id option \<times> hangar" where
  "reissue now h =
     (if hbay h \<noteq> Empty \<or> list_ex (\<lambda>u. pu_part u = Torso) (shelf (hstores h)) then (None, h)
      else if (case reissued_at h of None \<Rightarrow> False | Some t \<Rightarrow> now < t + REISSUE_EVERY_SECS) then (None, h)
      else
        let goods = goods_worth (stock_list (hstores h));
            parts = sum_list (map (\<lambda>u. colony_value (pu_item u)) (shelf (hstores h)))
        in if colony_value (IPart Argo Torso) \<le> credits h + goods + parts then (None, h)
           else (Some Argo, h\<lparr>hbay := Docked worn_argo, reissued_at := Some now\<rparr>))"

definition suit_of :: "hangar \<Rightarrow> suit option" where
  "suit_of h = (case hbay h of Docked s \<Rightarrow> Some s | _ \<Rightarrow> None)"

definition hangar_weathering :: "hangar \<Rightarrow> nat" where
  "hangar_weathering h =
     (case hbay h of Docked s \<Rightarrow> weather_level (su_weathering s) | Out s \<Rightarrow> weather_level (su_weathering s)
      | Empty \<Rightarrow> 0)"

definition suit_mut :: "hangar \<Rightarrow> refusal + suit" where
  "suit_mut h = (case hbay h of Docked s \<Rightarrow> Inr s | Out _ \<Rightarrow> Inl SuitIsOut | Empty \<Rightarrow> Inl NoSuitInBay)"

section \<open>The stations\<close>

definition add_goods_list :: "(item \<times> nat) list \<Rightarrow> stores \<Rightarrow> stores" where
  "add_goods_list gs st = fold (\<lambda>(i, q). st_add i q) gs st"

definition hangar_settle :: "nat \<Rightarrow> hangar \<Rightarrow> (item \<times> nat) list \<times> hangar" where
  "hangar_settle now h =
     (let (w, out) = works_settle now (hworks h)
      in (out, h\<lparr>hworks := w, hstores := add_goods_list out (hstores h)\<rparr>))"

definition job_secs :: "recipe \<Rightarrow> rules \<Rightarrow> nat" where
  "job_secs r rules =
     (let speed = rn64 (craft_speed rules * (if r_station r = FoundryStation then foundry_speed rules else 1))
      in to_nat_trunc u32_max
           (max (of_int (round_away (rn64 (of_nat (r_secs r) / max speed (rn64 (1 / 1000)))))) 1))"

definition craft :: "item \<Rightarrow> nat \<Rightarrow> nat \<Rightarrow> rules \<Rightarrow> hangar \<Rightarrow> hangar outcome" where
  "craft i batches now rules h0 =
     (case recipe_of i of
        None \<Rightarrow> (Inl (CantBeMade i), h0)
      | Some r \<Rightarrow>
          if batches = 0 \<or> MAX_BATCHES < batches then (Inl NotBatches, h0)
          else
            let h = snd (hangar_settle now h0); q = works_queue (r_station r) (hworks h);
                fee = r_fee r * batches * foundry_fee_pct rules div 100
            in if queue_is_full q then (Inl (QueueFull (r_station r)), h)
               else if credits h < fee then (Inl (FoundryWants fee), h)
               else if \<not> has_all (hstores h) (r_inputs r) batches
               then (Inl (ShortOf (map (\<lambda>(j, n). (j, n * batches - st_get (hstores h) j))
                       (filter (\<lambda>(j, n). \<not> st_has (hstores h) j (n * batches)) (r_inputs r)))), h)
               else (Inr (Queued batches i),
                     h\<lparr>hstores := snd (take_all (r_inputs r) batches (hstores h)),
                       credits := credits h - fee,
                       hworks := works_set (r_station r)
                         (queue_push i batches (job_secs r rules) now (foundry_fee_pct rules) q) (hworks h)\<rparr>))"

definition cancel_job :: "station \<Rightarrow> nat \<Rightarrow> nat \<Rightarrow> hangar \<Rightarrow> hangar outcome" where
  "cancel_job station index now h0 =
     (let h = snd (hangar_settle now h0);
          (back, q) = queue_cancel index now (works_queue station (hworks h));
          h1 = h\<lparr>hworks := works_set station q (hworks h)\<rparr>
      in case back of
           None \<Rightarrow> (Inl NoSuchJob, h1)
         | Some (refund, fee) \<Rightarrow>
             (Inr JobCancelled, h1\<lparr>hstores := add_all refund 1 (hstores h1), credits := credits h1 + fee\<rparr>))"

section \<open>Fitting and stripping\<close>

definition fit_slot :: "item \<Rightarrow> slot \<Rightarrow> suit \<Rightarrow> hangar \<Rightarrow> hangar outcome" where
  "fit_slot i slot s h =
     (case slot of
        SPart p \<Rightarrow>
          (case take_best_part (su_line s) p (hstores h) of
             None \<Rightarrow> (Inl (NoneInStores i), h)
           | Some (u, st) \<Rightarrow>
               (Inr (FittedPart i (pu_condition u) (pu_faults u)),
                h\<lparr>hstores := st,
                  hbay := Docked (s\<lparr>su_parts := (su_parts s)[part_ix p := Some (pu_condition u)],
                                    su_faults := faults_with_part (su_faults s) p (pu_faults u)\<rparr>)\<rparr>))
      | SModule m \<Rightarrow>
          (let (ok, st) = st_take i 1 (hstores h)
           in if \<not> ok then (Inl (NoneInStores i), h)
              else (case i of
                      IModule k \<Rightarrow>
                        (Inr (FittedItem i),
                         h\<lparr>hstores := st, hbay := Docked (s\<lparr>su_modules := (su_modules s)[m := Some k]\<rparr>)\<rparr>)
                    | _ \<Rightarrow> (Inl NotEquipment, h\<lparr>hstores := st\<rparr>)))
      | SMount m \<Rightarrow>
          (let (ok, st) = st_take i 1 (hstores h)
           in if \<not> ok then (Inl (NoneInStores i), h)
              else (Inr (FittedItem i),
                    h\<lparr>hstores := st,
                      hbay := Docked (s\<lparr>su_mounts := (su_mounts s)[m := True],
                                        su_ammo := (su_ammo s)[m := 0]\<rparr>)\<rparr>)))"

definition no_slot :: "item \<Rightarrow> frame_id \<Rightarrow> refusal" where
  "no_slot i line =
     (case i of
        IPart other _ \<Rightarrow> if other \<noteq> line then PartsDontFit other line else NoFreePlace i
      | IWeapon _ \<Rightarrow> NoFreePlace i
      | IModule k \<Rightarrow> NoModulePlace k
      | _ \<Rightarrow> NotFittable i)"

definition fit :: "item \<Rightarrow> hangar \<Rightarrow> hangar outcome" where
  "fit i h =
     (case hbay h of
        Empty \<Rightarrow>
          (case i of
             IPart line Torso \<Rightarrow>
               (case take_best_part line Torso (hstores h) of
                  None \<Rightarrow> (Inl (NoneInStores i), h)
                | Some (u, st) \<Rightarrow> (Inr (NewSuitStands i), h\<lparr>hstores := st, hbay := Docked (suit_on u)\<rparr>))
           | _ \<Rightarrow> (Inl FitTorsoFirst, h))
      | Out _ \<Rightarrow> (Inl SuitIsOut, h)
      | Docked s \<Rightarrow>
          (case slot_for s i of
             None \<Rightarrow> (Inl (no_slot i (su_line s)), h)
           | Some slot \<Rightarrow> fit_slot i slot s h))"

definition unmount :: "nat \<Rightarrow> suit \<Rightarrow> stores \<Rightarrow> (item list \<times> suit \<times> stores)" where
  "unmount m s st =
     (case weapon_on s m of
        None \<Rightarrow> ([], s, st)
      | Some w \<Rightarrow>
          let rounds = su_ammo s ! m;
              s' = s\<lparr>su_mounts := (su_mounts s)[m := False], su_ammo := (su_ammo s)[m := 0]\<rparr>;
              full = full_load s' m;
              st1 = (if 0 < full then st_add MUNITIONS (rounds * munitions_per_load w div full) st else st)
          in ([IWeapon w], s', st_add (IWeapon w) 1 st1))"

text \<open>The equipment on part \<open>p\<close> comes off: what came off, in mount order, and what stays.\<close>

definition take_gear :: "part \<Rightarrow> module_kind option list \<Rightarrow> module_kind list \<times> module_kind option list" where
  "take_gear p ms =
     (concat (map (\<lambda>(k, m). if MOUNTS ! k = p then (case m of None \<Rightarrow> [] | Some x \<Rightarrow> [x]) else []) (enumerate 0 ms)),
      map (\<lambda>(k, m). if MOUNTS ! k = p then None else m) (enumerate 0 ms))"

definition strip_torso :: "suit \<Rightarrow> hangar \<Rightarrow> hangar outcome" where
  "strip_torso s h =
     (if 1 < length (fitted s) \<or> list_ex (\<lambda>m. m) (su_mounts s) then (Inl StripElseFirst, h)
      else if list_ex (\<lambda>m. m \<noteq> None) (su_modules s) then (Inl StripElseFirst, h)
      else
        let u = \<lparr>pu_line = su_line s, pu_part = Torso, pu_condition = bor 1 (su_parts s ! part_ix Torso),
                 pu_faults = faults_of_part (su_faults s) Torso\<rparr>
        in (Inr BayEmpty,
            h\<lparr>hstores := st_add (propellant_item (su_grade s)) (su_propellant s) (add_part u (hstores h)),
              hbay := Empty\<rparr>))"

text \<open>The suit with part \<open>p\<close>, what is inside it and its equipment off.\<close>

definition bare_part :: "part \<Rightarrow> suit \<Rightarrow> suit" where
  "bare_part p s =
     s\<lparr>su_parts := (su_parts s)[part_ix p := None], su_faults := faults_with_part (su_faults s) p 0,
       su_wear := fold (\<lambda>sys. wear_reset sys (su_line s)) (systems_of_part p) (su_wear s),
       su_modules := snd (take_gear p (su_modules s))\<rparr>"

definition unmount_more :: "nat \<Rightarrow> item list \<times> suit \<times> stores \<Rightarrow> item list \<times> suit \<times> stores" where
  "unmount_more m st0 = (let (ns, s, st) = st0; (n, s', st') = unmount m s st in (ns @ n, s', st'))"

definition strip_part :: "part \<Rightarrow> suit \<Rightarrow> hangar \<Rightarrow> hangar outcome" where
  "strip_part p s h =
     (case su_parts s ! part_ix p of
        None \<Rightarrow> (Inl (NoPartFitted p), h)
      | Some condition \<Rightarrow>
          let gear = fst (take_gear p (su_modules s));
              t = bare_part p s;
              off = filter (\<lambda>m. su_mounts t ! m \<and> \<not> mount_has_its_part t m) [0..<3];
              (names, s', st1) = fold unmount_more off ([], t, hstores h);
              st2 = fold (\<lambda>k. st_add (IModule k) 1) gear st1;
              u = \<lparr>pu_line = su_line s, pu_part = p, pu_condition = condition,
                   pu_faults = faults_of_part (su_faults s) p\<rparr>
          in (Inr (PartOff p (names @ map IModule gear)),
              h\<lparr>hstores := add_part u st2, hbay := Docked s'\<rparr>))"

definition strip_off :: "slot \<Rightarrow> hangar \<Rightarrow> hangar outcome" where
  "strip_off slot h =
     (case suit_mut h of
        Inl e \<Rightarrow> (Inl e, h)
      | Inr s \<Rightarrow>
          (case slot of
             SPart p \<Rightarrow> if p = Torso then strip_torso s h else strip_part p s h
           | SModule m \<Rightarrow>
               (case (if m < length (su_modules s) then su_modules s ! m else None) of
                  None \<Rightarrow> (Inl NoEquipmentThere, h)
                | Some k \<Rightarrow>
                    (Inr (ItemOff (IModule k)),
                     h\<lparr>hstores := st_add (IModule k) 1 (hstores h),
                       hbay := Docked (s\<lparr>su_modules := (su_modules s)[m := None]\<rparr>)\<rparr>))
           | SMount m \<Rightarrow>
               if 3 \<le> m \<or> \<not> su_mounts s ! m then (Inl NoWeaponThere, h)
               else
                 let (ns, s', st) = unmount m s (hstores h)
                 in (Inr (case ns of [] \<Rightarrow> NothingOff | n # _ \<Rightarrow> ItemOff n),
                     h\<lparr>hstores := st, hbay := Docked s'\<rparr>)))"

definition settle_tank :: "hangar \<Rightarrow> nat \<times> hangar" where
  "settle_tank h =
     (case hbay h of
        Docked s \<Rightarrow>
          let over = su_propellant s - tank s
          in (over, h\<lparr>hbay := Docked (s\<lparr>su_propellant := su_propellant s - over\<rparr>),
                      hstores := st_add (propellant_item (su_grade s)) over (hstores h)\<rparr>)
      | _ \<Rightarrow> (0, h))"

definition strip :: "slot \<Rightarrow> hangar \<Rightarrow> hangar outcome" where
  "strip slot h =
     (case strip_off slot h of
        (Inl e, h1) \<Rightarrow> (Inl e, h1)
      | (Inr r, h1) \<Rightarrow>
          (let (kg, h2) = settle_tank h1 in (Inr (if kg = 0 then r else AndPumpedBack r kg), h2)))"

definition dismantle :: "hangar \<Rightarrow> hangar outcome" where
  "dismantle h =
     (case suit_mut h of
        Inl e \<Rightarrow> (Inl e, h)
      | Inr _ \<Rightarrow>
          let h1 = fold (\<lambda>m h. snd (strip (SMount m) h)) [0..<3] h;
              h2 = fold (\<lambda>m h. snd (strip (SModule m) h)) [0..<length MOUNTS] h1;
              h3 = fold (\<lambda>p h. if p \<noteq> Torso then snd (strip (SPart p) h) else h) part_all h2
          in strip (SPart Torso) h3)"

section \<open>Repairs\<close>

text \<open>The furthest a part can go from \<open>from\<close> with what is in the stores.\<close>

primrec repair_to :: "stores \<Rightarrow> frame_id \<Rightarrow> part \<Rightarrow> nat \<Rightarrow> nat \<Rightarrow> nat" where
  "repair_to st line p from 0 = 0"
| "repair_to st line p from (Suc t) =
     (if from < Suc t \<and> \<not> has_all st (repair_cost line p from (Suc t)) 1
      then repair_to st line p from t else Suc t)"

definition repair_one :: "suit \<Rightarrow> part \<Rightarrow> (part \<times> nat \<times> nat) list \<times> bool \<times> suit \<times> stores
    \<Rightarrow> (part \<times> nat \<times> nat) list \<times> bool \<times> suit \<times> stores" where
  "repair_one was p st0 =
     (let (fixed, short, s, st) = st0
      in case su_parts was ! part_ix p of
           None \<Rightarrow> st0
         | Some from \<Rightarrow>
             let to = repair_to st (su_line was) p from 100; short' = (short \<or> to < 100)
             in if from < to
                then (fixed @ [(p, from, to)], short',
                      s\<lparr>su_parts := (su_parts s)[part_ix p := Some to]\<rparr>,
                      snd (take_all (repair_cost (su_line was) p from to) 1 st))
                else (fixed, short', s, st))"

definition repair :: "part option \<Rightarrow> hangar \<Rightarrow> hangar outcome" where
  "repair p h =
     (case suit_mut h of
        Inl e \<Rightarrow> (Inl e, h)
      | Inr s \<Rightarrow>
          let parts = (case p of Some p \<Rightarrow> [p] | None \<Rightarrow> map fst (fitted s));
              (fixed, short, s', st) = fold (repair_one s) parts ([], False, s, hstores h);
              h' = h\<lparr>hbay := Docked s', hstores := st\<rparr>
          in if fixed \<noteq> [] then (Inr (Repaired fixed), h')
             else if short then (Inl NotEnoughToRepair, h')
             else (Inl NothingToRepair, h'))"

definition overhaul_one :: "suit \<Rightarrow> part option \<Rightarrow> system \<times> nat \<Rightarrow> (system \<times> bool) list \<times> bool \<times> suit \<times> stores
    \<Rightarrow> (system \<times> bool) list \<times> bool \<times> suit \<times> stores" where
  "overhaul_one was p e st0 =
     (let (sys, level) = e; (fixed, short, s, st) = st0
      in if (case p of Some p \<Rightarrow> p \<noteq> system_part sys | None \<Rightarrow> False) \<or> \<not> part_on was (system_part sys) then st0
         else
           let (ok, st') = take_all (overhaul_cost (su_line was) level) 1 st
           in if \<not> ok then (fixed, True, s, st)
              else (fixed @ [(sys, False)], short,
                    s\<lparr>su_faults := sys_set (su_faults s) sys OK,
                      su_wear := wear_reset sys (su_line was) (su_wear s)\<rparr>, st'))"

definition service_one :: "suit \<Rightarrow> part option \<Rightarrow> system \<times> rat \<Rightarrow> (system \<times> bool) list \<times> bool \<times> suit \<times> stores
    \<Rightarrow> (system \<times> bool) list \<times> bool \<times> suit \<times> stores" where
  "service_one was p e st0 =
     (let (sys, f) = e; (fixed, short, s, st) = st0
      in if f < SERVICE_FROM \<or> \<not> part_on was (system_part sys)
            \<or> (case p of Some p \<Rightarrow> p \<noteq> system_part sys | None \<Rightarrow> False)
            \<or> sys_get (su_faults was) sys \<noteq> OK then st0
         else
           let (ok, st') = take_all (service_cost (su_line was)) 1 st
           in if \<not> ok then (fixed, True, s, st)
              else (fixed @ [(sys, True)], short,
                    s\<lparr>su_wear := wear_reset sys (su_line was) (su_wear s)\<rparr>, st'))"

definition overhaul :: "part option \<Rightarrow> hangar \<Rightarrow> hangar outcome" where
  "overhaul p h =
     (case suit_mut h of
        Inl e \<Rightarrow> (Inl e, h)
      | Inr s \<Rightarrow>
          let st1 = fold (overhaul_one s p) (faults_iter (su_faults s)) ([], False, s, hstores h);
              (fixed, short, s', st) = fold (service_one s p) (wear_systems (su_line s) (su_wear s)) st1;
              h' = h\<lparr>hbay := Docked s', hstores := st\<rparr>
          in if fixed \<noteq> [] then (Inr (Overhauled fixed), h')
             else if short then (Inl NotEnoughToOverhaul, h')
             else (Inl NothingToOverhaul, h'))"

definition scrap :: "item \<Rightarrow> hangar \<Rightarrow> hangar outcome" where
  "scrap i h =
     (let got = (case i of
                   IPart line p \<Rightarrow> map_option (\<lambda>(u, st). (pu_condition u, st)) (take_worst_part line p (hstores h))
                 | IWeapon _ \<Rightarrow> (let (ok, st) = st_take i 1 (hstores h) in if ok then Some (100, st) else None)
                 | IModule _ \<Rightarrow> (let (ok, st) = st_take i 1 (hstores h) in if ok then Some (100, st) else None)
                 | _ \<Rightarrow> None)
      in case got of
           None \<Rightarrow> (Inl (case i of IPart _ _ \<Rightarrow> NoneInStores i | _ \<Rightarrow> CantBeScrapped i), h)
         | Some (condition, st) \<Rightarrow>
             let back = scrap_yield i condition
             in (Inr (Scrapped i back), h\<lparr>hstores := add_all back 1 st\<rparr>))"

section \<open>Launching\<close>

definition fuel :: "grade \<Rightarrow> hangar \<Rightarrow> hangar outcome" where
  "fuel g h =
     (case hbay h of
        Docked s \<Rightarrow>
          let pumped = (if su_grade s \<noteq> g then su_propellant s else 0);
              st1 = (if su_grade s \<noteq> g then st_add (propellant_item (su_grade s)) pumped (hstores h) else hstores h);
              s1 = (if su_grade s \<noteq> g then s\<lparr>su_propellant := 0, su_grade := g\<rparr> else s);
              (got, st2) = take_up_to (propellant_item g) (tank s1 - su_propellant s1) st1;
              s2 = s1\<lparr>su_propellant := su_propellant s1 + got\<rparr>
          in (Inr (TankNow (su_propellant s2) (tank s2) g pumped), h\<lparr>hstores := st2, hbay := Docked s2\<rparr>)
      | _ \<Rightarrow> (Inl NoSuitToFuel, h))"

definition reload :: "nat \<Rightarrow> suit \<times> stores \<Rightarrow> suit \<times> stores" where
  "reload m st0 =
     (let (s, st) = st0
      in case weapon_on s m of
           None \<Rightarrow> st0
         | Some w \<Rightarrow>
             let full = full_load s m
             in if \<not> su_mounts s ! m \<or> full = 0 then st0
                else
                  let per_load = munitions_per_load w;
                      need = full - min (su_ammo s ! m) full;
                      kg = div_ceil (need * per_load) full;
                      have' = st_get st MUNITIONS;
                      (kg, rounds) = (if kg \<le> have' then (kg, need) else (have', have' * full div per_load))
                  in (s\<lparr>su_ammo := (su_ammo s)[m := min (su_ammo s ! m + rounds) full]\<rparr>,
                      snd (st_take MUNITIONS kg st)))"

definition take_kit :: "kit \<Rightarrow> suit \<times> stores \<Rightarrow> suit \<times> stores" where
  "take_kit k st0 =
     (let (s, st) = st0; (n, st') = take_up_to (IKit k) RACK st
      in (s\<lparr>su_kits := (su_kits s)[kit_ix k := n]\<rparr>, st'))"

definition launch :: "hangar \<Rightarrow> (refusal + loadout) \<times> hangar" where
  "launch h =
     (case hbay h of
        Out _ \<Rightarrow> (Inl AlreadyOut, h)
      | Empty \<Rightarrow> (Inl BuildOneFirst, h)
      | Docked s \<Rightarrow>
          let (got, st1) = take_up_to (propellant_item (su_grade s)) (tank s - su_propellant s) (hstores h);
              s1 = s\<lparr>su_propellant := su_propellant s + got\<rparr>
          in if su_propellant s1 = 0 then (Inl (TankDry (su_grade s1)), h\<lparr>hstores := st1\<rparr>)
             else
               let (s2, st2) = fold take_kit kit_all (fold reload [0..<3] (s1, st1))
               in (Inr (loadout_of s2), h\<lparr>hstores := st2, hbay := Out s2, sortie_pay := []\<rparr>))"

section \<open>Home, lost and towed\<close>

datatype home_note =
    DockedNote | Brought item nat | Salvaged item nat | ScrapMetal item nat | BountyPaid nat | WornOut system
  | TugsFoundNothing | TugsBroughtWreck | TugsFoundNothingOf string | TugsBroughtWreckOf string

definition board_paid :: "sheet \<Rightarrow> nat \<Rightarrow> hangar \<Rightarrow> hangar" where
  "board_paid what cr h =
     (if 0 < cr then h\<lparr>sortie_pay := sortie_pay h @ [\<lparr>ln_what = what, ln_cr = as_i64 cr\<rparr>]\<rparr> else h)"

definition drain_sortie_pay :: "hangar \<Rightarrow> debrief \<Rightarrow> debrief \<times> hangar" where
  "drain_sortie_pay h d = (fold (\<lambda>l. paid (ln_what l) (nat \<bar>ln_cr l\<bar>)) (sortie_pay h) d, h\<lparr>sortie_pay := []\<rparr>)"

definition scrap_metal :: "frame_id \<Rightarrow> nat \<Rightarrow> stores \<Rightarrow> home_note list \<times> stores" where
  "scrap_metal line kg st =
     (let i = IOre (if is_lodestar line then Exotics else Titanium)
      in ([ScrapMetal i kg], st_add i kg st))"

definition salvage_part :: "frame_id \<Rightarrow> part \<Rightarrow> nat \<Rightarrow> nat \<Rightarrow> stores \<Rightarrow> home_note list \<times> stores" where
  "salvage_part line p condition level st =
     ([Salvaged (IPart line p) condition],
      add_part \<lparr>pu_line = line, pu_part = p, pu_condition = condition, pu_faults = faults_all p level\<rparr> st)"

definition salvage_hulk_part :: "frame_id \<Rightarrow> nat \<Rightarrow> part \<Rightarrow> home_note list \<times> stores \<Rightarrow> home_note list \<times> stores" where
  "salvage_hulk_part frame parts p st0 =
     (let (ns, st) = st0; line = line_of frame
      in if \<not> bit_of parts (part_ix p) then st0
         else
           let (n, st') = (if is_line line \<and> p \<noteq> Torso then salvage_part line p SALVAGED_HULK DAMAGED st
                           else scrap_metal line (part_mass_kg frame p) st)
           in (ns @ n, st'))"

definition salvage :: "chunk \<Rightarrow> stores \<Rightarrow> home_note list \<times> stores" where
  "salvage c st =
     (case ch_kind c of
        ChunkOre k \<Rightarrow>
          (case ore_from_cargo k of
             None \<Rightarrow> ([], st)
           | Some a \<Rightarrow> ([Brought (IOre a) (ch_mass_kg c)], st_add (IOre a) (ch_mass_kg c) st))
      | ChunkLimb frame p \<Rightarrow>
          (let line = line_of frame
           in if is_line line then salvage_part line p SALVAGED_LIMB FAILED st
              else scrap_metal line (ch_mass_kg c) st)
      | ChunkHulk frame parts \<Rightarrow> fold (salvage_hulk_part frame parts) part_all ([], st))"

definition home_ore :: "nat \<times> nat \<Rightarrow> home_note list \<times> nat \<times> stores \<Rightarrow> home_note list \<times> nat \<times> stores" where
  "home_ore e st0 =
     (let (kind, kg) = e; (ns, wrth, st) = st0
      in case ore_from_cargo kind of
           None \<Rightarrow> st0
         | Some a \<Rightarrow>
             if 0 < kg then (ns @ [Brought (IOre a) kg], wrth + worth (IOre a) (colony_value (IOre a)) kg,
                             st_add (IOre a) kg st)
             else st0)"

definition rack_home :: "homecoming \<Rightarrow> stores \<Rightarrow> stores" where
  "rack_home hc st = fold (\<lambda>k. st_add (IKit k) (kits_get (hc_kits hc) k)) kit_all st"

definition suit_flown :: "hangar \<Rightarrow> homecoming \<Rightarrow> suit" where
  "suit_flown h hc =
     (case hbay h of Out s \<Rightarrow> s | Docked s \<Rightarrow> s | Empty \<Rightarrow> suit_complete (line_of (hc_frame hc)))"

text \<open>The suit with the sortie on it: what is left, its paint, its wear, and what wore out.\<close>

definition suit_home :: "homecoming \<Rightarrow> suit \<Rightarrow> suit \<times> system list" where
  "suit_home hc out =
     (let s1 = suit_came_home hc out;
          s2 = s1\<lparr>su_weathering := weather_sortie (hc_usage hc) (su_parts out) (su_parts s1) (su_weathering s1)\<rparr>;
          (w, faults, worn) = wear_out (su_line s2) (part_on s2) (wear_add (hc_usage hc) (su_wear s2)) (su_faults s2)
      in (s2\<lparr>su_wear := w, su_faults := faults, su_kits := replicate 4 0\<rparr>, worn))"

definition came_home :: "homecoming \<Rightarrow> hangar \<Rightarrow> home_note list \<times> debrief \<times> hangar" where
  "came_home hc h =
     (let out = suit_flown h hc;
          (s, worn) = suit_home hc out;
          (ns1, ore, st1) = fold home_ore (enumerate 0 (hc_cargo_kg hc)) ([DockedNote], 0, rack_home hc (hstores h));
          (ns2, st2) = (case hc_held hc of None \<Rightarrow> ([], st1) | Some c \<Rightarrow> salvage c st1);
          salvaged = (case hc_held hc of None \<Rightarrow> 0 | Some _ \<Rightarrow> stores_worth st2 - stores_worth st1);
          h1 = h\<lparr>hbay := Docked s, hstores := st2, credits := credits h + hc_bounty hc\<rparr>;
          d = debrief_docked out s (map (kits_get (hc_kits hc)) kit_all) (hc_bounty hc) ore salvaged;
          (d', h2) = drain_sortie_pay h1 d
      in (ns1 @ ns2 @ (if 0 < hc_bounty hc then [BountyPaid (hc_bounty hc)] else []) @ map WornOut worn, d', h2))"

definition lost :: "nat \<Rightarrow> hangar \<Rightarrow> debrief \<times> hangar" where
  "lost bounty h =
     (let out = (case hbay h of Out s \<Rightarrow> Some s | _ \<Rightarrow> None);
          (d, h1) = drain_sortie_pay (h\<lparr>hbay := Empty\<rparr>) (debrief_lost out bounty)
      in (d, h1\<lparr>credits := credits h1 + bounty\<rparr>))"

definition towed :: "chunk option \<Rightarrow> bool \<Rightarrow> stores \<Rightarrow> home_note list \<times> stores" where
  "towed wreck torso st =
     (case wreck of
        None \<Rightarrow> ([TugsFoundNothing], st)
      | Some c \<Rightarrow>
          let (ns, st') =
            (case ch_kind c of
               ChunkHulk frame parts \<Rightarrow>
                 if torso \<and> bit_of parts (part_ix Torso)
                 then let line = line_of frame;
                          (n1, st1) = (if is_line line then salvage_part line Torso SALVAGED_HULK DAMAGED st else ([], st));
                          (n2, st2) = salvage (c\<lparr>ch_kind := ChunkHulk frame (parts - 2 ^ part_ix Torso)\<rparr>) st1
                      in (n1 @ n2, st2)
                 else salvage c st
             | _ \<Rightarrow> salvage c st)
          in (TugsBroughtWreck # ns, st'))"

definition towed_ace :: "chunk option \<Rightarrow> string \<Rightarrow> stores \<Rightarrow> home_note list \<times> stores" where
  "towed_ace wreck name st =
     (case wreck of
        None \<Rightarrow> ([TugsFoundNothingOf name], st)
      | Some c \<Rightarrow> (let (ns, st') = salvage c st in (TugsBroughtWreckOf name # ns, st')))"

definition recover :: "hangar \<Rightarrow> bool \<times> hangar" where
  "recover h =
     (case hbay h of
        Out s \<Rightarrow>
          (True, h\<lparr>hstores := fold (\<lambda>k. st_add (IKit k) (su_kits s ! kit_ix k)) kit_all (hstores h),
                   hbay := Docked (s\<lparr>su_kits := replicate 4 0\<rparr>)\<rparr>)
      | _ \<Rightarrow> (False, h))"

section \<open>Trading\<close>

definition collect :: "exchange \<Rightarrow> trader \<Rightarrow> hangar \<Rightarrow> fill_note list \<times> exchange \<times> hangar" where
  "collect e t h =
     (let (a, e') = ex_collect t e
      in (ac_notes a, e',
          h\<lparr>credits := credits h + ac_credits a, hstores := add_goods_list (entries (ac_goods a)) (hstores h)\<rparr>))"

definition take_escrow :: "item \<Rightarrow> side \<Rightarrow> nat \<Rightarrow> nat \<Rightarrow> hangar \<Rightarrow> refusal + nat \<times> hangar" where
  "take_escrow i s price qty h =
     (case s of
        Sell \<Rightarrow>
          (let (ok, st) = st_take i qty (hstores h)
           in if \<not> ok then Inl (TooFewToSell i (st_get (hstores h) i)) else Inr (0, h\<lparr>hstores := st\<rparr>))
      | Buy \<Rightarrow>
          (let e = escrow_for i price qty
           in if credits h < e then Inl (TooFewCredits e (credits h)) else Inr (e, h\<lparr>credits := credits h - e\<rparr>)))"

definition hand_escrow_back :: "item \<Rightarrow> side \<Rightarrow> nat \<Rightarrow> nat \<Rightarrow> hangar \<Rightarrow> hangar" where
  "hand_escrow_back i s qty escrow h =
     (case s of Sell \<Rightarrow> h\<lparr>hstores := st_add i qty (hstores h)\<rparr> | Buy \<Rightarrow> h\<lparr>credits := credits h + escrow\<rparr>)"

definition hangar_trade :: "(rat \<Rightarrow> rat \<Rightarrow> rat) \<Rightarrow> exchange \<Rightarrow> trader \<Rightarrow> item \<Rightarrow> side \<Rightarrow> nat \<Rightarrow> nat \<Rightarrow> bool \<Rightarrow> hangar
    \<Rightarrow> (exchange \<times> hangar) outcome option" where
  "hangar_trade pw e t i s price qty rest h =
     (if \<not> item_valid i then Some (Inl UnknownItem, e, h)
      else
        case take_escrow i s price qty h of
          Inl r \<Rightarrow> Some (Inl r, e, h)
        | Inr (escrow, h1) \<Rightarrow>
            map_option
              (\<lambda>(r, e1). case r of
                 Inl why \<Rightarrow> (Inl (Exchange_refused why), e1, hand_escrow_back i s qty escrow h1)
               | Inr pl \<Rightarrow>
                   (let (ns, e2, h2) = collect e1 t h1;
                        waiting = map_option (\<lambda>k. (k, case find (\<lambda>od. o_id od = k) (orders_of t e2) of
                                                        None \<Rightarrow> 0 | Some od \<Rightarrow> o_qty od)) (p_resting pl)
                    in (Inr (Traded ns waiting (p_resting pl = None \<and> p_fills pl = [])), e2, h2)))
              (place pw t i s price qty escrow rest e))"

end
