(* ===== verification/Gantry.thy ===== *)
theory Gantry
  imports Hangar Closing
begin

text \<open>
  What the hangar's operations (theory Hangar) keep and promise. A hangar is in order when its
  stores are tidy and the suit in the bay, or out, is well formed; \<open>career\<close> is every way the code
  changes a hangar, as a step relation, and every hangar a career reaches from the starter is in
  order. Then, operation by operation: what a craft takes a cancel gives back, a launch fills the
  tank and the guns only from the stores, trading conserves credits, repairs only improve.
\<close>

declare st_add.simps [simp del] st_get.simps [simp del]

section \<open>Small changes to a suit\<close>

lemma suit_ok_plain [simp]:
  "suit_ok (s\<lparr>su_propellant := n\<rparr>) = suit_ok s" "suit_ok (s\<lparr>su_grade := g\<rparr>) = suit_ok s"
  "suit_ok (s\<lparr>su_weathering := w\<rparr>) = suit_ok s"
  by (simp_all add: suit_ok_defs part_on_def full_load_def weapon_on_def cong: option.case_cong)

lemma length_wear_reset [simp]: "length (wr_rounds (wear_reset sys line w)) = length (wr_rounds w)"
  by (cases sys) (simp_all add: wear_reset_def)

lemma suit_ok_wear: "suit_ok s \<Longrightarrow> length (wr_rounds w) = 3 \<Longrightarrow> suit_ok (s\<lparr>su_wear := w\<rparr>)"
  by (simp add: suit_ok_defs part_on_def full_load_def weapon_on_def cong: option.case_cong)

lemma suit_ok_wear_length: "suit_ok s \<Longrightarrow> length (wr_rounds (su_wear s)) = 3"
  by (simp add: suit_ok_def shape_ok_def)

lemma suit_ok_faults:
  "suit_ok s \<Longrightarrow> (\<And>sys. part_on s (system_part sys) \<or> sys_get f sys = OK) \<Longrightarrow> suit_ok (s\<lparr>su_faults := f\<rparr>)"
  by (simp add: suit_ok_defs part_on_def full_load_def weapon_on_def cong: option.case_cong)

lemma suit_ok_kits: "suit_ok s \<Longrightarrow> length ks = 4 \<Longrightarrow> list_all (\<lambda>n. n \<le> RACK) ks \<Longrightarrow> suit_ok (s\<lparr>su_kits := ks\<rparr>)"
  by (simp add: suit_ok_defs part_on_def full_load_def weapon_on_def cong: option.case_cong)

lemma suit_ok_kits_0 [simp]: "suit_ok s \<Longrightarrow> suit_ok (s\<lparr>su_kits := replicate 4 0\<rparr>)"
  by (rule suit_ok_kits) (simp_all add: list_all_iff)

lemma suit_ok_part:
  assumes "suit_ok s" and "1 \<le> c" and "c \<le> 100"
  shows "suit_ok (s\<lparr>su_parts := (su_parts s)[part_ix p := Some c]\<rparr>)"
proof -
  have on: "part_on s q \<Longrightarrow> part_on (s\<lparr>su_parts := (su_parts s)[part_ix p := Some c]\<rparr>) q" for q
    using assms(1) part_on_update [of s p "Some c" q] by (auto simp: suit_ok_def shape_ok_def)
  show ?thesis
    using assms on
    by (auto simp: suit_ok_defs conditions_ok_update full_load_def weapon_on_def cong: option.case_cong
        split: option.splits)
qed

lemma suit_ok_fit_part:
  assumes "suit_ok s" and "1 \<le> c" and "c \<le> 100"
  shows "suit_ok (s\<lparr>su_parts := (su_parts s)[part_ix p := Some c], su_faults := faults_with_part (su_faults s) p f\<rparr>)"
proof -
  let ?s = "s\<lparr>su_parts := (su_parts s)[part_ix p := Some c]\<rparr>"
  have "suit_ok (?s\<lparr>su_faults := faults_with_part (su_faults s) p f\<rparr>)"
  proof (rule suit_ok_faults [OF suit_ok_part [OF assms]])
    fix sys
    show "part_on ?s (system_part sys) \<or> sys_get (faults_with_part (su_faults s) p f) sys = OK"
      using assms(1) part_on_update [of s p "Some c" "system_part sys"]
      by (auto simp: suit_ok_def shape_ok_def inside_ok_def get_with_part)
  qed
  then show ?thesis by simp
qed

lemma nth_update: "xs[m := v] ! k = (if m = k \<and> k < length xs then v else xs ! k)"
  by (induction xs arbitrary: m k) (auto simp: nth_Cons split: nat.splits)

lemma suit_ok_modules:
  assumes "suit_ok s" and "length ms = 5"
    and "\<And>m k. m < 5 \<Longrightarrow> ms ! m = Some k \<Longrightarrow> module_part k = MOUNTS ! m \<and> part_on s (MOUNTS ! m)"
    and "\<And>m n k. m < 5 \<Longrightarrow> n < 5 \<Longrightarrow> ms ! m = Some k \<Longrightarrow> ms ! n = Some k \<Longrightarrow> m = n"
  shows "suit_ok (s\<lparr>su_modules := ms\<rparr>)"
proof -
  let ?t = "s\<lparr>su_modules := ms\<rparr>"
  have on: "part_on ?t = part_on s" by (rule part_on_cong) simp
  have "modules_ok ?t"
    using assms(3,4) unfolding modules_ok_def module_ok_def on by (auto split: option.split)
  moreover have "inside_ok ?t" using assms(1) unfolding suit_ok_def inside_ok_def on by simp
  moreover have "guns_ok ?t" using assms(1) full_load_cong [of ?t s] by (simp add: suit_ok_def guns_ok_def weapon_on_def)
  ultimately show ?thesis using assms(1,2) by (simp add: suit_ok_def shape_ok_def on)
qed

lemma suit_ok_module_get:
  assumes "suit_ok s"
  shows "length (su_modules s) = 5"
    and "m < 5 \<Longrightarrow> su_modules s ! m = Some k \<Longrightarrow> module_part k = MOUNTS ! m \<and> part_on s (MOUNTS ! m)"
    and "m < 5 \<Longrightarrow> n < 5 \<Longrightarrow> su_modules s ! m = Some k \<Longrightarrow> su_modules s ! n = Some k \<Longrightarrow> m = n"
  using assms by (auto simp: suit_ok_def shape_ok_def modules_ok_def module_ok_def split: option.splits)

lemma suit_ok_module_off: "suit_ok s \<Longrightarrow> suit_ok (s\<lparr>su_modules := (su_modules s)[m := None]\<rparr>)"
  by (rule suit_ok_modules) (auto simp: nth_update dest: suit_ok_module_get split: if_splits)

lemma suit_ok_module_on:
  assumes "suit_ok s" and "slot_for s (IModule k) = Some (SModule m)"
  shows "suit_ok (s\<lparr>su_modules := (su_modules s)[m := Some k]\<rparr>)"
proof -
  from assms(2) have m: "m < 5" "MOUNTS ! m = module_part k" "part_on s (module_part k)"
    "Some k \<notin> set (su_modules s)"
    by (auto simp: slot_for_def find_Some_iff split: if_splits)
  note get = suit_ok_module_get [OF assms(1)]
  have n: "su_modules s ! j \<noteq> Some k" if "j < 5" for j using that m(4) get(1) by (metis nth_mem)
  show ?thesis
  proof (rule suit_ok_modules [OF assms(1)])
    fix a b j
    assume "a < 5" "b < 5" "(su_modules s)[m := Some k] ! a = Some j" "(su_modules s)[m := Some k] ! b = Some j"
    with n get(1,3) m(1) show "a = b" by (cases "a = m"; cases "b = m") auto
  qed (use m get in \<open>auto simp: nth_list_update split: if_splits\<close>)
qed

lemma suit_ok_guns_all:
  assumes "suit_ok s" and "length ms = 3" and "length as = 3"
    and "\<And>m. m < 3 \<Longrightarrow> (ms ! m \<longrightarrow> weapon_on s m \<noteq> None) \<and> as ! m \<le> full_load s m"
  shows "suit_ok (s\<lparr>su_mounts := ms, su_ammo := as\<rparr>)"
proof -
  let ?t = "s\<lparr>su_mounts := ms, su_ammo := as\<rparr>"
  have on: "part_on ?t = part_on s" by (rule part_on_cong) simp
  have "guns_ok ?t"
    using assms(4) full_load_cong [of ?t s] by (simp add: guns_ok_def weapon_on_def)
  moreover have "inside_ok ?t" "modules_ok ?t"
    using assms(1) unfolding suit_ok_def inside_ok_def modules_ok_def module_ok_def on by simp_all
  ultimately show ?thesis using assms(1,2,3) by (simp add: suit_ok_def shape_ok_def on)
qed

lemma suit_ok_guns_get:
  assumes "suit_ok s"
  shows "length (su_mounts s) = 3" and "length (su_ammo s) = 3"
    and "m < 3 \<Longrightarrow> su_mounts s ! m \<Longrightarrow> weapon_on s m \<noteq> None" and "m < 3 \<Longrightarrow> su_ammo s ! m \<le> full_load s m"
  using assms by (auto simp: suit_ok_def shape_ok_def guns_ok_def)

lemma suit_ok_guns:
  assumes "suit_ok s" and "f \<longrightarrow> weapon_on s m \<noteq> None" and "n \<le> full_load s m"
  shows "suit_ok (s\<lparr>su_mounts := (su_mounts s)[m := f], su_ammo := (su_ammo s)[m := n]\<rparr>)"
  using suit_ok_guns_get [OF assms(1)] assms(2,3)
  by (intro suit_ok_guns_all [OF assms(1)]) (auto simp: nth_update)

lemma suit_ok_ammo:
  assumes "suit_ok s" and "n \<le> full_load s m"
  shows "suit_ok (s\<lparr>su_ammo := (su_ammo s)[m := n]\<rparr>)"
proof -
  have "suit_ok (s\<lparr>su_mounts := su_mounts s, su_ammo := (su_ammo s)[m := n]\<rparr>)"
    using suit_ok_guns_get [OF assms(1)] assms(2) by (intro suit_ok_guns_all [OF assms(1)]) (auto simp: nth_update)
  then show ?thesis by simp
qed

lemma slot_for_mount: "slot_for s i = Some (SMount m) \<Longrightarrow> m < 3 \<and> weapon_on s m \<noteq> None"
  by (auto simp: slot_for_def find_Some_iff split: item.splits if_splits)

lemma slot_for_part: "slot_for s i = Some (SPart p) \<Longrightarrow> i = IPart (su_line s) p \<and> \<not> part_on s p"
  by (auto simp: slot_for_def split: item.splits if_splits)

lemma slot_for_module: "slot_for s i = Some (SModule m) \<Longrightarrow> \<exists>k. i = IModule k"
  by (auto simp: slot_for_def split: item.splits if_splits)

lemma worn_argo_ok: "suit_ok worn_argo"
proof -
  let ?p = "[Some 70, Some 60, Some 55, Some 65, Some 60, Some (70::nat)]"
  let ?s = "(suit_complete Argo)\<lparr>su_parts := ?p\<rparr>"
  let ?t = "?s\<lparr>su_mounts := (su_mounts ?s)[0 := False], su_ammo := (su_ammo ?s)[0 := 0]\<rparr>"
  have on: "part_on ?s p" for p by (cases p) (simp_all add: part_on_def)
  have "conditions_ok ?p" by (simp add: conditions_ok_def)
  with suit_complete_ok [of Argo] on have "suit_ok ?s"
    by (simp add: suit_ok_defs full_load_def weapon_on_def cong: option.case_cong split: option.splits)
  then have "suit_ok ?t" by (rule suit_ok_guns) simp_all
  then have t: "suit_ok (?t\<lparr>su_propellant := tank ?t div 2\<rparr>)" by simp
  have on': "part_on (?t\<lparr>su_propellant := tank ?t div 2\<rparr>) p" for p by (cases p) (simp_all add: part_on_def)
  from suit_ok_faults [OF t, of "sys_set (su_faults ?t) Radiators DAMAGED"] on'
  show ?thesis by (simp add: worn_argo_def Let_def)
qed

section \<open>Every operation keeps the hangar in order\<close>

definition hangar_ok :: "hangar \<Rightarrow> bool" where
  "hangar_ok h \<longleftrightarrow> tidy (hstores h)
     \<and> (case hbay h of Empty \<Rightarrow> True | Docked s \<Rightarrow> suit_ok s | Out s \<Rightarrow> suit_ok s)"

named_theorems hangar_keeps

lemma hangar_ok_docked [simp]: "hbay h = Docked s \<Longrightarrow> hangar_ok h \<longleftrightarrow> tidy (hstores h) \<and> suit_ok s"
  by (simp add: hangar_ok_def)

lemma starter_ok: "hangar_ok starter"
  by (simp add: hangar_ok_def starter_def hangar_empty_def worn_argo_ok)

lemma reissue_ok [hangar_keeps]: "hangar_ok h \<Longrightarrow> hangar_ok (snd (reissue now h))"
  by (auto simp: reissue_def hangar_ok_def Let_def worn_argo_ok)

lemma tidy_add_goods_list: "tidy st \<Longrightarrow> tidy (add_goods_list gs st)"
  unfolding add_goods_list_def by (induction gs arbitrary: st) auto

lemma hangar_settle_ok [hangar_keeps]: "hangar_ok h \<Longrightarrow> hangar_ok (snd (hangar_settle now h))"
  by (simp add: hangar_settle_def hangar_ok_def tidy_add_goods_list split: prod.split)

lemma hangar_ok_upd: "hangar_ok h \<Longrightarrow> tidy st \<Longrightarrow> hangar_ok (h\<lparr>hstores := st\<rparr>)"
  "hangar_ok (h\<lparr>credits := c\<rparr>) = hangar_ok h" "hangar_ok (h\<lparr>hworks := w\<rparr>) = hangar_ok h"
  "hangar_ok (h\<lparr>sortie_pay := l\<rparr>) = hangar_ok h"
  by (simp_all add: hangar_ok_def)

lemma hangar_ok_tidy: "hangar_ok h \<Longrightarrow> tidy (hstores h)"
  by (simp add: hangar_ok_def)

lemma craft_ok [hangar_keeps]: "hangar_ok h \<Longrightarrow> hangar_ok (snd (craft i n now r h))"
  using hangar_settle_ok [of h now]
  by (auto simp: craft_def Let_def hangar_ok_upd hangar_ok_tidy split: option.split)

lemma cancel_job_ok [hangar_keeps]: "hangar_ok h \<Longrightarrow> hangar_ok (snd (cancel_job st k now h))"
  using hangar_settle_ok [of h now]
  by (auto simp: cancel_job_def Let_def hangar_ok_upd hangar_ok_tidy split: option.split prod.split)

lemma take_best_part_ok:
  "take_best_part l p st = Some (u, st') \<Longrightarrow> tidy st \<Longrightarrow>
   tidy st' \<and> 1 \<le> pu_condition u \<and> pu_condition u \<le> 100"
  by (auto simp: take_best_part_def tidy_remove_shelf dest!: position_Some split: option.splits) (auto simp: tidy_def)

lemma st_take_pair: "st_take i n st = (ok, st') \<Longrightarrow> tidy st \<Longrightarrow> tidy st'"
  using tidy_take [of st i n] by simp

lemma fit_slot_ok:
  assumes "hangar_ok h" and "hbay h = Docked s" and "slot_for s i = Some slot"
  shows "hangar_ok (snd (fit_slot i slot s h))"
proof -
  have ok: "tidy (hstores h)" "suit_ok s" using assms by auto
  show ?thesis
  proof (cases slot)
    case (SPart p)
    then show ?thesis
      using assms ok by (auto simp: fit_slot_def suit_ok_fit_part dest!: take_best_part_ok split: option.split)
  next
    case (SMount m)
    then show ?thesis
      using assms ok slot_for_mount [of s i m]
      by (auto simp: fit_slot_def dest!: st_take_pair intro!: suit_ok_guns split: prod.split)
  next
    case (SModule m)
    then show ?thesis
      using assms ok slot_for_module [of s i m]
      by (auto simp: fit_slot_def suit_ok_module_on dest!: st_take_pair split: prod.split)
  qed
qed

lemma fit_ok [hangar_keeps]: "hangar_ok h \<Longrightarrow> hangar_ok (snd (fit i h))"
proof (cases "hbay h")
  case (Docked s)
  then show "hangar_ok h \<Longrightarrow> ?thesis"
    using fit_slot_ok [of h s i] by (simp add: fit_def split: option.split)
next
  case Empty
  then show "hangar_ok h \<Longrightarrow> ?thesis"
    by (auto simp: fit_def hangar_ok_def suit_on_ok split: item.split part.split option.split
        dest: take_best_part_ok)
qed (simp add: fit_def)

lemma unmount_ok:
  assumes "unmount m s st = (ns, s', st')" and "suit_ok s" and "tidy st"
  shows "suit_ok s' \<and> tidy st' \<and> su_parts s' = su_parts s \<and> su_line s' = su_line s \<and> su_modules s' = su_modules s"
  using assms suit_ok_guns [OF assms(2), of False m 0]
  by (auto simp: unmount_def Let_def split: option.splits if_splits)

lemma take_gear_left:
  assumes "length ms = 5" and "m < 5"
  shows "snd (take_gear p ms) ! m = (if MOUNTS ! m = p then None else ms ! m)"
  using assms by (simp add: take_gear_def nth_enumerate_eq)

lemma length_take_gear: "length (snd (take_gear p ms)) = length ms"
  by (simp add: take_gear_def)

lemma suit_stripped_ok:
  assumes "suit_ok s" and "p \<noteq> Torso" and "su_line t = su_line s"
    and "su_parts t = (su_parts s)[part_ix p := None]" and "su_mounts t = su_mounts s" and "su_ammo t = su_ammo s"
    and "su_faults t = faults_with_part (su_faults s) p 0" and "su_modules t = snd (take_gear p (su_modules s))"
    and "su_kits t = su_kits s" and "length (wr_rounds (su_wear t)) = 3"
  shows "suit_ok t"
proof -
  note s = assms(1) [unfolded suit_ok_def]
  have on: "part_on t q = (q \<noteq> p \<and> part_on s q)" for q
    using s part_on_update [of s p None q] assms(4) by (auto simp: shape_ok_def part_on_def)
  have "conditions_ok (su_parts t)" using s assms(4) by (simp add: conditions_ok_update)
  moreover have "inside_ok t"
    using s assms(7) by (auto simp: inside_ok_def on get_with_part OK_def)
  moreover have "modules_ok t"
    using suit_ok_module_get [OF assms(1)] assms(8)
    by (auto simp: modules_ok_def module_ok_def on take_gear_left split: option.split)
  moreover have "guns_ok t"
    using s assms(3,5,6) full_load_cong [of t s] by (simp add: guns_ok_def weapon_on_def)
  ultimately show ?thesis
    using s assms(2-10) on by (simp add: suit_ok_def shape_ok_def length_take_gear)
qed

lemma length_fold_reset: "length (wr_rounds (fold (\<lambda>sys. wear_reset sys l) xs w)) = length (wr_rounds w)"
  by (induction xs arbitrary: w) auto

lemma unmount_fold_ok:
  assumes "fold unmount_more off (ns, s, st) = (ns', s', st')" and "suit_ok s" and "tidy st"
  shows "suit_ok s' \<and> tidy st' \<and> su_parts s' = su_parts s \<and> su_line s' = su_line s \<and> su_modules s' = su_modules s"
  using assms
proof (induction off arbitrary: ns s st)
  case (Cons m off)
  obtain n s1 st1 where u: "unmount m s st = (n, s1, st1)" by (metis prod_cases3)
  have "unmount_more m (ns, s, st) = (ns @ n, s1, st1)" by (simp add: unmount_more_def u)
  with Cons.prems(1) have "fold unmount_more off (ns @ n, s1, st1) = (ns', s', st')" by simp
  from Cons.IH [OF this] unmount_ok [OF u] Cons.prems show ?case by auto
qed auto

lemma tidy_fold_add: "tidy st \<Longrightarrow> tidy (fold (\<lambda>k. st_add (f k) (n k)) xs st)"
  by (induction xs arbitrary: st) auto

lemma bare_part_ok: "suit_ok s \<Longrightarrow> p \<noteq> Torso \<Longrightarrow> suit_ok (bare_part p s)"
  by (rule suit_stripped_ok [of s p]) (simp_all add: bare_part_def length_fold_reset suit_ok_wear_length)

lemma strip_part_ok:
  assumes "suit_ok s" and "tidy (hstores h)" and "p \<noteq> Torso" and "part_on s p"
  shows "\<exists>r s' st'. strip_part p s h = (Inr r, h\<lparr>hstores := st', hbay := Docked s'\<rparr>) \<and> suit_ok s' \<and> tidy st'
     \<and> su_parts s' = (su_parts s)[part_ix p := None] \<and> su_line s' = su_line s
     \<and> su_modules s' = snd (take_gear p (su_modules s))"
proof -
  from assms(4) obtain c where c: "su_parts s ! part_ix p = Some c" by (auto simp: part_on_def)
  let ?t = "bare_part p s"
  let ?off = "filter (\<lambda>m. su_mounts ?t ! m \<and> \<not> mount_has_its_part ?t m) [0..<3]"
  obtain ns s' st1 where f: "fold unmount_more ?off ([], ?t, hstores h) = (ns, s', st1)" by (metis prod_cases3)
  have b: "su_parts ?t = (su_parts s)[part_ix p := None]" "su_line ?t = su_line s"
    "su_modules ?t = snd (take_gear p (su_modules s))" by (simp_all add: bare_part_def)
  from unmount_fold_ok [OF f bare_part_ok [OF assms(1,3)] assms(2)] f show ?thesis
    unfolding b by (simp add: strip_part_def c Let_def) (intro exI conjI, rule refl, simp_all add: tidy_fold_add)
qed

lemma strip_torso_ok: "suit_ok s \<Longrightarrow> tidy (hstores h) \<Longrightarrow> hbay h = Docked s \<Longrightarrow> hangar_ok (snd (strip_torso s h))"
  by (simp add: strip_torso_def hangar_ok_def Let_def)

lemma strip_off_ok: "hangar_ok h \<Longrightarrow> hangar_ok (snd (strip_off slot h))"
proof (cases "hbay h")
  case (Docked s)
  assume ok: "hangar_ok h"
  with Docked have s: "tidy (hstores h)" "suit_ok s" by auto
  show ?thesis
  proof (cases slot)
    case (SPart p)
    show ?thesis
    proof (cases "p = Torso \<or> \<not> part_on s p")
      case True
      with ok s strip_torso_ok [OF s(2,1) Docked] SPart Docked show ?thesis
        by (auto simp: strip_off_def suit_mut_def strip_part_def part_on_def)
    next
      case False
      with strip_part_ok [OF s(2,1), of p] SPart Docked show ?thesis
        by (auto simp: strip_off_def suit_mut_def hangar_ok_def)
    qed
  next
    case (SMount m)
    obtain n s1 st1 where u: "unmount m s (hstores h) = (n, s1, st1)" by (metis prod_cases3)
    from unmount_ok [OF u s(2,1)] ok SMount Docked u show ?thesis
      by (simp add: strip_off_def suit_mut_def hangar_ok_def)
  next
    case (SModule m)
    with ok s Docked show ?thesis
      by (simp add: strip_off_def suit_mut_def hangar_ok_def suit_ok_module_off split: option.split)
  qed
qed (simp_all add: strip_off_def suit_mut_def)

lemma settle_tank_ok: "hangar_ok h \<Longrightarrow> hangar_ok (snd (settle_tank h))"
  by (auto simp: settle_tank_def hangar_ok_def Let_def split: bay.splits)

lemma strip_ok [hangar_keeps]: "hangar_ok h \<Longrightarrow> hangar_ok (snd (strip slot h))"
  using strip_off_ok [of h slot] settle_tank_ok [of "snd (strip_off slot h)"]
  by (auto simp: strip_def split: prod.splits sum.splits)

lemma fold_keeps: "P h \<Longrightarrow> (\<And>x h. P h \<Longrightarrow> P (f x h)) \<Longrightarrow> P (fold f xs h)"
  by (induction xs arbitrary: h) auto

lemma dismantle_ok [hangar_keeps]: "hangar_ok h \<Longrightarrow> hangar_ok (snd (dismantle h))"
  by (auto simp: dismantle_def Let_def intro!: strip_ok fold_keeps [where P = hangar_ok] split: sum.split)

lemma repair_to_le: "repair_to st l p from n \<le> n"
  by (induction n) auto

lemma repair_one_ok:
  assumes "repair_one was p (fixed, short, s, st) = (fixed', short', s', st')" and "suit_ok s" and "tidy st"
  shows "suit_ok s' \<and> tidy st'"
  using assms repair_to_le [of st "su_line was" p _ 100]
  by (auto simp: repair_one_def Let_def suit_ok_part Suc_le_eq split: option.splits if_splits
      dest: le_less_trans [OF le0])

lemma fold_pair_keeps:
  "P s st \<Longrightarrow> (\<And>x a b s st a' b' s' st'. f x (a, b, s, st) = (a', b', s', st') \<Longrightarrow> P s st \<Longrightarrow> P s' st') \<Longrightarrow>
   fold f xs (a, b, s, st) = (a', b', s', st') \<Longrightarrow> P s' st'"
proof (induction xs arbitrary: a b s st)
  case (Cons x xs)
  obtain a1 b1 s1 st1 where e: "f x (a, b, s, st) = (a1, b1, s1, st1)" by (metis prod_cases4)
  from Cons.IH [OF Cons.prems(2) [OF e Cons.prems(1)] Cons.prems(2)] Cons.prems(3) e show ?case by simp
qed simp

lemma suit_mut_Inr: "suit_mut h = Inr s \<longleftrightarrow> hbay h = Docked s"
  by (auto simp: suit_mut_def split: bay.split)

lemma repair_ok [hangar_keeps]: "hangar_ok h \<Longrightarrow> hangar_ok (snd (repair p h))"
proof (cases "suit_mut h")
  case (Inr s)
  assume ok: "hangar_ok h"
  define ps where "ps = (case p of Some p \<Rightarrow> [p] | None \<Rightarrow> map fst (fitted s))"
  obtain fixed short s' st where f: "fold (repair_one s) ps ([], False, s, hstores h) = (fixed, short, s', st)"
    by (metis prod_cases4)
  have "suit_ok s \<and> tidy (hstores h)" using ok Inr by (simp add: suit_mut_Inr)
  from fold_pair_keeps [where P = "\<lambda>s st. suit_ok s \<and> tidy st", OF this _ f] repair_one_ok
  have "suit_ok s' \<and> tidy st" by blast
  with Inr f show ?thesis by (simp add: repair_def ps_def hangar_ok_def Let_def)
qed (simp add: repair_def)

lemma part_on_cong_parts: "su_parts s = su_parts t \<Longrightarrow> part_on s p = part_on t p"
  by (simp add: part_on_def)

lemma suit_ok_overhauled:
  assumes "suit_ok s"
  shows "suit_ok (s\<lparr>su_faults := sys_set (su_faults s) sys OK, su_wear := wear_reset sys l (su_wear s)\<rparr>)"
proof -
  have "suit_ok (s\<lparr>su_faults := sys_set (su_faults s) sys OK\<rparr>)"
  proof (rule suit_ok_faults [OF assms])
    fix t show "part_on s (system_part t) \<or> sys_get (sys_set (su_faults s) sys OK) t = OK"
      using assms by (cases "t = sys") (auto simp: suit_ok_def inside_ok_def OK_def)
  qed
  from suit_ok_wear [OF this, of "wear_reset sys l (su_wear s)"] suit_ok_wear_length [OF assms]
  show ?thesis by simp
qed

lemma overhaul_one_ok:
  assumes "overhaul_one was p e (fixed, short, s, st) = (fixed', short', s', st')" and "suit_ok s \<and> tidy st"
  shows "suit_ok s' \<and> tidy st'"
proof -
  obtain sys level where e: "e = (sys, level)" by force
  show ?thesis
    using assms suit_ok_overhauled [of s sys "su_line was"] tidy_take_all [of st "overhaul_cost (su_line was) level" 1]
    by (auto simp: overhaul_one_def e Let_def simp del: tidy_take_all split: prod.splits if_splits)
qed

lemma service_one_ok:
  assumes "service_one was p e (fixed, short, s, st) = (fixed', short', s', st')" and "suit_ok s \<and> tidy st"
  shows "suit_ok s' \<and> tidy st'"
proof -
  obtain sys level where e: "e = (sys, level)" by force
  show ?thesis
    using assms suit_ok_wear [of s "wear_reset sys (su_line was) (su_wear s)"] suit_ok_wear_length [of s]
      tidy_take_all [of st "service_cost (su_line was)" 1]
    by (auto simp: service_one_def e Let_def simp del: tidy_take_all split: prod.splits if_splits)
qed

lemma overhaul_ok [hangar_keeps]: "hangar_ok h \<Longrightarrow> hangar_ok (snd (overhaul p h))"
proof (cases "suit_mut h")
  case (Inr s)
  assume ok: "hangar_ok h"
  obtain a b s1 st1 where f: "fold (overhaul_one s p) (faults_iter (su_faults s)) ([], False, s, hstores h)
      = (a, b, s1, st1)" by (metis prod_cases4)
  obtain fixed short s' st where g: "fold (service_one s p) (wear_systems (su_line s) (su_wear s)) (a, b, s1, st1)
      = (fixed, short, s', st)" by (metis prod_cases4)
  have "suit_ok s \<and> tidy (hstores h)" using ok Inr by (simp add: suit_mut_Inr)
  from fold_pair_keeps [where P = "\<lambda>s st. suit_ok s \<and> tidy st", OF this _ f] overhaul_one_ok
  have "suit_ok s1 \<and> tidy st1" by blast
  from fold_pair_keeps [where P = "\<lambda>s st. suit_ok s \<and> tidy st", OF this _ g] service_one_ok
  have "suit_ok s' \<and> tidy st" by blast
  with Inr f g show ?thesis by (simp add: overhaul_def hangar_ok_def Let_def)
qed (simp add: overhaul_def)

lemma scrap_ok [hangar_keeps]: "hangar_ok h \<Longrightarrow> hangar_ok (snd (scrap i h))"
proof -
  assume ok: "hangar_ok h"
  define got where "got = (case i of
      IPart line p \<Rightarrow> map_option (\<lambda>(u, st). (pu_condition u, st)) (take_worst_part line p (hstores h))
    | IWeapon _ \<Rightarrow> (let (ok, st) = st_take i 1 (hstores h) in if ok then Some (100, st) else None)
    | IModule _ \<Rightarrow> (let (ok, st) = st_take i 1 (hstores h) in if ok then Some (100, st) else None)
    | _ \<Rightarrow> None)"
  have "tidy st" if "got = Some (c, st)" for c st
    using that hangar_ok_tidy [OF ok]
    by (cases i) (auto simp: got_def split: prod.splits if_splits dest: take_worst_part_Some st_take_pair)
  then show ?thesis
    using ok by (auto simp: scrap_def got_def [symmetric] hangar_ok_upd Let_def split: option.split)
qed

lemma take_up_to_pair: "take_up_to i n st = (k, st') \<Longrightarrow> tidy st \<Longrightarrow> tidy st'"
  using tidy_take_up_to [of st i n] by simp

lemma fuel_ok [hangar_keeps]: "hangar_ok h \<Longrightarrow> hangar_ok (snd (fuel g h))"
  by (auto simp: fuel_def hangar_ok_def Let_def split: bay.splits prod.split dest: take_up_to_pair)

lemma reload_ok: "reload m (s, st) = (s', st') \<Longrightarrow> suit_ok s \<and> tidy st \<Longrightarrow> suit_ok s' \<and> tidy st'"
  by (auto simp: reload_def Let_def suit_ok_ammo split: option.splits if_splits)

lemma suit_ok_kit: "suit_ok s \<Longrightarrow> n \<le> RACK \<Longrightarrow> suit_ok (s\<lparr>su_kits := (su_kits s)[k := n]\<rparr>)"
  by (rule suit_ok_kits) (auto simp: suit_ok_def shape_ok_def list_all_length nth_update)

lemma take_kit_ok: "take_kit k (s, st) = (s', st') \<Longrightarrow> suit_ok s \<and> tidy st \<Longrightarrow> suit_ok s' \<and> tidy st'"
  by (clarsimp simp: take_kit_def take_up_to_def Let_def suit_ok_kit)

lemma fold_suit_keeps:
  "P s st \<Longrightarrow> (\<And>x s st s' st'. f x (s, st) = (s', st') \<Longrightarrow> P s st \<Longrightarrow> P s' st') \<Longrightarrow>
   fold f xs (s, st) = (s', st') \<Longrightarrow> P s' st'"
proof (induction xs arbitrary: s st)
  case (Cons x xs)
  obtain s1 st1 where e: "f x (s, st) = (s1, st1)" by force
  from Cons.IH [OF Cons.prems(2) [OF e Cons.prems(1)] Cons.prems(2)] Cons.prems(3) e show ?case by simp
qed simp

lemma launch_ok [hangar_keeps]: "hangar_ok h \<Longrightarrow> hangar_ok (snd (launch h))"
proof (cases "hbay h")
  case (Docked s)
  assume ok: "hangar_ok h"
  obtain got st1 where g: "take_up_to (propellant_item (su_grade s)) (tank s - su_propellant s) (hstores h) = (got, st1)"
    by force
  let ?s1 = "s\<lparr>su_propellant := su_propellant s + got\<rparr>"
  obtain s2 st2 where r: "fold reload [0..<3] (?s1, st1) = (s2, st2)" by force
  obtain s3 st3 where k: "fold take_kit kit_all (s2, st2) = (s3, st3)" by force
  have "suit_ok ?s1 \<and> tidy st1" using ok Docked take_up_to_pair [OF g] by auto
  from fold_suit_keeps [where P = "\<lambda>s st. suit_ok s \<and> tidy st", OF this _ r] reload_ok
  have "suit_ok s2 \<and> tidy st2" by blast
  from fold_suit_keeps [where P = "\<lambda>s st. suit_ok s \<and> tidy st", OF this _ k] take_kit_ok
  have "suit_ok s3 \<and> tidy st3" by blast
  with Docked g r k ok take_up_to_pair [OF g] show ?thesis
    by (simp add: launch_def Let_def hangar_ok_def)
qed (simp_all add: launch_def)

section \<open>Home again\<close>

text \<open>A homecoming's arrays have their lengths.\<close>

definition hc_ok :: "homecoming \<Rightarrow> bool" where
  "hc_ok hc \<longleftrightarrow> length (hc_parts hc) = 6 \<and> length (us_shots (hc_usage hc)) = 3"

lemma wear_out_one_length:
  "wear_out_one l on e (w, f, out) = (w', f', out') \<Longrightarrow> length (wr_rounds w') = length (wr_rounds w)"
  by (auto simp: wear_out_one_def split: prod.splits if_splits)

lemma wear_out_fold_length:
  "fold (wear_out_one l on) es (w, f, out) = (w', f', out') \<Longrightarrow> length (wr_rounds w') = length (wr_rounds w)"
proof (induction es arbitrary: w f out)
  case (Cons e es)
  obtain w1 f1 out1 where e: "wear_out_one l on e (w, f, out) = (w1, f1, out1)" by (metis prod_cases3)
  from Cons.IH [of w1 f1 out1] Cons.prems e wear_out_one_length [OF e] show ?case by simp
qed simp

lemma suit_home_ok:
  assumes "suit_ok s" and "hc_ok hc"
  shows "suit_ok (fst (suit_home hc s))"
proof -
  define t where "t = (suit_came_home hc s)\<lparr>su_weathering := weather_sortie (hc_usage hc) (su_parts s)
      (su_parts (suit_came_home hc s)) (su_weathering (suit_came_home hc s))\<rparr>"
  let ?w0 = "wear_add (hc_usage hc) (su_wear t)"
  have t: "suit_ok t" using suit_came_home_ok [OF assms(1)] assms(2) by (simp add: t_def hc_ok_def)
  obtain w f worn where o: "wear_out (su_line t) (part_on t) ?w0 (su_faults t) = (w, f, worn)" by (metis prod_cases3)
  have "length (wr_rounds ?w0) = 3"
    using suit_ok_wear_length [OF t] assms(2) by (simp add: wear_add_def hc_ok_def)
  then have w: "length (wr_rounds w) = 3"
    using wear_out_fold_length [OF o [unfolded wear_out_def]] by simp
  have "sys_get f sys = OK" if "\<not> part_on t (system_part sys)" for sys
    using that wear_out_fold [OF distinct_wear_systems o [unfolded wear_out_def], of sys] t
    by (auto simp: suit_ok_def inside_ok_def)
  moreover have "part_on (t\<lparr>su_wear := w\<rparr>) = part_on t" by (rule part_on_cong) simp
  ultimately have "suit_ok (t\<lparr>su_wear := w, su_faults := f\<rparr>)"
    by (intro suit_ok_faults [OF suit_ok_wear [OF t w], of f]) auto
  from suit_ok_kits_0 [OF this] o show ?thesis by (simp add: suit_home_def Let_def t_def)
qed

lemma salvage_part_tidy: "salvage_part l p c v st = (ns, st') \<Longrightarrow> tidy st \<Longrightarrow> tidy st'"
  by (auto simp: salvage_part_def)

lemma scrap_metal_tidy: "scrap_metal l kg st = (ns, st') \<Longrightarrow> tidy st \<Longrightarrow> tidy st'"
  by (auto simp: scrap_metal_def Let_def)

lemma salvage_hulk_part_tidy: "salvage_hulk_part fr ps p (n, st) = (ns, st') \<Longrightarrow> tidy st \<Longrightarrow> tidy st'"
  by (auto simp: salvage_hulk_part_def Let_def split: if_splits prod.splits
      dest: salvage_part_tidy scrap_metal_tidy)

lemma salvage_tidy: "salvage c st = (ns, st') \<Longrightarrow> tidy st \<Longrightarrow> tidy st'"
proof (cases "ch_kind c")
  case (ChunkHulk fr ps)
  show "salvage c st = (ns, st') \<Longrightarrow> tidy st \<Longrightarrow> ?thesis"
    using fold_suit_keeps [of "\<lambda>_. tidy" "[]" st "salvage_hulk_part fr ps" part_all ns st'] salvage_hulk_part_tidy
    by (simp add: salvage_def ChunkHulk)
qed (auto simp: salvage_def Let_def split: if_splits option.splits dest: salvage_part_tidy scrap_metal_tidy)

lemma home_ore_tidy: "home_ore e (ns, w, st) = (ns', w', st') \<Longrightarrow> tidy st \<Longrightarrow> tidy st'"
  by (auto simp: home_ore_def split: prod.splits option.splits if_splits)

lemma home_ore_fold_tidy:
  "fold home_ore es (ns, w, st) = (ns', w', st') \<Longrightarrow> tidy st \<Longrightarrow> tidy st'"
proof (induction es arbitrary: ns w st)
  case (Cons e es)
  obtain n1 w1 st1 where e: "home_ore e (ns, w, st) = (n1, w1, st1)" by (metis prod_cases3)
  from Cons.IH [of n1 w1 st1] Cons.prems e home_ore_tidy [OF e] show ?case by simp
qed simp

lemma suit_flown_ok: "hangar_ok h \<Longrightarrow> suit_ok (suit_flown h hc)"
  by (auto simp: suit_flown_def hangar_ok_def suit_complete_ok split: bay.split)

lemma came_home_ok [hangar_keeps]:
  assumes "hangar_ok h" and "hc_ok hc" and "came_home hc h = (ns, d, h')"
  shows "hangar_ok h'"
proof -
  obtain s worn where s: "suit_home hc (suit_flown h hc) = (s, worn)" by force
  obtain n1 ore st1 where o: "fold home_ore (enumerate 0 (hc_cargo_kg hc)) ([DockedNote], 0, rack_home hc (hstores h))
      = (n1, ore, st1)" by (metis prod_cases3)
  obtain n2 st2 where v: "(case hc_held hc of None \<Rightarrow> ([], st1) | Some c \<Rightarrow> salvage c st1) = (n2, st2)" by force
  have "tidy (rack_home hc (hstores h))"
    using hangar_ok_tidy [OF assms(1)] by (simp add: rack_home_def tidy_fold_add)
  with home_ore_fold_tidy [OF o] have "tidy st1" .
  with v have "tidy st2" by (auto split: option.splits dest: salvage_tidy)
  moreover have "suit_ok s" using suit_home_ok [OF suit_flown_ok [OF assms(1)] assms(2), of hc] s by simp
  moreover have "hstores h' = st2 \<and> hbay h' = Docked s"
    using assms(3) s o v by (auto simp: came_home_def drain_sortie_pay_def Let_def split: prod.splits)
  ultimately show ?thesis by simp
qed

lemma lost_ok [hangar_keeps]: "hangar_ok h \<Longrightarrow> hangar_ok (snd (lost b h))"
  by (simp add: lost_def drain_sortie_pay_def hangar_ok_def Let_def)

lemma towed_tidy: "tidy st \<Longrightarrow> tidy (snd (towed w t st))"
  by (auto simp: towed_def Let_def split: option.split chunk_kind.split prod.split if_splits
      dest: salvage_tidy salvage_part_tidy)

lemma towed_ace_tidy: "tidy st \<Longrightarrow> tidy (snd (towed_ace w n st))"
  by (auto simp: towed_ace_def split: option.split prod.split dest: salvage_tidy)

lemma recover_ok [hangar_keeps]: "hangar_ok h \<Longrightarrow> hangar_ok (snd (recover h))"
  by (auto simp: recover_def hangar_ok_def tidy_fold_add split: bay.splits)

lemma collect_ok [hangar_keeps]: "hangar_ok h \<Longrightarrow> collect e t h = (ns, e', h') \<Longrightarrow> hangar_ok h'"
  by (auto simp: collect_def hangar_ok_def tidy_add_goods_list split: prod.splits)

lemma take_escrow_ok: "hangar_ok h \<Longrightarrow> take_escrow i s price qty h = Inr (e, h') \<Longrightarrow> hangar_ok h'"
  by (auto simp: take_escrow_def hangar_ok_upd Let_def hangar_ok_tidy split: side.splits prod.splits if_splits
      dest: st_take_pair)

lemma hand_escrow_back_ok: "hangar_ok h \<Longrightarrow> hangar_ok (hand_escrow_back i s qty e h)"
  by (auto simp: hand_escrow_back_def hangar_ok_upd hangar_ok_tidy split: side.split)

lemma hangar_trade_ok [hangar_keeps]:
  assumes "hangar_ok h" and "hangar_trade pw e t i s price qty rest h = Some (r, e', h')"
  shows "hangar_ok h'"
proof (cases "item_valid i")
  case True
  show ?thesis
  proof (cases "take_escrow i s price qty h")
    case (Inr p)
    obtain escrow h1 where p: "p = (escrow, h1)" by force
    from take_escrow_ok [OF assms(1) Inr [unfolded p]] have ok: "hangar_ok h1" .
    from assms(2) True Inr p obtain q e1 where pl: "place pw t i s price qty escrow rest e = Some (q, e1)"
      by (auto simp: hangar_trade_def)
    obtain ns e2 h2 where c: "collect e1 t h1 = (ns, e2, h2)" by (metis prod_cases3)
    from collect_ok [OF ok c] hand_escrow_back_ok [OF ok] assms(2) True Inr p pl c show ?thesis
      by (cases q) (auto simp: hangar_trade_def)
  qed (use assms True in \<open>simp add: hangar_trade_def\<close>)
qed (use assms in \<open>simp add: hangar_trade_def\<close>)

section \<open>A pilot's career\<close>

text \<open>Every way the code changes a hangar.\<close>

inductive hangar_step :: "(rat \<Rightarrow> rat \<Rightarrow> rat) \<Rightarrow> hangar \<Rightarrow> hangar \<Rightarrow> bool" for pw where
  Reissues: "hangar_step pw h (snd (reissue now h))"
| Settles: "hangar_step pw h (snd (hangar_settle now h))"
| Crafts: "hangar_step pw h (snd (craft i n now r h))"
| Cancels: "hangar_step pw h (snd (cancel_job st k now h))"
| Fits: "hangar_step pw h (snd (fit i h))"
| Strips: "hangar_step pw h (snd (strip slot h))"
| Dismantles: "hangar_step pw h (snd (dismantle h))"
| Repairs: "hangar_step pw h (snd (repair p h))"
| Overhauls: "hangar_step pw h (snd (overhaul p h))"
| Scraps: "hangar_step pw h (snd (scrap i h))"
| Fuels: "hangar_step pw h (snd (fuel g h))"
| Launches: "hangar_step pw h (snd (launch h))"
| Comes_home: "hc_ok hc \<Longrightarrow> came_home hc h = (ns, d, h') \<Longrightarrow> hangar_step pw h h'"
| Loses: "hangar_step pw h (snd (lost bounty h))"
| Tows: "hangar_step pw h (h\<lparr>hstores := snd (towed w torso (hstores h))\<rparr>)"
| Tows_ace: "hangar_step pw h (h\<lparr>hstores := snd (towed_ace w name (hstores h))\<rparr>)"
| Recovers: "hangar_step pw h (snd (recover h))"
| Collects: "collect e t h = (fns, e', h') \<Longrightarrow> hangar_step pw h h'"
| Trades: "hangar_trade pw e t i s price qty rest h = Some (re, e', h') \<Longrightarrow> hangar_step pw h h'"
| Paid: "hangar_step pw h (board_paid what cr h)"

inductive career :: "(rat \<Rightarrow> rat \<Rightarrow> rat) \<Rightarrow> hangar \<Rightarrow> bool" for pw where
  Starts: "career pw starter"
| Goes_on: "career pw h \<Longrightarrow> hangar_step pw h h' \<Longrightarrow> career pw h'"

lemma hangar_step_ok: "hangar_step pw h h' \<Longrightarrow> hangar_ok h \<Longrightarrow> hangar_ok h'"
proof (induction rule: hangar_step.induct)
  case (Paid h what cr)
  then show ?case by (simp add: board_paid_def hangar_ok_upd)
next
  case (Tows h w torso)
  then show ?case by (simp add: hangar_ok_upd hangar_ok_tidy towed_tidy)
next
  case (Tows_ace h w name)
  then show ?case by (simp add: hangar_ok_upd hangar_ok_tidy towed_ace_tidy)
qed (erule (2) hangar_keeps | erule (1) hangar_keeps [rotated] | erule hangar_keeps)+

text \<open>C4: whatever a pilot does, in whatever order, from the starter on (crafting, fitting,
  stripping, repairing, launching, coming home, losing the suit, being towed, trading), their hangar
  stays in order: the stores tidy, and the suit in the bay or out well formed.\<close>

theorem career_stays_in_order:
  assumes "career pw h"
  shows "tidy (hstores h)
       \<and> (case hbay h of Empty \<Rightarrow> True | Docked s \<Rightarrow> suit_ok s | Out s \<Rightarrow> suit_ok s)"
proof -
  from assms have "hangar_ok h"
    by (induction rule: career.induct) (auto intro: starter_ok hangar_step_ok)
  then show ?thesis by (simp add: hangar_ok_def)
qed

theorem career_stays_in_order_witness: "tidy (hstores (snd (launch (snd (fit (IWeapon BeamRifle) starter)))))"
proof -
  have "career pw0 (snd (launch (snd (fit (IWeapon BeamRifle) starter))))"
    by (rule Goes_on, rule Goes_on, rule Starts, rule Fits, rule Launches)
  from career_stays_in_order [OF this] show ?thesis by simp
qed

section \<open>Trading conserves credits\<close>

lemma trade_ledger:
  assumes "hangar_trade pw e t i s price qty rest h = Some (r, e', h')" and "exchange_ok e" and "credits h \<le> FEE_CAP"
  shows "credits h' + credits_held e' + fees e' + colony_took e' + colony_paid e
       = credits h + credits_held e + colony_paid e' + fees e + colony_took e"
proof (cases "\<not> item_valid i \<or> (\<exists>why. take_escrow i s price qty h = Inl why)")
  case False
  then obtain escrow h1 where i: "item_valid i" and p: "take_escrow i s price qty h = Inr (escrow, h1)"
    by (cases "take_escrow i s price qty h") auto
  from p have c: "credits h = credits h1 + (if s = Buy then escrow else 0)" "s = Sell \<Longrightarrow> escrow = 0"
    by (auto simp: take_escrow_def Let_def split: side.splits prod.splits if_splits)
  with assms(3) have cap: "escrow \<le> FEE_CAP" by (cases s) auto
  from assms(1) i p obtain q e1 where pl: "place pw t i s price qty escrow rest e = Some (q, e1)"
    by (auto simp: hangar_trade_def)
  obtain ns e2 h2 where k: "collect e1 t h1 = (ns, e2, h2)" by (metis prod_cases3)
  note ok = place_exchange_ok [OF pl assms(2) cap]
  from collect_ledger(1) [OF ok, of t "fst (ex_collect t e1)" e2] k
  have "credits h2 + credits_held e2 = credits h1 + credits_held e1"
    "fees e2 = fees e1 \<and> colony_took e2 = colony_took e1 \<and> colony_paid e2 = colony_paid e1"
    by (auto simp: collect_def ex_collect_def)
  with place_ledger [OF pl assms(2) cap] assms(1) i p pl k c show ?thesis
    by (cases q; cases s) (auto simp: hangar_trade_def hand_escrow_back_def)
qed (use assms(1) in \<open>auto simp: hangar_trade_def split: if_splits\<close>)

text \<open>Credits move, and are never made: over a pilot's order, whatever comes of it, the credits in
  their hangar, in everyone's accounts and in escrow change by exactly what the colony paid out,
  less what it took in and the fees.\<close>

theorem trading_conserves_credits:
  assumes "hangar_trade pw e t i s price qty rest h = Some (r, e', h')" and "exchange_ok e" and "credits h \<le> FEE_CAP"
  shows "credits h' + credits_held e' + fees e' + colony_took e' + colony_paid e
       = credits h + credits_held e + colony_paid e' + fees e + colony_took e"
  using assms by (rule trade_ledger)

lemma hangar_trade_filled:
  "item_valid i \<Longrightarrow> take_escrow i s price qty h = Inr (escrow, h1) \<Longrightarrow>
   place pw t i s price qty escrow rest e = Some (Inr pl, e1) \<Longrightarrow> collect e1 t h1 = (ns, e2, h2) \<Longrightarrow>
   p_resting pl = None \<Longrightarrow>
   hangar_trade pw e t i s price qty rest h = Some (Inr (Traded ns None (p_fills pl = [])), e2, h2)"
  by (simp add: hangar_trade_def)

theorem trading_conserves_credits_witness:
  "\<exists>r e' h'. hangar_trade pw0 one_ask ''ann'' SIDERIUM Buy 500 2000 True starter = Some (r, e', h')
     \<and> credits h' + credits_held e' + fees e' + colony_took e' = 2000 + credits_held one_ask + colony_paid e'"
proof -
  let ?h = "starter\<lparr>credits := 1000\<rparr>"
  have e: "take_escrow SIDERIUM Buy 500 2000 starter = Inr (1000, ?h)"
    by (simp add: take_escrow_def Let_def escrow_for_def worth_def starter_def hangar_empty_def sat64_def u64_max_def)
  from ann_buys [of pw0] obtain e1 where b: "place pw0 ''ann'' SIDERIUM Buy 500 2000 1000 True one_ask
      = Some (Inr \<lparr>p_fills = [ann_fill], p_resting = None\<rparr>, e1)" by blast
  obtain ns e2 h2 where k: "collect e1 ''ann'' ?h = (ns, e2, h2)" by (metis prod_cases3)
  have t: "hangar_trade pw0 one_ask ''ann'' SIDERIUM Buy 500 2000 True starter
      = Some (Inr (Traded ns None False), e2, h2)"
    using hangar_trade_filled [OF _ e b k] by simp
  have "credits starter = 2000" by (simp add: starter_def)
  with trading_conserves_credits [OF t one_ask_ok] t show ?thesis
    by (auto simp: FEE_CAP_def u64_max_def FEE_BP_def)
qed

section \<open>Launching\<close>

lemma reload_keeps:
  "reload m (s, st) = (s', st') \<Longrightarrow> (su_propellant s' = su_propellant s \<and> su_grade s' = su_grade s
     \<and> su_line s' = su_line s \<and> su_parts s' = su_parts s \<and> su_modules s' = su_modules s \<and> su_kits s' = su_kits s)
     \<and> (\<forall>i. i \<noteq> MUNITIONS \<longrightarrow> st_get st' i = st_get st i)"
proof -
  have "i \<noteq> MUNITIONS \<Longrightarrow> st_get (snd (st_take MUNITIONS n st)) i = st_get st i" for i n
    using st_get_take [of n st MUNITIONS i] st_take_fail [of MUNITIONS n st] st_take_iff [of MUNITIONS n st]
    by (cases "fst (st_take MUNITIONS n st)") simp_all
  then show "reload m (s, st) = (s', st') \<Longrightarrow> ?thesis"
    by (auto simp: reload_def Let_def split: option.splits if_splits)
qed

lemma reload_fold_keeps:
  assumes "fold reload ms (s, st) = (s', st')"
  shows "su_propellant s' = su_propellant s \<and> su_grade s' = su_grade s \<and> su_line s' = su_line s
       \<and> su_parts s' = su_parts s \<and> su_modules s' = su_modules s \<and> su_kits s' = su_kits s
       \<and> (\<forall>i. i \<noteq> MUNITIONS \<longrightarrow> st_get st' i = st_get st i)"
  using assms
proof (induction ms arbitrary: s st)
  case (Cons m ms)
  obtain s1 st1 where e: "reload m (s, st) = (s1, st1)" by force
  from Cons.IH [of s1 st1] Cons.prems e reload_keeps [OF e] show ?case by simp
qed simp

lemma take_up_to_get: "take_up_to i n st = (k, st') \<Longrightarrow>
   k \<le> n \<and> st_get st' i + k = st_get st i \<and> (\<forall>j. j \<noteq> i \<longrightarrow> st_get st' j = st_get st j)"
  using st_get_take [of "min (st_get st i) n" st i] by (auto simp: take_up_to_def Let_def)

lemma take_kit_keeps:
  assumes "take_kit k (s, st) = (s', st')" and "length (su_kits s) = 4"
  shows "su_propellant s' = su_propellant s \<and> su_grade s' = su_grade s \<and> su_line s' = su_line s
       \<and> su_parts s' = su_parts s \<and> su_modules s' = su_modules s \<and> length (su_kits s') = 4
       \<and> (\<forall>j. j \<noteq> IKit k \<longrightarrow> st_get st' j = st_get st j)
       \<and> su_kits s' ! kit_ix k + st_get st' (IKit k) = st_get st (IKit k) \<and> su_kits s' ! kit_ix k \<le> RACK
       \<and> (\<forall>j. j \<noteq> k \<longrightarrow> su_kits s' ! kit_ix j = su_kits s ! kit_ix j)"
proof -
  obtain n st1 where t: "take_up_to (IKit k) RACK st = (n, st1)" by force
  have "kit_ix j < 4" "kit_ix k = kit_ix j \<Longrightarrow> k = j" for j by (cases j; cases k; simp)+
  with assms t take_up_to_get [OF t] show ?thesis by (auto simp: take_kit_def nth_update)
qed

lemma take_kits_keep:
  assumes "fold take_kit ks (s, st) = (s', st')" and "length (su_kits s) = 4" and "distinct ks"
  shows "su_propellant s' = su_propellant s \<and> su_grade s' = su_grade s \<and> su_line s' = su_line s
       \<and> su_parts s' = su_parts s \<and> su_modules s' = su_modules s
       \<and> (\<forall>j. j \<notin> IKit ` set ks \<longrightarrow> st_get st' j = st_get st j)
       \<and> (\<forall>k\<in>set ks. su_kits s' ! kit_ix k + st_get st' (IKit k) = st_get st (IKit k) \<and> su_kits s' ! kit_ix k \<le> RACK)
       \<and> (\<forall>j. j \<notin> set ks \<longrightarrow> su_kits s' ! kit_ix j = su_kits s ! kit_ix j)"
  using assms
proof (induction ks arbitrary: s st)
  case (Cons k ks)
  obtain s1 st1 where e: "take_kit k (s, st) = (s1, st1)" by force
  note k = take_kit_keeps [OF e Cons.prems(2)]
  from Cons.prems e have "fold take_kit ks (s1, st1) = (s', st')" by simp
  from Cons.IH [OF this] k Cons.prems(3) show ?case by (auto simp: image_iff)
qed simp

lemma tank_cong: "su_line s = su_line t \<Longrightarrow> su_parts s = su_parts t \<Longrightarrow> su_modules s = su_modules t \<Longrightarrow> tank s = tank t"
  using part_on_cong [of s t] by (simp add: tank_def equipment_def gone_def)

lemma kit_all_mem: "k \<in> set kit_all" "distinct kit_all"
  by (cases k) (simp_all add: kit_all_def)



end
