(* ===== verification/Charter.thy ===== *)
theory Charter
  imports Hangar
begin

text \<open>
  The Charter Board (\<open>crates/bc-econ/src/charter.rs\<close>, with the list of aces of
  \<open>crates/bc-sim/src/content/aces.rs\<close>): contracts with their rewards in escrow, the colony's supply jobs
  and the militia's patrols, the great works and the vote, standing, and what the Board pays out at
  its desk. Texts are constructors (\<open>charter_refusal\<close>, \<open>charter_reply\<close>, \<open>board_note\<close>, \<open>news_item\<close>).
  \<open>works\<close> holds every work from \<open>Default\<close> on and is only ever updated in place, so it is a function;
  the set of those on salvage terms is a map to \<open>unit\<close>. The two subtractions the code does not guard
  (\<open>reward - paid\<close>, \<open>wanted - delivered\<close>) are plain: theory \<open>Notices\<close> proves that neither can
  underflow on any board that can be reached. \<open>tick\<close>'s posting loops are partial functions, and
  \<open>Notices\<close> proves that they return.
\<close>

section \<open>State\<close>

definition MAX_POSTED :: nat where "MAX_POSTED = 8"
definition COLONY_SUPPLY :: nat where "COLONY_SUPPLY = 4"
definition COLONY_PATROLS :: nat where "COLONY_PATROLS = 2"
definition SUPPLY_SECS :: nat where "SUPPLY_SECS = 2 * 3600"
definition SUPPLY_PCT :: nat where "SUPPLY_PCT = 135"
definition WORKS_PCT :: nat where "WORKS_PCT = 120"
definition PATROL_BOUNTY :: nat where "PATROL_BOUNTY = 1000"
definition PATROL_REWARD :: nat where "PATROL_REWARD = 1500"
definition PATROL_SECS :: nat where "PATROL_SECS = 3600"
definition PATROL_STANDS_SECS :: nat where "PATROL_STANDS_SECS = 6 * 3600"
definition SIGNATURES :: nat where "SIGNATURES = 3"
definition MAX_HOURS :: nat where "MAX_HOURS = 72"
definition NEWS_KEPT :: nat where "NEWS_KEPT = 16"
definition VIEW_CONTRACTS :: nat where "VIEW_CONTRACTS = 40"
definition LADDER_KEPT :: nat where "LADDER_KEPT = 10"

datatype work = SecondFoundry | MilitiaHangar | CharterVote

definition work_all :: "work list" where
  "work_all = [SecondFoundry, MilitiaHangar, CharterVote]"

fun work_needs :: "work \<Rightarrow> (item \<times> nat) list" where
  "work_needs SecondFoundry = [(STEEL, 12000), (TI_ALLOY, 6000), (ELECTRONICS, 800), (COMPONENTS, 1500)]"
| "work_needs MilitiaHangar =
     [(STEEL, 15000), (TI_ALLOY, 4000), (COMPONENTS, 2000), (MUNITIONS, 3000), (PROPELLANT, 4000)]"
| "work_needs CharterVote = []"

definition work_era :: "work \<Rightarrow> nat" where
  "work_era w = 0"

datatype task =
    Supply item nat nat
  | Patrol nat nat

record contract =
  c_id :: nat
  c_issuer :: "trader option"
  c_issuer_name :: string
  c_task :: task
  c_reward :: nat
  c_paid :: nat
  c_posted :: nat
  c_expires :: nat
  c_holder :: "trader option"

fun is_patrol :: "task \<Rightarrow> bool" where
  "is_patrol (Patrol _ _) = True"
| "is_patrol (Supply _ _ _) = False"

definition pay_for :: "nat \<Rightarrow> nat \<Rightarrow> nat \<Rightarrow> nat" where
  "pay_for reward delivered qty = sat64 (reward * delivered div max qty 1)"

definition unpaid :: "contract \<Rightarrow> nat" where
  "unpaid c = c_reward c - c_paid c"

record progress =
  pr_delivered :: "(item, nat) bmap"
  pr_done :: "nat option"
  pr_contributors :: "(trader, nat) bmap"

definition progress_empty :: progress where
  "progress_empty = \<lparr>pr_delivered = bempty, pr_done = None, pr_contributors = bempty\<rparr>"

record effects =
  ef_foundry_fee_pct :: nat
  ef_foundry_speed :: rat
  ef_patrols :: bool
  ef_era :: nat

datatype news_item = AceOut nat | AceDowned nat string | WorkFinished work | VoteOpen

record notice =
  nt_seq :: nat
  nt_text :: news_item

record downed =
  dn_by :: string
  dn_at :: nat

datatype closing = Expired | Withdrawn

datatype board_note =
    Closed nat closing nat
  | PatrolRanOut nat
  | Delivered nat string nat item
  | Filled_up nat
  | AceBounty string nat
  | RifleIssued | RifleWorth nat
  | PatrolPay nat string nat

text \<open>An \<open>Account\<close> here carries the Board's notes.\<close>

record purse =
  pa_credits :: nat
  pa_goods :: "(item, nat) bmap"
  pa_notes :: "board_note list"

definition purse_empty :: purse where
  "purse_empty = \<lparr>pa_credits = 0, pa_goods = bempty, pa_notes = []\<rparr>"

definition purse_is_empty :: "purse \<Rightarrow> bool" where
  "purse_is_empty a \<longleftrightarrow> pa_credits a = 0 \<and> entries (pa_goods a) = [] \<and> pa_notes a = []"

record board =
  b_contracts :: "(nat, contract) bmap"
  b_works :: "work \<Rightarrow> progress"
  b_signatures :: "trader list"
  b_era :: nat
  b_standing :: "(trader, nat) bmap"
  b_names :: "(trader, string) bmap"
  b_accounts :: "(trader, purse) bmap"
  b_at_desk :: "(trader, purse) bmap"
  b_news :: "notice list"
  b_next_id :: nat
  b_news_seq :: nat
  b_colony_paid :: nat
  b_wanted :: "(nat, downed) bmap"
  b_aces :: "(trader, nat) bmap"
  b_salvage_terms :: "(trader, unit) bmap"

definition board_new :: board where
  "board_new =
     \<lparr>b_contracts = bempty, b_works = (\<lambda>_. progress_empty), b_signatures = [], b_era = 0, b_standing = bempty,
      b_names = bempty, b_accounts = bempty, b_at_desk = bempty, b_news = [], b_next_id = 1, b_news_seq = 0,
      b_colony_paid = 0, b_wanted = bempty, b_aces = bempty, b_salvage_terms = bempty\<rparr>"

datatype charter_refusal =
    C_NoSuchItem | NotAQuantity | MustPay | BadHours | TooManyPosted | NeedsCredits nat nat
  | NotYours | NoSuchContract | ItsAPatrol | YourOwn | HasExpired | NothingToDeliver item | StoresRefused
  | FlyingAlready | NothingToTake | TakenAlready | NotYourPatrol
  | WorkIsFinished work | WorkDoesntNeed work item | WorkHasAll work item
  | AlreadyAdopted | VoteNotOpen | NoStanding | SignedAlready | WreckNeedsStanding

datatype charter_reply =
    ContractPosted nat item nat nat
  | Told "board_note list"
  | DeliveredPaid item nat nat bool
  | PatrolTaken nat nat | PatrolGivenUp nat
  | Contributed work item nat nat bool
  | Signed nat | Adopted
  | TermsSalvage | TermsPay
  | AcePays string nat bool
  | IssuedRifle | IssuedCredits nat
  | PatrolSoFar nat nat nat | PatrolFlown nat string nat bool

section \<open>The aces\<close>

record ace =
  a_name :: string
  a_bounty :: nat
  a_frame :: frame_id
  a_wing :: "frame_id option"

definition argo_ace :: "string \<Rightarrow> nat \<Rightarrow> ace" where
  "argo_ace name bounty = \<lparr>a_name = name, a_bounty = bounty, a_frame = Argo, a_wing = None\<rparr>"

definition ACES :: "ace list" where
  "ACES =
     [argo_ace ''LYRA'' 1500, argo_ace ''SAGITTA'' 1800, argo_ace ''DELPHINUS'' 2000, argo_ace ''CYGNUS'' 2200,
      argo_ace ''AURIGA'' 2500, argo_ace ''PERSEUS'' 2800, argo_ace ''CENTAURUS'' 3200,
      \<lparr>a_name = ''HERCULES'', a_bounty = 3600, a_frame = Corona, a_wing = Some Sagittarius\<rparr>,
      \<lparr>a_name = ''ORION'', a_bounty = 4000, a_frame = Sagittarius, a_wing = Some Corona\<rparr>]"

definition ace_of :: "nat \<Rightarrow> ace" where
  "ace_of k = ACES ! (k mod length ACES)"

section \<open>What the board knows\<close>

definition SUPPLY :: "(item \<times> nat) list" where
  "SUPPLY =
     [(IOre NickelIron, 4000), (IOre Titanium, 2000), (IOre Volatiles, 2000), (IOre Exotics, 300),
      (STEEL, 1500), (TI_ALLOY, 1000), (ELECTRONICS, 200), (MUNITIONS, 1000), (COMPONENTS, 400)]"

definition priced :: "item \<Rightarrow> nat \<Rightarrow> nat \<Rightarrow> nat" where
  "priced i qty pct = sat64 (worth i (colony_value i) qty * pct) div 100"

definition standing_of :: "trader \<Rightarrow> board \<Rightarrow> nat" where
  "standing_of t b = bor 0 (bget (b_standing b) t)"

definition work_done :: "work \<Rightarrow> board \<Rightarrow> bool" where
  "work_done w b \<longleftrightarrow> pr_done (b_works b w) \<noteq> None"

definition vote_open :: "board \<Rightarrow> bool" where
  "vote_open b \<longleftrightarrow>
     list_all (\<lambda>w. w \<noteq> CharterVote \<and> work_era w = b_era b \<longrightarrow> work_done w b) work_all \<and> \<not> work_done CharterVote b"

definition effects_of :: "board \<Rightarrow> effects" where
  "effects_of b =
     (let foundry = work_done SecondFoundry b
      in \<lparr>ef_foundry_fee_pct = (if foundry then 50 else 100), ef_foundry_speed = (if foundry then 2 else 1),
          ef_patrols = work_done MilitiaHangar b, ef_era = b_era b\<rparr>)"

definition rules_with :: "effects \<Rightarrow> rules \<Rightarrow> rules" where
  "rules_with e r = r\<lparr>foundry_fee_pct := ef_foundry_fee_pct e, foundry_speed := ef_foundry_speed e\<rparr>"

definition news_since :: "nat \<Rightarrow> board \<Rightarrow> notice list" where
  "news_since s b = filter (\<lambda>n. s < nt_seq n) (b_news b)"

definition announce :: "news_item \<Rightarrow> board \<Rightarrow> board" where
  "announce text b =
     (let s = b_news_seq b + 1; ns = b_news b @ [\<lparr>nt_seq = s, nt_text = text\<rparr>]
      in b\<lparr>b_news_seq := s, b_news := (if NEWS_KEPT < length ns then tl ns else ns)\<rparr>)"

definition note_name :: "trader \<Rightarrow> string \<Rightarrow> board \<Rightarrow> board" where
  "note_name t name b =
     (if name \<noteq> [] \<and> bget (b_names b) t \<noteq> Some name then b\<lparr>b_names := bput t name (b_names b)\<rparr> else b)"

definition name_of :: "trader \<Rightarrow> board \<Rightarrow> string" where
  "name_of t b = bor ''A PILOT'' (bget (b_names b) t)"

section \<open>Accounts\<close>

definition owe :: "trader \<Rightarrow> (purse \<Rightarrow> purse) \<Rightarrow> board \<Rightarrow> board" where
  "owe t f b = b\<lparr>b_accounts := bupd purse_empty f t (b_accounts b)\<rparr>"

definition desk_owes :: "trader \<Rightarrow> (purse \<Rightarrow> purse) \<Rightarrow> board \<Rightarrow> board" where
  "desk_owes t f b = b\<lparr>b_at_desk := bupd purse_empty f t (b_at_desk b)\<rparr>"

definition purse_add :: "nat \<Rightarrow> board_note list \<Rightarrow> purse \<Rightarrow> purse" where
  "purse_add cr notes a = a\<lparr>pa_credits := pa_credits a + cr, pa_notes := pa_notes a @ notes\<rparr>"

definition purse_add_goods :: "item \<Rightarrow> nat \<Rightarrow> board_note list \<Rightarrow> purse \<Rightarrow> purse" where
  "purse_add_goods i n notes a =
     a\<lparr>pa_goods := bupd 0 (\<lambda>e. e + n) i (pa_goods a), pa_notes := pa_notes a @ notes\<rparr>"

definition colony_pays :: "trader \<Rightarrow> nat \<Rightarrow> board \<Rightarrow> board" where
  "colony_pays t cr b =
     b\<lparr>b_colony_paid := b_colony_paid b + cr, b_standing := bupd 0 (\<lambda>e. e + cr) t (b_standing b)\<rparr>"

definition board_owed :: "trader \<Rightarrow> board \<Rightarrow> bool" where
  "board_owed t b = (case bget (b_accounts b) t of None \<Rightarrow> False | Some a \<Rightarrow> \<not> purse_is_empty a)"

definition board_waiting :: "trader \<Rightarrow> board \<Rightarrow> bool" where
  "board_waiting t b = (case bget (b_at_desk b) t of None \<Rightarrow> False | Some a \<Rightarrow> \<not> purse_is_empty a)"

definition pay_out :: "purse \<Rightarrow> hangar \<Rightarrow> hangar" where
  "pay_out a h =
     h\<lparr>credits := credits h + pa_credits a, hstores := add_goods_list (entries (pa_goods a)) (hstores h)\<rparr>"

definition board_collect :: "trader \<Rightarrow> board \<Rightarrow> hangar \<Rightarrow> board_note list \<times> board \<times> hangar" where
  "board_collect t b h =
     (case bget (b_accounts b) t of
        None \<Rightarrow> ([], b, h)
      | Some a \<Rightarrow> (pa_notes a, b\<lparr>b_accounts := bdel t (b_accounts b)\<rparr>, pay_out a h))"

definition collect_at_desk :: "trader \<Rightarrow> board \<Rightarrow> hangar \<Rightarrow> board_note list \<times> board \<times> hangar" where
  "collect_at_desk t b h =
     (case bget (b_at_desk b) t of
        None \<Rightarrow> ([], b, h)
      | Some a \<Rightarrow> (pa_notes a, b\<lparr>b_at_desk := bdel t (b_at_desk b)\<rparr>, pay_out a h))"

text \<open>Credits and goods held here, for the ledger.\<close>

definition escrow_of :: "contract \<Rightarrow> nat" where
  "escrow_of c = (if c_issuer c \<noteq> None then unpaid c else 0)"

definition board_credits :: "board \<Rightarrow> nat" where
  "board_credits b = bsum escrow_of (b_contracts b) + bsum pa_credits (b_accounts b) + bsum pa_credits (b_at_desk b)"

definition purse_goods :: "item \<Rightarrow> purse \<Rightarrow> nat" where
  "purse_goods i a = bor 0 (bget (pa_goods a) i)"

definition board_goods :: "item \<Rightarrow> board \<Rightarrow> nat" where
  "board_goods i b = bsum (purse_goods i) (b_accounts b) + bsum (purse_goods i) (b_at_desk b)"

section \<open>Aces\<close>

definition set_terms :: "trader \<Rightarrow> bool \<Rightarrow> board \<Rightarrow> (charter_refusal + charter_reply) \<times> board" where
  "set_terms t salv b =
     (if salv
      then if standing_of t b = 0 \<and> bget (b_salvage_terms b) t = None then (Inl WreckNeedsStanding, b)
           else (Inr TermsSalvage, b\<lparr>b_salvage_terms := bput t () (b_salvage_terms b)\<rparr>)
      else (Inr TermsPay, b\<lparr>b_salvage_terms := bdel t (b_salvage_terms b)\<rparr>))"

definition ace_out :: "nat \<Rightarrow> board \<Rightarrow> board" where
  "ace_out k b = announce (AceOut k) b"

definition ace_downed :: "nat \<Rightarrow> trader \<Rightarrow> string \<Rightarrow> nat \<Rightarrow> board \<Rightarrow> bool \<times> board" where
  "ace_downed k t name now b =
     (let b1 = note_name t name b;
          b2 = b1\<lparr>b_wanted := bput k \<lparr>dn_by = name, dn_at = now\<rparr> (b_wanted b1),
                  b_aces := bupd 0 (\<lambda>n. n + 1) t (b_aces b1)\<rparr>;
          b3 = announce (AceDowned k name) b2
      in (bget (b_salvage_terms b3) t \<noteq> None, b3))"

definition pay_ace :: "nat \<Rightarrow> trader \<Rightarrow> bool \<Rightarrow> board \<Rightarrow> hangar \<Rightarrow> charter_reply \<times> board \<times> hangar" where
  "pay_ace k t at_desk b h =
     (let a = ace_of k; bounty = a_bounty a; b1 = colony_pays t bounty b;
          h1 = board_paid (AcePaid (a_name a) at_desk) bounty h
      in if \<not> at_desk then (AcePays (a_name a) bounty False, b1, h1\<lparr>credits := credits h1 + bounty\<rparr>)
         else (AcePays (a_name a) bounty True,
               desk_owes t (purse_add bounty [AceBounty (a_name a) bounty]) b1, h1))"

definition certify :: "trader \<Rightarrow> exchange \<Rightarrow> board \<Rightarrow> hangar
    \<Rightarrow> charter_reply option \<times> exchange \<times> board \<times> hangar" where
  "certify t e b h =
     (if certified h then (None, e, b, h)
      else
        let h1 = h\<lparr>certified := True\<rparr>; rifle = IWeapon BeamRifle; (n, e1) = colony_issue rifle 1 e
        in if n = 1 then (Some IssuedRifle, e1, desk_owes t (purse_add_goods rifle 1 [RifleIssued]) b, h1)
           else
             let v = colony_value rifle
             in (Some (IssuedCredits v), e1,
                 desk_owes t (purse_add v [RifleWorth v]) (b\<lparr>b_colony_paid := b_colony_paid b + v\<rparr>), h1))"

section \<open>Contracts\<close>

definition post_contract :: "trader option \<Rightarrow> string \<Rightarrow> task \<Rightarrow> nat \<Rightarrow> nat \<Rightarrow> nat \<Rightarrow> board \<Rightarrow> nat \<times> board" where
  "post_contract issuer issuer_name tk reward now secs b =
     (let k = b_next_id b
      in (k, b\<lparr>b_next_id := k + 1,
               b_contracts := bput k
                 \<lparr>c_id = k, c_issuer = issuer, c_issuer_name = issuer_name, c_task = tk, c_reward = reward,
                  c_paid = 0, c_posted = now, c_expires = now + secs, c_holder = None\<rparr> (b_contracts b)\<rparr>))"

definition close_contract :: "nat \<Rightarrow> closing \<Rightarrow> board \<Rightarrow> board" where
  "close_contract k why b =
     (case bget (b_contracts b) k of
        None \<Rightarrow> b
      | Some c \<Rightarrow>
          let b1 = b\<lparr>b_contracts := bdel k (b_contracts b)\<rparr>;
              b2 = (case c_issuer c of
                      None \<Rightarrow> b1
                    | Some i \<Rightarrow> owe i (purse_add (unpaid c) [Closed (c_id c) why (unpaid c)]) b1)
          in case c_holder c of
               None \<Rightarrow> b2
             | Some t \<Rightarrow> if why = Expired then owe t (purse_add 0 [PatrolRanOut (c_id c)]) b2 else b2)"

definition open_jobs :: "bool \<Rightarrow> board \<Rightarrow> nat" where
  "open_jobs patrol b =
     length (filter (\<lambda>c. c_issuer c = None \<and> is_patrol (c_task c) = patrol) (bvals (b_contracts b)))"

definition asked_for :: "contract \<Rightarrow> item option" where
  "asked_for c =
     (case c_task c of Supply i _ _ \<Rightarrow> if c_issuer c = None then Some i else None | Patrol _ _ \<Rightarrow> None)"

definition short_of :: "exchange \<Rightarrow> item \<Rightarrow> rat" where
  "short_of e i =
     (let target = (case desk_for i of None \<Rightarrow> 1 | Some d \<Rightarrow> rn64 (of_nat (d_target d)))
      in rn64 (bor target (colony_stock e i) / max target 1))"

text \<open>\<open>Iterator::min_by\<close>: the first of the least.\<close>

fun first_min :: "('a \<Rightarrow> 'k::linorder) \<Rightarrow> 'a list \<Rightarrow> 'a option" where
  "first_min key [] = None"
| "first_min key (x # xs) =
     (case first_min key xs of None \<Rightarrow> Some x | Some y \<Rightarrow> Some (if key x \<le> key y then x else y))"

definition next_supply :: "exchange \<Rightarrow> board \<Rightarrow> (item \<times> nat) option" where
  "next_supply e b =
     (let asked = List.map_filter asked_for (bvals (b_contracts b))
      in first_min (\<lambda>(i, _). (short_of e i, i)) (filter (\<lambda>(i, _). i \<notin> set asked) SUPPLY))"

definition post_supply :: "item \<Rightarrow> nat \<Rightarrow> nat \<Rightarrow> board \<Rightarrow> board" where
  "post_supply i qty now b =
     snd (post_contract None ''THE COLONY'' (Supply i qty 0) (priced i qty SUPPLY_PCT) now SUPPLY_SECS b)"

definition post_patrol :: "nat \<Rightarrow> board \<Rightarrow> board" where
  "post_patrol now b =
     snd (post_contract None ''THE MILITIA'' (Patrol PATROL_BOUNTY 0) PATROL_REWARD now PATROL_STANDS_SECS b)"

partial_function (option) supply_loop :: "exchange \<Rightarrow> nat \<Rightarrow> bool \<Rightarrow> board \<Rightarrow> (bool \<times> board) option" where
  "supply_loop e now changed b =
     (if open_jobs False b < COLONY_SUPPLY
      then case next_supply e b of
             None \<Rightarrow> Some (changed, b)
           | Some x \<Rightarrow> supply_loop e now True (post_supply (fst x) (snd x) now b)
      else Some (changed, b))"

partial_function (option) patrol_loop :: "nat \<Rightarrow> bool \<Rightarrow> board \<Rightarrow> (bool \<times> board) option" where
  "patrol_loop now changed b =
     (if open_jobs True b < COLONY_PATROLS then patrol_loop now True (post_patrol now b) else Some (changed, b))"

definition expired_at :: "nat \<Rightarrow> board \<Rightarrow> nat list" where
  "expired_at now b = map c_id (filter (\<lambda>c. c_expires c \<le> now) (bvals (b_contracts b)))"

definition board_tick :: "nat \<Rightarrow> exchange \<Rightarrow> board \<Rightarrow> (bool \<times> board) option" where
  "board_tick now e b =
     (let expired = expired_at now b;
          b1 = fold (\<lambda>k. close_contract k Expired) expired b
      in case supply_loop e now (expired \<noteq> []) b1 of
           None \<Rightarrow> None
         | Some (changed, b2) \<Rightarrow>
             if ef_patrols (effects_of b2) then patrol_loop now changed b2 else Some (changed, b2))"

section \<open>What a pilot asks of the Board\<close>

type_synonym board_outcome = "(charter_refusal + charter_reply) \<times> board \<times> hangar"

definition posted_by :: "trader \<Rightarrow> board \<Rightarrow> nat" where
  "posted_by t b = length (filter (\<lambda>c. c_issuer c = Some t) (bvals (b_contracts b)))"

definition post :: "trader \<Rightarrow> string \<Rightarrow> item \<Rightarrow> nat \<Rightarrow> nat \<Rightarrow> nat \<Rightarrow> nat \<Rightarrow> board \<Rightarrow> hangar \<Rightarrow> board_outcome" where
  "post t name i qty reward hours now b h =
     (if \<not> item_valid i then (Inl C_NoSuchItem, b, h)
      else if qty = 0 \<or> MAX_QTY < qty then (Inl NotAQuantity, b, h)
      else if reward = 0 then (Inl MustPay, b, h)
      else if hours = 0 \<or> MAX_HOURS < hours then (Inl BadHours, b, h)
      else if MAX_POSTED \<le> posted_by t b then (Inl TooManyPosted, b, h)
      else if credits h < reward then (Inl (NeedsCredits reward (credits h)), b, h)
      else
        let (k, b') = post_contract (Some t) name (Supply i qty 0) reward now (hours * 3600) (note_name t name b)
        in (Inr (ContractPosted k i qty reward), b', h\<lparr>credits := credits h - reward\<rparr>))"

definition withdraw :: "trader \<Rightarrow> nat \<Rightarrow> board \<Rightarrow> hangar \<Rightarrow> board_outcome" where
  "withdraw t k b h =
     (case bget (b_contracts b) k of
        None \<Rightarrow> (Inl NoSuchContract, b, h)
      | Some c \<Rightarrow>
          if c_issuer c \<noteq> Some t then (Inl NotYours, b, h)
          else let (notes, b', h') = board_collect t (close_contract k Withdrawn b) h in (Inr (Told notes), b', h'))"

text \<open>A delivery's two ends: whom it goes to and what they are told, then the contract, if filled.\<close>

definition hand_over :: "contract \<Rightarrow> trader \<Rightarrow> string \<Rightarrow> item \<Rightarrow> nat \<Rightarrow> nat \<Rightarrow> exchange \<times> board \<Rightarrow> exchange \<times> board" where
  "hand_over c t name i n pay eb =
     (let (e, b) = eb
      in case c_issuer c of
           None \<Rightarrow> (colony_receive i n e, colony_pays t pay b)
         | Some owner \<Rightarrow> (e, owe owner (purse_add_goods i n [Delivered (c_id c) name n i]) b))"

definition fill_contract :: "contract \<Rightarrow> board \<Rightarrow> board" where
  "fill_contract c b =
     (let b1 = (case c_issuer c of None \<Rightarrow> b | Some owner \<Rightarrow> owe owner (purse_add 0 [Filled_up (c_id c)]) b)
      in b1\<lparr>b_contracts := bdel (c_id c) (b_contracts b1)\<rparr>)"

definition delivery :: "contract \<Rightarrow> trader \<Rightarrow> string \<Rightarrow> nat \<Rightarrow> item \<Rightarrow> nat \<Rightarrow> nat \<Rightarrow> nat \<Rightarrow> stores \<Rightarrow> exchange \<Rightarrow> board
    \<Rightarrow> hangar \<Rightarrow> (charter_refusal + charter_reply) \<times> exchange \<times> board \<times> hangar" where
  "delivery c t name k i wanted delivered n st e b h =
     (let pay = pay_for (c_reward c) (delivered + n) wanted - pay_for (c_reward c) delivered wanted;
          c' = c\<lparr>c_paid := c_paid c + pay, c_task := Supply i wanted (delivered + n)\<rparr>;
          b1 = note_name t name (b\<lparr>b_contracts := bput k c' (b_contracts b)\<rparr>);
          (e2, b2) = hand_over c t name i n pay (e, b1);
          filled = (delivered + n = wanted)
      in (Inr (DeliveredPaid i n pay filled), e2, if filled then fill_contract c b2 else b2,
          h\<lparr>hstores := st, credits := credits h + pay\<rparr>))"

definition deliver :: "trader \<Rightarrow> string \<Rightarrow> nat \<Rightarrow> nat \<Rightarrow> nat \<Rightarrow> exchange \<Rightarrow> board \<Rightarrow> hangar
    \<Rightarrow> (charter_refusal + charter_reply) \<times> exchange \<times> board \<times> hangar" where
  "deliver t name k qty now e b h =
     (case bget (b_contracts b) k of
        None \<Rightarrow> (Inl NoSuchContract, e, b, h)
      | Some c \<Rightarrow>
          (case c_task c of
             Patrol _ _ \<Rightarrow> (Inl ItsAPatrol, e, b, h)
           | Supply i wanted delivered \<Rightarrow>
               if c_issuer c = Some t then (Inl YourOwn, e, b, h)
               else if c_expires c \<le> now then (Inl HasExpired, e, b, h)
               else
                 let n = min (min qty (wanted - delivered)) (st_get (hstores h) i)
                 in if n = 0 then (Inl (NothingToDeliver i), e, b, h)
                    else
                      let (ok, st) = st_take i n (hstores h)
                      in if \<not> ok then (Inl StoresRefused, e, b, h)
                         else delivery c t name k i wanted delivered n st e b h))"

section \<open>Patrols\<close>

definition take_patrol :: "trader \<Rightarrow> string \<Rightarrow> nat \<Rightarrow> nat \<Rightarrow> board \<Rightarrow> (charter_refusal + charter_reply) \<times> board" where
  "take_patrol t name k now b =
     (if list_ex (\<lambda>c. c_holder c = Some t) (bvals (b_contracts b)) then (Inl FlyingAlready, b)
      else case bget (b_contracts b) k of
        None \<Rightarrow> (Inl NoSuchContract, b)
      | Some c \<Rightarrow>
          (case c_task c of
             Supply _ _ _ \<Rightarrow> (Inl NothingToTake, b)
           | Patrol bounty _ \<Rightarrow>
               if c_holder c \<noteq> None then (Inl TakenAlready, b)
               else (Inr (PatrolTaken k bounty),
                     note_name t name
                       (b\<lparr>b_contracts := bput k (c\<lparr>c_holder := Some t, c_expires := now + PATROL_SECS\<rparr>)
                                          (b_contracts b)\<rparr>))))"

definition drop_patrol :: "trader \<Rightarrow> nat \<Rightarrow> nat \<Rightarrow> board \<Rightarrow> (charter_refusal + charter_reply) \<times> board" where
  "drop_patrol t k now b =
     (case bget (b_contracts b) k of
        None \<Rightarrow> (Inl NoSuchContract, b)
      | Some c \<Rightarrow>
          if c_holder c \<noteq> Some t then (Inl NotYourPatrol, b)
          else (Inr (PatrolGivenUp k),
                b\<lparr>b_contracts := bput k
                    (c\<lparr>c_holder := None,
                       c_task := (case c_task c of Patrol bounty _ \<Rightarrow> Patrol bounty 0 | tk \<Rightarrow> tk),
                       c_expires := now + PATROL_STANDS_SECS\<rparr>) (b_contracts b)\<rparr>))"

definition bounties :: "trader \<Rightarrow> nat \<Rightarrow> nat \<Rightarrow> bool \<Rightarrow> board \<Rightarrow> hangar \<Rightarrow> charter_reply list \<times> board \<times> hangar" where
  "bounties t bounty now at_desk b h =
     (if bounty = 0 then ([], b, h)
      else
        case find (\<lambda>(k, c). c_holder c = Some t \<and> now < c_expires c) (entries (b_contracts b)) of
          None \<Rightarrow> ([], b, h)
        | Some (k, c) \<Rightarrow>
            (case c_task c of
               Supply _ _ _ \<Rightarrow> ([], b, h)
             | Patrol target got \<Rightarrow>
                 let now_got = min (got + bounty) target;
                     b1 = b\<lparr>b_contracts := bput k (c\<lparr>c_task := Patrol target now_got\<rparr>) (b_contracts b)\<rparr>
                 in if now_got < target then ([PatrolSoFar (c_id c) now_got target], b1, h)
                    else
                      let r = c_reward c;
                          b2 = colony_pays t r (b1\<lparr>b_contracts := bdel (c_id c) (b_contracts b1)\<rparr>);
                          h' = board_paid (PatrolPaid (c_id c) at_desk) r h
                      in if \<not> at_desk
                         then ([PatrolFlown (c_id c) (c_issuer_name c) r False], owe t (purse_add r []) b2, h')
                         else ([PatrolFlown (c_id c) (c_issuer_name c) r True],
                               desk_owes t (purse_add r [PatrolPay (c_id c) (c_issuer_name c) r]) b2, h')))"

section \<open>The great works and the charter\<close>

definition credit_work :: "trader \<Rightarrow> item \<Rightarrow> nat \<Rightarrow> nat \<Rightarrow> progress \<Rightarrow> progress" where
  "credit_work t i n pay p =
     p\<lparr>pr_delivered := bupd 0 (\<lambda>e. e + n) i (pr_delivered p),
       pr_contributors := bupd 0 (\<lambda>e. e + pay) t (pr_contributors p)\<rparr>"

definition has_its_needs :: "work \<Rightarrow> progress \<Rightarrow> bool" where
  "has_its_needs w p \<longleftrightarrow> list_all (\<lambda>(i, q). q \<le> bor 0 (bget (pr_delivered p) i)) (work_needs w)"

definition finish_work :: "work \<Rightarrow> nat \<Rightarrow> board \<Rightarrow> board" where
  "finish_work w now b =
     (let b1 = announce (WorkFinished w) (b\<lparr>b_works := (b_works b)(w := (b_works b w)\<lparr>pr_done := Some now\<rparr>)\<rparr>)
      in if vote_open b1 then announce VoteOpen b1 else b1)"

definition contribution :: "trader \<Rightarrow> string \<Rightarrow> work \<Rightarrow> item \<Rightarrow> nat \<Rightarrow> nat \<Rightarrow> stores \<Rightarrow> board \<Rightarrow> hangar \<Rightarrow> board_outcome" where
  "contribution t name w i n now st b h =
     (let pay = priced i n WORKS_PCT;
          b1 = colony_pays t pay (note_name t name b);
          p = credit_work t i n pay (b_works b1 w);
          b2 = b1\<lparr>b_works := (b_works b1)(w := p)\<rparr>;
          complete = has_its_needs w p
      in (Inr (Contributed w i n pay complete), if complete then finish_work w now b2 else b2,
          h\<lparr>hstores := st, credits := credits h + pay\<rparr>))"

definition contribute :: "trader \<Rightarrow> string \<Rightarrow> work \<Rightarrow> item \<Rightarrow> nat \<Rightarrow> nat \<Rightarrow> board \<Rightarrow> hangar \<Rightarrow> board_outcome" where
  "contribute t name w i qty now b h =
     (if work_era w \<noteq> b_era b \<or> work_done w b then (Inl (WorkIsFinished w), b, h)
      else
        case find (\<lambda>(j, _). j = i) (work_needs w) of
          None \<Rightarrow> (Inl (WorkDoesntNeed w i), b, h)
        | Some (_, need) \<Rightarrow>
            let have' = bor 0 (bget (pr_delivered (b_works b w)) i);
                n = min (min qty (need - have')) (st_get (hstores h) i)
            in if n = 0
               then (Inl (if need \<le> have' then WorkHasAll w i else NothingToDeliver i), b, h)
               else
                 let (ok, st) = st_take i n (hstores h)
                 in if \<not> ok then (Inl StoresRefused, b, h) else contribution t name w i n now st b h)"

definition sign_charter :: "trader \<Rightarrow> string \<Rightarrow> nat \<Rightarrow> board \<Rightarrow> (charter_refusal + charter_reply) \<times> board" where
  "sign_charter t name now b =
     (if work_done CharterVote b then (Inl AlreadyAdopted, b)
      else if \<not> vote_open b then (Inl VoteNotOpen, b)
      else if standing_of t b = 0 then (Inl NoStanding, b)
      else if t \<in> set (b_signatures b) then (Inl SignedAlready, b)
      else
        let b1 = note_name t name b; b2 = b1\<lparr>b_signatures := b_signatures b1 @ [t]\<rparr>;
            n = length (b_signatures b2)
        in if n < SIGNATURES then (Inr (Signed n), b2)
           else
             (Inr Adopted,
              announce (WorkFinished CharterVote)
                (b2\<lparr>b_works := (b_works b2)(CharterVote := (b_works b2 CharterVote)\<lparr>pr_done := Some now\<rparr>),
                    b_era := 1\<rparr>)))"

section \<open>The board as a pilot sees it\<close>

fun work_name :: "work \<Rightarrow> string" where
  "work_name SecondFoundry = ''A second foundry''"
| "work_name MilitiaHangar = ''The militia's hangar''"
| "work_name CharterVote = ''The charter vote''"

fun work_summary :: "work \<Rightarrow> string" where
  "work_summary SecondFoundry =
     ''A second zero-G foundry on the spire. Siderium at half the fee, made twice as fast.''"
| "work_summary MilitiaHangar =
     ''A hangar for the colony's own militia. Pilots on contract patrol the field against the drones.''"
| "work_summary CharterVote =
     ''The colony governs itself. Pilots of standing sign, and the calendar begins: CY 1.''"

record contract_view =
  cv_id :: nat
  cv_issuer :: string
  cv_colony :: bool
  cv_mine :: bool
  cv_task :: task
  cv_reward :: nat
  cv_paid :: nat
  cv_secs_left :: nat
  cv_holder :: "string option"
  cv_held :: bool

record work_view =
  wv_work :: work
  wv_name :: string
  wv_summary :: string
  wv_needs :: "(item \<times> nat \<times> nat) list"
  wv_open :: bool
  wv_done :: bool
  wv_top :: "(string \<times> nat) list"
  wv_mine :: nat

record wanted_view =
  wt_ace :: nat
  wt_name :: string
  wt_bounty :: nat
  wt_out :: bool
  wt_last :: "downed option"

record waiting =
  wa_credits :: nat
  wa_goods :: "(item \<times> nat) list"

record charter_view =
  vw_era :: nat
  vw_contracts :: "contract_view list"
  vw_works :: "work_view list"
  vw_standing :: nat
  vw_signatures :: nat
  vw_signatures_needed :: nat
  vw_signed :: bool
  vw_max_posted :: nat
  vw_supply_pct :: nat
  vw_works_pct :: nat
  vw_wanted :: "wanted_view list"
  vw_ladder :: "(string \<times> nat) list"
  vw_mine_aces :: nat
  vw_salvage_terms :: bool
  vw_waiting :: "waiting option"

text \<open>Their own and the one they hold first, then the colony's, then the newest.\<close>

definition view_key :: "trader \<Rightarrow> contract \<Rightarrow> bool \<times> bool \<times> int" where
  "view_key t c =
     (\<not> (c_issuer c = Some t \<or> c_holder c = Some t), c_issuer c \<noteq> None, - int (c_id c))"

definition contract_seen :: "trader \<Rightarrow> nat \<Rightarrow> board \<Rightarrow> contract \<Rightarrow> contract_view" where
  "contract_seen t now b c =
     \<lparr>cv_id = c_id c, cv_issuer = c_issuer_name c, cv_colony = (c_issuer c = None), cv_mine = (c_issuer c = Some t),
      cv_task = c_task c, cv_reward = c_reward c, cv_paid = c_paid c, cv_secs_left = c_expires c - now,
      cv_holder = map_option (\<lambda>h. name_of h b) (c_holder c), cv_held = (c_holder c = Some t)\<rparr>"

text \<open>The highest count first, then by name.\<close>

definition ranked :: "nat \<Rightarrow> board \<Rightarrow> (trader, nat) bmap \<Rightarrow> (string \<times> nat) list" where
  "ranked n b m =
     take n (sort_key (\<lambda>(name, s). (- int s, name)) (map (\<lambda>(t, s). (name_of t b, s)) (entries m)))"

definition work_seen :: "trader \<Rightarrow> board \<Rightarrow> work \<Rightarrow> work_view" where
  "work_seen t b w =
     (let p = b_works b w
      in \<lparr>wv_work = w, wv_name = work_name w, wv_summary = work_summary w,
          wv_needs = map (\<lambda>(i, q). (i, q, bor 0 (bget (pr_delivered p) i))) (work_needs w),
          wv_open = (if w = CharterVote then vote_open b else \<not> work_done w b), wv_done = work_done w b,
          wv_top = ranked 5 b (pr_contributors p), wv_mine = bor 0 (bget (pr_contributors p) t)\<rparr>)"

definition wanted_seen :: "board \<Rightarrow> nat \<times> ace \<Rightarrow> wanted_view" where
  "wanted_seen b = (\<lambda>(k, a).
     \<lparr>wt_ace = k, wt_name = a_name a, wt_bounty = a_bounty a, wt_out = False, wt_last = bget (b_wanted b) k\<rparr>)"

definition waiting_seen :: "trader \<Rightarrow> board \<Rightarrow> waiting option" where
  "waiting_seen t b =
     (case bget (b_at_desk b) t of
        None \<Rightarrow> None
      | Some a \<Rightarrow>
          if 0 < pa_credits a \<or> entries (pa_goods a) \<noteq> []
          then Some \<lparr>wa_credits = pa_credits a, wa_goods = entries (pa_goods a)\<rparr> else None)"

definition board_view :: "trader \<Rightarrow> nat \<Rightarrow> board \<Rightarrow> charter_view" where
  "board_view t now b =
     \<lparr>vw_era = b_era b,
      vw_contracts = map (contract_seen t now b)
        (take VIEW_CONTRACTS (sort_key (view_key t) (bvals (b_contracts b)))),
      vw_works = map (work_seen t b) (filter (\<lambda>w. work_era w = b_era b \<or> work_done w b) work_all),
      vw_standing = standing_of t b, vw_signatures = length (b_signatures b), vw_signatures_needed = SIGNATURES,
      vw_signed = (t \<in> set (b_signatures b)), vw_max_posted = MAX_POSTED, vw_supply_pct = SUPPLY_PCT,
      vw_works_pct = WORKS_PCT, vw_wanted = map (wanted_seen b) (enumerate 0 ACES),
      vw_ladder = ranked LADDER_KEPT b (b_aces b), vw_mine_aces = bor 0 (bget (b_aces b) t),
      vw_salvage_terms = (bget (b_salvage_terms b) t \<noteq> None), vw_waiting = waiting_seen t b\<rparr>"

end
