(* ===== verification/Notices.thy ===== *)
theory Notices
  imports Charter Market
begin

text \<open>
  What makes the Charter Board correct (theory Charter): the invariant of its contracts
  (\<open>contracts_ok\<close>), of the charter (\<open>charter_ok\<close>) and of the news (\<open>news_ok\<close>), kept by every step of
  \<open>board_step\<close>; the ledger of its credits; the clock, which always comes round; what a delivery
  pays; and that a refusal changes nothing.
\<close>

section \<open>Counting contracts\<close>

definition counted :: "('v \<Rightarrow> bool) \<Rightarrow> ('k::linorder, 'v) bmap \<Rightarrow> nat" where
  "counted P m = length (filter P (bvals m))"

lemma counted_bsum: "counted P m = bsum (\<lambda>v. of_bool (P v)) m"
proof -
  have "length (filter P xs) = sum_list (map (\<lambda>v. of_bool (P v)) xs)" for xs
    by (induction xs) simp_all
  then show ?thesis by (simp add: counted_def bsum_def)
qed

lemma counted_bempty [simp]: "counted P bempty = 0"
  by (simp add: counted_bsum)

lemma counted_bput: "counted P (bput k v m) + (case bget m k of None \<Rightarrow> 0 | Some w \<Rightarrow> of_bool (P w))
    = counted P m + of_bool (P v)"
  unfolding counted_bsum by (rule bsum_bput)

lemma counted_new [simp]: "bget m k = None \<Longrightarrow> counted P (bput k v m) = counted P m + of_bool (P v)"
  using counted_bput [of P k v m] by simp

lemma counted_same: "bget m k = Some w \<Longrightarrow> P w = P v \<Longrightarrow> counted P (bput k v m) = counted P m"
  using counted_bput [of P k v m] by simp

lemma counted_drop: "bget m k = Some w \<Longrightarrow> \<not> P v \<Longrightarrow> counted P (bput k v m) \<le> counted P m"
  using counted_bput [of P k v m] by simp

lemma counted_bdel: "counted P (bdel k m) \<le> counted P m"
  using bsum_bdel [of "\<lambda>v. of_bool (P v)" k m] by (simp add: counted_bsum)

lemma counted_none: "counted P m = 0 \<longleftrightarrow> (\<forall>k v. bget m k = Some v \<longrightarrow> \<not> P v)"
  by (auto simp: counted_def filter_empty_conv set_bvals)

section \<open>The invariant of the contracts\<close>

definition contract_ok :: "nat \<Rightarrow> contract \<Rightarrow> bool" where
  "contract_ok k c \<longleftrightarrow> c_id c = k \<and> c_reward c \<le> u64_max
     \<and> (case c_task c of
          Supply i q d \<Rightarrow> d < q \<and> c_paid c = pay_for (c_reward c) d q \<and> c_holder c = None
        | Patrol bounty got \<Rightarrow> got < bounty \<and> c_paid c = 0 \<and> c_issuer c = None)"

definition contracts_sound :: "board \<Rightarrow> bool" where
  "contracts_sound b \<longleftrightarrow> list_all (\<lambda>(k, c). contract_ok k c \<and> k < b_next_id b) (entries (b_contracts b))"

definition held_by :: "trader \<Rightarrow> board \<Rightarrow> nat" where
  "held_by t b = counted (\<lambda>c. c_holder c = Some t) (b_contracts b)"

definition asking :: "item \<Rightarrow> board \<Rightarrow> nat" where
  "asking i b = counted (\<lambda>c. asked_for c = Some i) (b_contracts b)"

definition contracts_ok :: "board \<Rightarrow> bool" where
  "contracts_ok b \<longleftrightarrow> contracts_sound b \<and> (\<forall>t. posted_by t b \<le> MAX_POSTED \<and> held_by t b \<le> 1)
     \<and> (\<forall>i. asking i b \<le> 1)
     \<and> open_jobs False b \<le> COLONY_SUPPLY \<and> open_jobs True b \<le> COLONY_PATROLS"

lemma posted_by_counted: "posted_by t b = counted (\<lambda>c. c_issuer c = Some t) (b_contracts b)"
  by (simp add: posted_by_def counted_def)

lemma open_jobs_counted:
  "open_jobs p b = counted (\<lambda>c. c_issuer c = None \<and> is_patrol (c_task c) = p) (b_contracts b)"
  by (simp add: open_jobs_def counted_def)

lemmas counts = posted_by_counted held_by_def open_jobs_counted asking_def

lemma contracts_sound_get:
  "contracts_sound b \<longleftrightarrow> (\<forall>k c. bget (b_contracts b) k = Some c \<longrightarrow> contract_ok k c \<and> k < b_next_id b)"
  unfolding contracts_sound_def list_all_iff by (auto simp: bget_entries)

lemma contract_okD:
  assumes "contracts_ok b" and "bget (b_contracts b) k = Some c"
  shows "contract_ok k c" and "c_id c = k" and "k < b_next_id b"
  using assms by (auto simp: contracts_ok_def contracts_sound_get contract_ok_def)

lemma next_id_free: "contracts_ok b \<Longrightarrow> bget (b_contracts b) (b_next_id b) = None"
  using contract_okD(3) [of b "b_next_id b"] by (cases "bget (b_contracts b) (b_next_id b)") auto

lemma contracts_ok_cong:
  "b_contracts b' = b_contracts b \<Longrightarrow> b_next_id b' = b_next_id b \<Longrightarrow> contracts_ok b' = contracts_ok b"
  by (simp add: contracts_ok_def contracts_sound_def counts)

text \<open>What a delivery pays in all never passes the reward, grows with it, and is the reward at the end.\<close>

lemma pay_for_mono: "d \<le> d' \<Longrightarrow> pay_for r d q \<le> pay_for r d' q"
  unfolding pay_for_def by (intro sat64_mono div_le_mono mult_le_mono2)

lemma pay_for_0 [simp]: "pay_for r 0 q = 0"
  by (simp add: pay_for_def sat64_def)

lemma pay_for_full: "0 < q \<Longrightarrow> r \<le> u64_max \<Longrightarrow> pay_for r q q = r"
  by (simp add: pay_for_def max_absorb1)

lemma pay_for_le: "d \<le> q \<Longrightarrow> 0 < q \<Longrightarrow> r \<le> u64_max \<Longrightarrow> pay_for r d q \<le> r"
  using pay_for_mono [of d q r q] pay_for_full [of q r] by simp

lemma paid_le_reward: "contract_ok k c \<Longrightarrow> c_paid c \<le> c_reward c"
  by (auto simp: contract_ok_def intro!: pay_for_le split: task.splits)

section \<open>Each operation's change to the contracts\<close>

lemma posting_ok:
  assumes b: "contracts_ok b" and "reward \<le> u64_max"
    and tk: "case tk of Supply i q d \<Rightarrow> d = 0 \<and> 0 < q | Patrol bounty got \<Rightarrow> got = 0 \<and> 0 < bounty \<and> issuer = None"
    and room: "case issuer of Some t \<Rightarrow> posted_by t b < MAX_POSTED
                | None \<Rightarrow> open_jobs (is_patrol tk) b < (if is_patrol tk then COLONY_PATROLS else COLONY_SUPPLY)
                    \<and> (case tk of Supply i q d \<Rightarrow> asking i b = 0 | _ \<Rightarrow> True)"
  shows "contracts_ok (snd (post_contract issuer who tk reward now secs b))"
proof -
  note free = next_id_free [OF b]
  let ?c = "\<lparr>c_id = b_next_id b, c_issuer = issuer, c_issuer_name = who, c_task = tk, c_reward = reward,
                  c_paid = 0, c_posted = now, c_expires = now + secs, c_holder = None\<rparr>"
  let ?b = "snd (post_contract issuer who tk reward now secs b)"
  have new: "b_contracts ?b = bput (b_next_id b) ?c (b_contracts b)" "b_next_id ?b = Suc (b_next_id b)"
    by (simp_all add: post_contract_def Let_def)
  have asked: "asked_for ?c = (if issuer = None then (case tk of Supply i q d \<Rightarrow> Some i | _ \<Rightarrow> None) else None)"
    by (simp add: asked_for_def split: task.split)
  have "contract_ok (b_next_id b) ?c"
    using assms(2) tk by (auto simp: contract_ok_def split: task.splits)
  then have "contracts_sound ?b"
    using b by (auto simp: contracts_ok_def contracts_sound_get new less_Suc_eq)
  moreover have "posted_by t ?b \<le> MAX_POSTED" "held_by t ?b \<le> 1" for t
    using b room free by (auto simp: contracts_ok_def counts new split: option.splits)
  moreover have "asking i ?b \<le> 1" for i
    using b room free by (auto simp: contracts_ok_def counts new asked split: option.splits task.splits)
  moreover have "open_jobs p ?b \<le> (if p then COLONY_PATROLS else COLONY_SUPPLY)" for p
    using b room free by (cases p) (auto simp: contracts_ok_def counts new split: option.splits)
  from this [of True] this [of False] have "open_jobs False ?b \<le> COLONY_SUPPLY" "open_jobs True ?b \<le> COLONY_PATROLS"
    by simp_all
  ultimately show ?thesis by (simp add: contracts_ok_def)
qed

text \<open>Taking contracts down keeps the invariant.\<close>

lemma removing_ok: "contracts_ok b \<Longrightarrow> contracts_ok (b\<lparr>b_contracts := bdel k (b_contracts b)\<rparr>)"
  unfolding contracts_ok_def contracts_sound_get counts
  by (auto intro: order_trans [OF counted_bdel] split: if_splits)

text \<open>So does changing one in place, its issuer and whether it is a patrol as they were, its holder
  as it was, gone, or one who holds none.\<close>

lemma changing_ok:
  assumes b: "contracts_ok b" and c: "bget (b_contracts b) k = Some c" and ok: "contract_ok k c'"
    and same: "c_issuer c' = c_issuer c" "is_patrol (c_task c') = is_patrol (c_task c)" "asked_for c' = asked_for c"
    and holder: "c_holder c' = c_holder c \<or> c_holder c' = None \<or> (\<exists>t. c_holder c' = Some t \<and> held_by t b = 0)"
  shows "contracts_ok (b\<lparr>b_contracts := bput k c' (b_contracts b)\<rparr>)"
proof -
  let ?b = "b\<lparr>b_contracts := bput k c' (b_contracts b)\<rparr>"
  have "asking i ?b = asking i b" for i
    unfolding counts using same(3) by (auto intro!: counted_same [OF c])
  moreover have "contracts_sound ?b"
    using b ok contract_okD(3) [OF b c] by (auto simp: contracts_ok_def contracts_sound_get)
  moreover have "posted_by t ?b = posted_by t b" "open_jobs p ?b = open_jobs p b" for t p
    unfolding counts using same by (auto intro!: counted_same [OF c])
  moreover have "held_by t ?b \<le> 1" for t
  proof -
    have "held_by t b \<le> 1" using b by (simp add: contracts_ok_def)
    then show ?thesis
      using counted_bput [of "\<lambda>c. c_holder c = Some t" k c' "b_contracts b"] holder c
      by (cases "c_holder c' = Some t") (auto simp: held_by_def)
  qed
  ultimately show ?thesis using b by (simp add: contracts_ok_def)
qed

section \<open>Operations that leave the contracts alone\<close>

lemmas board_updates = owe_def desk_owes_def colony_pays_def note_name_def announce_def Let_def

lemma same_contracts [simp]:
  "b_contracts (owe t f b) = b_contracts b" "b_contracts (desk_owes t f b) = b_contracts b"
  "b_contracts (colony_pays t n b) = b_contracts b" "b_contracts (note_name t name b) = b_contracts b"
  "b_contracts (announce x b) = b_contracts b" "b_contracts (finish_work w now b) = b_contracts b"
  by (simp_all add: board_updates finish_work_def)

lemma same_next_id [simp]:
  "b_next_id (owe t f b) = b_next_id b" "b_next_id (desk_owes t f b) = b_next_id b"
  "b_next_id (colony_pays t n b) = b_next_id b" "b_next_id (note_name t name b) = b_next_id b"
  "b_next_id (announce x b) = b_next_id b" "b_next_id (finish_work w now b) = b_next_id b"
  by (simp_all add: board_updates finish_work_def)

lemma contracts_ok_other [simp]:
  "contracts_ok (owe t f b) = contracts_ok b" "contracts_ok (desk_owes t f b) = contracts_ok b"
  "contracts_ok (colony_pays t n b) = contracts_ok b" "contracts_ok (note_name t name b) = contracts_ok b"
  "contracts_ok (announce x b) = contracts_ok b" "contracts_ok (finish_work w now b) = contracts_ok b"
  "contracts_ok (b\<lparr>b_accounts := ac\<rparr>) = contracts_ok b" "contracts_ok (b\<lparr>b_at_desk := ac\<rparr>) = contracts_ok b"
  "contracts_ok (b\<lparr>b_colony_paid := cp\<rparr>) = contracts_ok b"
  by (rule contracts_ok_cong; simp)+

lemma close_contracts [simp]:
  "b_contracts (close_contract k why b) = bdel k (b_contracts b)" "b_next_id (close_contract k why b) = b_next_id b"
  by (auto simp: close_contract_def Let_def split: option.split)

lemma closing_ok: "contracts_ok b \<Longrightarrow> contracts_ok (close_contract k why b)"
  using contracts_ok_cong [of "close_contract k why b" "b\<lparr>b_contracts := bdel k (b_contracts b)\<rparr>"] removing_ok [of b k]
  by simp

lemma close_fold [simp]:
  "b_contracts (fold (\<lambda>k. close_contract k why) ks b) = fold bdel ks (b_contracts b)"
  "b_next_id (fold (\<lambda>k. close_contract k why) ks b) = b_next_id b"
  by (induction ks arbitrary: b) simp_all

lemma closing_all_ok: "contracts_ok b \<Longrightarrow> contracts_ok (fold (\<lambda>k. close_contract k why) ks b)"
  by (induction ks arbitrary: b) (simp_all add: closing_ok)

section \<open>Operations on the contracts\<close>

named_theorems contracts_keep "each operation keeps the contracts' invariant"

lemma post_ok [contracts_keep]:
  assumes "post t name i qty reward hours now b h = (r, b', h')" and "contracts_ok b" and "reward \<le> u64_max"
  shows "contracts_ok b'"
proof (cases r)
  case (Inl why)
  with assms show ?thesis by (auto simp: post_def Let_def split: if_splits prod.splits)
next
  case (Inr ok)
  with assms(1) have "b' = snd (post_contract (Some t) name (Supply i qty 0) reward now (hours * 3600) (note_name t name b))"
    and "0 < qty" "posted_by t b < MAX_POSTED"
    by (auto simp: post_def Let_def split: if_splits prod.splits)
  with assms(2,3) show ?thesis by (auto intro!: posting_ok simp: posted_by_counted)
qed

lemma withdraw_ok [contracts_keep]:
  "withdraw t k b h = (r, b', h') \<Longrightarrow> contracts_ok b \<Longrightarrow> contracts_ok b'"
  by (auto simp: withdraw_def board_collect_def intro!: closing_ok split: option.splits if_splits prod.splits)

lemma hand_over_contracts [simp]:
  "hand_over c t name i n pay (e, b) = (e', b') \<Longrightarrow> b_contracts b' = b_contracts b \<and> b_next_id b' = b_next_id b"
  by (auto simp: hand_over_def split: option.splits)

lemma fill_contracts [simp]:
  "b_contracts (fill_contract c b) = bdel (c_id c) (b_contracts b)" "b_next_id (fill_contract c b) = b_next_id b"
  by (auto simp: fill_contract_def Let_def split: option.splits)

text \<open>A delivery that was taken, taken apart once.\<close>

lemma deliver_DoneE:
  assumes "deliver t name k qty now e b h = (Inr r, e', b', h')"
  obtains c i q d n pay b2 where "bget (b_contracts b) k = Some c" "c_task c = Supply i q d" "c_issuer c \<noteq> Some t"
    "now < c_expires c" "n = min (min qty (q - d)) (st_get (hstores h) i)" "0 < n"
    "pay = pay_for (c_reward c) (d + n) q - pay_for (c_reward c) d q" "r = DeliveredPaid i n pay (d + n = q)"
    "hand_over c t name i n pay (e, note_name t name (b\<lparr>b_contracts :=
       bput k (c\<lparr>c_paid := c_paid c + pay, c_task := Supply i q (d + n)\<rparr>) (b_contracts b)\<rparr>)) = (e', b2)"
    "b' = (if d + n = q then fill_contract c b2 else b2)" "fst (st_take i n (hstores h))"
    "h' = h\<lparr>hstores := snd (st_take i n (hstores h)), credits := credits h + pay\<rparr>"
proof -
  from assms obtain c where c: "bget (b_contracts b) k = Some c"
    by (cases "bget (b_contracts b) k") (simp_all add: deliver_def)
  with assms obtain i q d where s: "c_task c = Supply i q d"
    by (cases "c_task c") (simp_all add: deliver_def)
  define n where "n = min (min qty (q - d)) (st_get (hstores h) i)"
  let ?pay = "pay_for (c_reward c) (d + n) q - pay_for (c_reward c) d q"
  let ?st = "snd (st_take i n (hstores h))"
  have iss: "c_issuer c \<noteq> Some t" using assms by (auto simp: deliver_def c s)
  have ex: "now < c_expires c" by (rule ccontr) (use assms iss in \<open>simp add: deliver_def c s\<close>)
  have E: "deliver t name k qty now e b h =
      (if n = 0 then (Inl (NothingToDeliver i), e, b, h)
       else if \<not> fst (st_take i n (hstores h)) then (Inl StoresRefused, e, b, h)
       else delivery c t name k i q d n ?st e b h)"
    unfolding deliver_def using iss ex by (simp add: c s prod.case_eq_if flip: n_def)
  then have n: "0 < n" and tk: "fst (st_take i n (hstores h))"
    and dl: "delivery c t name k i q d n ?st e b h = (Inr r, e', b', h')"
    using assms by (auto split: if_split_asm)
  obtain e2 b2 where ho: "hand_over c t name i n ?pay (e, note_name t name (b\<lparr>b_contracts :=
       bput k (c\<lparr>c_paid := c_paid c + ?pay, c_task := Supply i q (d + n)\<rparr>) (b_contracts b)\<rparr>)) = (e2, b2)"
    by force
  with dl have e2: "e2 = e'" and rest: "r = DeliveredPaid i n ?pay (d + n = q)"
    "b' = (if d + n = q then fill_contract c b2 else b2)" "h' = h\<lparr>hstores := ?st, credits := credits h + ?pay\<rparr>"
    by (simp_all add: delivery_def Let_def)
  show ?thesis by (rule that [OF c s iss ex n_def n refl rest(1) ho [unfolded e2] rest(2) tk rest(3)])
qed

lemma deliver_refused: "deliver t name k qty now e b h = (Inl why, e', b', h') \<Longrightarrow> e' = e \<and> b' = b \<and> h' = h"
  by (auto simp: deliver_def delivery_def Let_def split: option.splits task.splits if_splits prod.splits)

lemma deliver_ok [contracts_keep]:
  assumes "deliver t name k qty now e b h = (r, e', b', h')" and b: "contracts_ok b"
  shows "contracts_ok b'"
proof (cases r)
  case (Inr ok)
  from assms(1) [unfolded Inr] obtain c i q d n pay b2 where f: "bget (b_contracts b) k = Some c" "c_task c = Supply i q d"
      "n = min (min qty (q - d)) (st_get (hstores h) i)" "0 < n"
      "pay = pay_for (c_reward c) (d + n) q - pay_for (c_reward c) d q"
      "b' = (if d + n = q then fill_contract c b2 else b2)"
      and ho: "hand_over c t name i n pay (e, note_name t name (b\<lparr>b_contracts :=
       bput k (c\<lparr>c_paid := c_paid c + pay, c_task := Supply i q (d + n)\<rparr>) (b_contracts b)\<rparr>)) = (e', b2)"
    by (rule deliver_DoneE) blast
  let ?c = "c\<lparr>c_paid := c_paid c + pay, c_task := Supply i q (d + n)\<rparr>"
  note ck = contract_okD [OF b f(1)]
  from hand_over_contracts [OF ho]
  have b2: "b_contracts b2 = bput k ?c (b_contracts b)" "b_next_id b2 = b_next_id b" by simp_all
  show ?thesis
  proof (cases "d + n = q")
    case True
    with f(6) ck(2) b2 have "b_contracts b' = bdel k (b_contracts b)" "b_next_id b' = b_next_id b" by simp_all
    with removing_ok [OF b, of k] contracts_ok_cong [of b' "b\<lparr>b_contracts := bdel k (b_contracts b)\<rparr>"]
    show ?thesis by simp
  next
    case False
    from ck(1) f(2) have "d < q" "c_paid c = pay_for (c_reward c) d q" by (simp_all add: contract_ok_def)
    moreover from this False f(3) have "d + n < q" by linarith
    moreover have "pay_for (c_reward c) d q \<le> pay_for (c_reward c) (d + n) q" by (rule pay_for_mono) simp
    ultimately have "contract_ok k ?c" using ck(1) f(2,5) by (simp add: contract_ok_def)
    then have "contracts_ok (b\<lparr>b_contracts := bput k ?c (b_contracts b)\<rparr>)"
      using f(2) by (intro changing_ok [OF b f(1)]) (simp_all add: asked_for_def)
    with False f(6) b2 contracts_ok_cong [of b' "b\<lparr>b_contracts := bput k ?c (b_contracts b)\<rparr>"]
    show ?thesis by simp
  qed
qed (use assms deliver_refused in blast)

lemma held_by_none: "\<not> list_ex (\<lambda>c. c_holder c = Some t) (bvals (b_contracts b)) \<Longrightarrow> held_by t b = 0"
  by (auto simp: held_by_def counted_def list_ex_iff filter_empty_conv)

lemma take_patrol_ok [contracts_keep]:
  assumes "take_patrol t name k now b = (r, b')" and b: "contracts_ok b"
  shows "contracts_ok b'"
proof (cases r)
  case (Inl why)
  with assms show ?thesis by (auto simp: take_patrol_def split: if_splits option.splits task.splits)
next
  case (Inr ok)
  with assms(1) obtain c bounty got where c: "bget (b_contracts b) k = Some c" "c_task c = Patrol bounty got"
    and none: "held_by t b = 0" and b': "b' = note_name t name
        (b\<lparr>b_contracts := bput k (c\<lparr>c_holder := Some t, c_expires := now + PATROL_SECS\<rparr>) (b_contracts b)\<rparr>)"
    by (auto simp: take_patrol_def dest: held_by_none split: if_splits option.splits task.splits)
  let ?c = "c\<lparr>c_holder := Some t, c_expires := now + PATROL_SECS\<rparr>"
  have "contract_ok k ?c" using contract_okD(1) [OF b c(1)] c(2) by (simp add: contract_ok_def)
  then have "contracts_ok (b\<lparr>b_contracts := bput k ?c (b_contracts b)\<rparr>)"
    using none c(2) by (intro changing_ok [OF b c(1)]) (simp_all add: asked_for_def)
  with b' show ?thesis by simp
qed

lemma drop_patrol_ok [contracts_keep]:
  assumes "drop_patrol t k now b = (r, b')" and b: "contracts_ok b"
  shows "contracts_ok b'"
proof (cases r)
  case (Inl why)
  with assms show ?thesis by (auto simp: drop_patrol_def split: if_splits option.splits)
next
  case (Inr ok)
  let ?c = "\<lambda>c. c\<lparr>c_holder := None, c_task := (case c_task c of Patrol bounty _ \<Rightarrow> Patrol bounty 0 | tk \<Rightarrow> tk),
               c_expires := now + PATROL_STANDS_SECS\<rparr>"
  from Inr assms(1) obtain c where c: "bget (b_contracts b) k = Some c"
    and b': "b' = b\<lparr>b_contracts := bput k (?c c) (b_contracts b)\<rparr>"
    by (auto simp: drop_patrol_def split: if_splits option.splits)
  have "contract_ok k (?c c)"
    using contract_okD(1) [OF b c] by (auto simp: contract_ok_def split: task.splits)
  then show ?thesis
    unfolding b' by (intro changing_ok [OF b c]) (simp_all add: asked_for_def split: task.splits)
qed

lemma find_Some_mem: "find P xs = Some x \<Longrightarrow> x \<in> set xs \<and> P x"
  by (induction xs) (auto split: if_splits)

text \<open>What a sortie's bounties did, taken apart once: nothing, or the patrol so far, or the patrol flown.\<close>

lemma bounties_cases:
  assumes "bounties t bounty now at_desk b h = (rs, b', h')" and b: "contracts_ok b"
  obtains "rs = []" "b' = b" "h' = h"
  | k c target got where "bget (b_contracts b) k = Some c" "c_task c = Patrol target got" "c_holder c = Some t"
      "got + bounty < target" "rs = [PatrolSoFar k (got + bounty) target]" "h' = h"
      "b' = b\<lparr>b_contracts := bput k (c\<lparr>c_task := Patrol target (got + bounty)\<rparr>) (b_contracts b)\<rparr>"
  | k c target got where "bget (b_contracts b) k = Some c" "c_task c = Patrol target got" "c_holder c = Some t"
      "target \<le> got + bounty" "rs = [PatrolFlown k (c_issuer_name c) (c_reward c) at_desk]"
      "h' = board_paid (PatrolPaid k at_desk) (c_reward c) h"
      "b' = (if at_desk then desk_owes t (purse_add (c_reward c) [PatrolPay k (c_issuer_name c) (c_reward c)])
             else owe t (purse_add (c_reward c) []))
              (colony_pays t (c_reward c) (b\<lparr>b_contracts := bdel k (b_contracts b)\<rparr>))"
proof (cases "bounty = 0 \<or> find (\<lambda>(k, c). c_holder c = Some t \<and> now < c_expires c) (entries (b_contracts b)) = None")
  case True
  then have "bounties t bounty now at_desk b h = ([], b, h)" by (auto simp: bounties_def)
  with assms(1) that(1) show ?thesis by simp
next
  case False
  then obtain k c where f: "find (\<lambda>(k, c). c_holder c = Some t \<and> now < c_expires c) (entries (b_contracts b)) = Some (k, c)"
    by auto
  from find_Some_mem [OF f] have c: "bget (b_contracts b) k = Some c" "c_holder c = Some t"
    by (simp_all add: bget_entries)
  note ck = contract_okD(1) [OF b c(1)]
  with c(2) obtain target got where tk: "c_task c = Patrol target got" and id: "c_id c = k"
    by (cases "c_task c") (auto simp: contract_ok_def)
  have E: "bounties t bounty now at_desk b h =
     (let now_got = min (got + bounty) target;
          b1 = b\<lparr>b_contracts := bput k (c\<lparr>c_task := Patrol target now_got\<rparr>) (b_contracts b)\<rparr>
      in if now_got < target then ([PatrolSoFar k now_got target], b1, h)
         else let r = c_reward c;
                  b2 = colony_pays t r (b1\<lparr>b_contracts := bdel k (b_contracts b1)\<rparr>);
                  h' = board_paid (PatrolPaid k at_desk) r h
              in if \<not> at_desk
                 then ([PatrolFlown k (c_issuer_name c) r False], owe t (purse_add r []) b2, h')
                 else ([PatrolFlown k (c_issuer_name c) r True],
                       desk_owes t (purse_add r [PatrolPay k (c_issuer_name c) r]) b2, h'))"
    unfolding bounties_def f using False by (simp add: tk id Let_def)
  show ?thesis
  proof (cases "got + bounty < target")
    case True
    with assms(1) E that(2) [OF c(1) tk c(2) True] show ?thesis by (simp add: Let_def)
  next
    case ge: False
    with assms(1) E that(3) [OF c(1) tk c(2)] show ?thesis by (cases at_desk) (simp_all add: Let_def)
  qed
qed

lemma bounties_ok [contracts_keep]:
  assumes "bounties t bounty now at_desk b h = (rs, b', h')" and b: "contracts_ok b"
  shows "contracts_ok b'"
  using assms
proof (cases rule: bounties_cases)
  case (2 k c target got)
  let ?c = "c\<lparr>c_task := Patrol target (got + bounty)\<rparr>"
  have "contract_ok k ?c" using contract_okD(1) [OF b 2(1)] 2(2,4) by (simp add: contract_ok_def)
  then show ?thesis unfolding 2(7) using 2(2) by (intro changing_ok [OF b 2(1)]) (simp_all add: asked_for_def)
qed (use b removing_ok in simp_all)

section \<open>The clock's posting loops\<close>

text \<open>What the posting loops leave as it was.\<close>

definition only_posts :: "board \<Rightarrow> board \<Rightarrow> bool" where
  "only_posts b b' \<longleftrightarrow> b_works b' = b_works b \<and> b_signatures b' = b_signatures b \<and> b_era b' = b_era b
     \<and> b_standing b' = b_standing b \<and> b_news b' = b_news b \<and> b_news_seq b' = b_news_seq b
     \<and> b_colony_paid b' = b_colony_paid b \<and> board_credits b' = board_credits b
     \<and> b_accounts b' = b_accounts b \<and> b_at_desk b' = b_at_desk b"

lemma only_posts_refl [simp]: "only_posts b b"
  by (simp add: only_posts_def)

lemma only_posts_trans: "only_posts b b' \<Longrightarrow> only_posts b' b'' \<Longrightarrow> only_posts b b''"
  by (simp add: only_posts_def)

lemma post_only_posts:
  "contracts_ok b \<Longrightarrow> only_posts b (post_supply i q now b)" "contracts_ok b \<Longrightarrow> only_posts b (post_patrol now b)"
  using next_id_free [of b]
  by (simp_all add: only_posts_def post_supply_def post_patrol_def post_contract_def Let_def board_credits_def escrow_of_def)

lemma post_supply_jobs:
  assumes "contracts_ok b"
  shows "open_jobs False (post_supply i q now b) = Suc (open_jobs False b)"
    and "open_jobs True (post_supply i q now b) = open_jobs True b"
    and "open_jobs False (post_patrol now b) = open_jobs False b"
    and "open_jobs True (post_patrol now b) = Suc (open_jobs True b)"
  using next_id_free [OF assms]
  by (simp_all add: counts post_supply_def post_patrol_def post_contract_def Let_def)

lemma priced_le [simp]: "priced i q pct \<le> u64_max"
  unfolding priced_def by (rule order_trans [OF div_le_dividend]) simp

lemma post_supply_ok:
  "contracts_ok b \<Longrightarrow> open_jobs False b < COLONY_SUPPLY \<Longrightarrow> asking i b = 0 \<Longrightarrow> 0 < q
    \<Longrightarrow> contracts_ok (post_supply i q now b)"
  unfolding post_supply_def by (rule posting_ok) simp_all

lemma post_patrol_ok:
  "contracts_ok b \<Longrightarrow> open_jobs True b < COLONY_PATROLS \<Longrightarrow> contracts_ok (post_patrol now b)"
  unfolding post_patrol_def by (rule posting_ok) (simp_all add: PATROL_REWARD_def PATROL_BOUNTY_def u64_max_def)

lemma first_min_None [simp]: "first_min key xs = None \<longleftrightarrow> xs = []"
  by (cases xs) (auto split: option.splits)

lemma first_min_least: "first_min key xs = Some x \<Longrightarrow> x \<in> set xs \<and> (\<forall>y\<in>set xs. key x \<le> key y)"
  by (induction xs arbitrary: x) (auto split: option.splits if_splits)

lemma asked_length: "length (List.map_filter asked_for xs)
    = length (filter (\<lambda>c. c_issuer c = None \<and> \<not> is_patrol (c_task c)) xs)"
  by (induction xs) (auto simp: map_filter_simps asked_for_def split: task.splits option.splits)

lemma SUPPLY_items: "distinct (map fst SUPPLY)" "length SUPPLY = 9" "(i, q) \<in> set SUPPLY \<Longrightarrow> 0 < q"
  by (auto simp: SUPPLY_def)

lemma set_map_filter: "x \<in> set (List.map_filter f ys) \<longleftrightarrow> (\<exists>y\<in>set ys. f y = Some x)"
  by (induction ys) (auto split: option.splits)

text \<open>While the colony has jobs to post, there is an item of its list it is not asking for.\<close>

lemma next_supply_exists:
  assumes "open_jobs False b < COLONY_SUPPLY"
  obtains i q where "next_supply e b = Some (i, q)" "asking i b = 0" "(i, q) \<in> set SUPPLY"
proof -
  let ?asked = "List.map_filter asked_for (bvals (b_contracts b))"
  let ?free = "filter (\<lambda>(i, _). i \<notin> set ?asked) SUPPLY"
  have "card (set ?asked) \<le> length ?asked" by (rule card_length)
  also have "\<dots> < 9" using assms by (simp add: asked_length open_jobs_def COLONY_SUPPLY_def)
  also have "9 = card (fst ` set SUPPLY)"
    using SUPPLY_items(2) distinct_card [OF SUPPLY_items(1)] by simp
  finally obtain i where "i \<in> fst ` set SUPPLY" "i \<notin> set ?asked"
    by (metis card_mono finite_set linorder_not_less subsetI)
  then have "?free \<noteq> []" by (auto simp: filter_empty_conv)
  then have "first_min (\<lambda>(i, _). (short_of e i, i)) ?free \<noteq> None" by simp
  then obtain x where x: "first_min (\<lambda>(i, _). (short_of e i, i)) ?free = Some x" by blast
  obtain j q where jq: "x = (j, q)" by force
  from first_min_least [OF x] jq have j: "j \<notin> set ?asked" "(j, q) \<in> set SUPPLY" by auto
  from j(1) have "asking j b = 0"
    by (auto simp: asking_def counted_def filter_empty_conv set_map_filter)
  with x jq j(2) show ?thesis by (intro that [of j q]) (simp_all add: next_supply_def)
qed

lemma supply_loop_returns:
  "contracts_ok b \<Longrightarrow> COLONY_SUPPLY - open_jobs False b = n \<Longrightarrow>
   \<exists>b'. supply_loop e now ch b = Some (ch \<or> 0 < n, b') \<and> contracts_ok b' \<and> open_jobs False b' = COLONY_SUPPLY
     \<and> open_jobs True b' = open_jobs True b \<and> (n = 0 \<longrightarrow> b' = b)
     \<and> (\<forall>k c. bget (b_contracts b') k = Some c \<longrightarrow> bget (b_contracts b) k = Some c \<or> c_expires c = now + SUPPLY_SECS)
     \<and> only_posts b b'"
proof (induction n arbitrary: b ch)
  case 0
  then show ?case by (subst supply_loop.simps) (simp add: contracts_ok_def)
next
  case (Suc n)
  then have lt: "open_jobs False b < COLONY_SUPPLY" by simp
  then obtain i q where s: "next_supply e b = Some (i, q)" "asking i b = 0" "(i, q) \<in> set SUPPLY"
    by (rule next_supply_exists)
  let ?b = "post_supply i q now b"
  have "contracts_ok ?b"
    using Suc.prems(1) lt s(2) SUPPLY_items(3) [OF s(3)] by (intro post_supply_ok)
  moreover have "COLONY_SUPPLY - open_jobs False ?b = n"
    using Suc.prems by (simp add: post_supply_jobs)
  ultimately obtain b' where b': "supply_loop e now True ?b = Some (True, b')" "contracts_ok b'"
      "open_jobs False b' = COLONY_SUPPLY" "open_jobs True b' = open_jobs True ?b"
      "\<forall>k c. bget (b_contracts b') k = Some c \<longrightarrow> bget (b_contracts ?b) k = Some c \<or> c_expires c = now + SUPPLY_SECS"
      "only_posts ?b b'"
    using Suc.IH [of ?b True] by auto
  have new: "bget (b_contracts ?b) k = Some c \<Longrightarrow> bget (b_contracts b) k = Some c \<or> c_expires c = now + SUPPLY_SECS"
    for k c by (auto simp: post_supply_def post_contract_def Let_def split: if_splits)
  have "supply_loop e now ch b = supply_loop e now True ?b"
    by (subst supply_loop.simps) (simp add: lt s(1))
  then show ?case
    using b' new post_supply_jobs(2) [OF Suc.prems(1)] only_posts_trans [OF post_only_posts(1) [OF Suc.prems(1)]]
    by (intro exI [of _ b']) auto
qed

lemma patrol_loop_returns:
  "contracts_ok b \<Longrightarrow> COLONY_PATROLS - open_jobs True b = n \<Longrightarrow>
   \<exists>b'. patrol_loop now ch b = Some (ch \<or> 0 < n, b') \<and> contracts_ok b' \<and> open_jobs True b' = COLONY_PATROLS
     \<and> open_jobs False b' = open_jobs False b \<and> (n = 0 \<longrightarrow> b' = b)
     \<and> (\<forall>k c. bget (b_contracts b') k = Some c \<longrightarrow> bget (b_contracts b) k = Some c \<or> c_expires c = now + PATROL_STANDS_SECS)
     \<and> only_posts b b'"
proof (induction n arbitrary: b ch)
  case 0
  then show ?case by (subst patrol_loop.simps) (simp add: contracts_ok_def)
next
  case (Suc n)
  then have lt: "open_jobs True b < COLONY_PATROLS" by simp
  let ?b = "post_patrol now b"
  have "contracts_ok ?b" using Suc.prems(1) lt by (rule post_patrol_ok)
  moreover have "COLONY_PATROLS - open_jobs True ?b = n"
    using Suc.prems by (simp add: post_supply_jobs)
  ultimately obtain b' where b': "patrol_loop now True ?b = Some (True, b')" "contracts_ok b'"
      "open_jobs True b' = COLONY_PATROLS" "open_jobs False b' = open_jobs False ?b"
      "\<forall>k c. bget (b_contracts b') k = Some c \<longrightarrow> bget (b_contracts ?b) k = Some c \<or> c_expires c = now + PATROL_STANDS_SECS"
      "only_posts ?b b'"
    using Suc.IH [of ?b True] by auto
  have new: "bget (b_contracts ?b) k = Some c \<Longrightarrow> bget (b_contracts b) k = Some c \<or> c_expires c = now + PATROL_STANDS_SECS"
    for k c by (auto simp: post_patrol_def post_contract_def Let_def split: if_splits)
  have "patrol_loop now ch b = patrol_loop now True ?b"
    by (subst patrol_loop.simps) (simp add: lt)
  then show ?case
    using b' new post_supply_jobs(3) [OF Suc.prems(1)] only_posts_trans [OF post_only_posts(2) [OF Suc.prems(1)]]
    by (intro exI [of _ b']) auto
qed

section \<open>The clock\<close>

lemma bget_fold_bdel: "bget (fold bdel ks m) k = (if k \<in> set ks then None else bget m k)"
  by (induction ks arbitrary: m) auto

lemma expired_gone:
  assumes "contracts_ok b" and "bget (b_contracts (fold (\<lambda>k. close_contract k Expired) (expired_at now b) b)) k = Some c"
  shows "now < c_expires c" and "bget (b_contracts b) k = Some c"
proof -
  from assms(2) have c: "bget (b_contracts b) k = Some c" and k: "k \<notin> set (expired_at now b)"
    by (simp_all add: bget_fold_bdel split: if_split_asm)
  show "bget (b_contracts b) k = Some c" by (rule c)
  from contract_okD(2) [OF assms(1) c] c have "c_id c = k" "c \<in> set (bvals (b_contracts b))"
    by (auto simp: set_bvals)
  with k show "now < c_expires c" by (force simp: expired_at_def)
qed

lemma close_works [simp]: "b_works (close_contract k why b) = b_works b"
  by (auto simp: close_contract_def owe_def Let_def split: option.split)

lemma close_fold_works [simp]: "b_works (fold (\<lambda>k. close_contract k why) ks b) = b_works b"
  by (induction ks arbitrary: b) simp_all

lemma effects_cong: "b_works b' = b_works b \<Longrightarrow> ef_patrols (effects_of b') = ef_patrols (effects_of b)"
  by (simp add: effects_of_def work_done_def Let_def)

lemma tick_comes_round:
  assumes b: "contracts_ok b"
  obtains ch b' where "board_tick now e b = Some (ch, b')" "contracts_ok b'" "open_jobs False b' = COLONY_SUPPLY"
    "ef_patrols (effects_of b) \<Longrightarrow> open_jobs True b' = COLONY_PATROLS"
    "\<And>k c. bget (b_contracts b') k = Some c \<Longrightarrow> now < c_expires c" "\<not> ch \<Longrightarrow> b' = b"
    "only_posts (fold (\<lambda>k. close_contract k Expired) (expired_at now b) b) b'"
proof -
  define b1 where "b1 = fold (\<lambda>k. close_contract k Expired) (expired_at now b) b"
  define x where "x = (expired_at now b \<noteq> [])"
  have ok: "contracts_ok b1" unfolding b1_def using b by (rule closing_all_ok)
  let ?n = "COLONY_SUPPLY - open_jobs False b1"
  from supply_loop_returns [OF ok refl, of e now x]
  obtain b2 where b2: "supply_loop e now x b1 = Some (x \<or> 0 < ?n, b2)" "contracts_ok b2"
    "open_jobs False b2 = COLONY_SUPPLY" "?n = 0 \<longrightarrow> b2 = b1" "only_posts b1 b2"
    and new2: "\<forall>k c. bget (b_contracts b2) k = Some c \<longrightarrow> bget (b_contracts b1) k = Some c \<or> c_expires c = now + SUPPLY_SECS"
    by (elim exE conjE) (rule that)
  have later1: "bget (b_contracts b1) k = Some c \<Longrightarrow> now < c_expires c" for k c
    unfolding b1_def by (rule expired_gone(1) [OF b])
  have later2: "now < c_expires c" if "bget (b_contracts b2) k = Some c" for k c
    using new2 [rule_format, OF that] by (elim disjE) (rule later1, assumption, simp add: SUPPLY_SECS_def)
  have same: "\<not> x \<Longrightarrow> b1 = b" by (simp add: x_def b1_def)
  have ef: "ef_patrols (effects_of b2) = ef_patrols (effects_of b)"
    using b2(5) by (intro effects_cong) (simp add: only_posts_def b1_def)
  show ?thesis
  proof (cases "ef_patrols (effects_of b)")
    case False
    with b2(1) ef have t: "board_tick now e b = Some (x \<or> 0 < ?n, b2)" by (simp add: board_tick_def Let_def flip: b1_def x_def)
    have "b2 = b" if "\<not> (x \<or> 0 < ?n)" using that b2(4) same by simp
    with False b2(5) show ?thesis by (intro that [OF t b2(2,3) _ later2]) (simp_all add: b1_def)
  next
    case True
    let ?m = "COLONY_PATROLS - open_jobs True b2"
    from patrol_loop_returns [OF b2(2) refl, of now "x \<or> 0 < ?n"]
    obtain b3 where b3: "patrol_loop now (x \<or> 0 < ?n) b2 = Some ((x \<or> 0 < ?n) \<or> 0 < ?m, b3)" "contracts_ok b3"
      "open_jobs True b3 = COLONY_PATROLS" "open_jobs False b3 = open_jobs False b2" "?m = 0 \<longrightarrow> b3 = b2" "only_posts b2 b3"
      and new3: "\<forall>k c. bget (b_contracts b3) k = Some c \<longrightarrow>
        bget (b_contracts b2) k = Some c \<or> c_expires c = now + PATROL_STANDS_SECS"
      by (elim exE conjE) (rule that)
    have later3: "now < c_expires c" if "bget (b_contracts b3) k = Some c" for k c
      using new3 [rule_format, OF that] by (elim disjE) (rule later2, assumption, simp add: PATROL_STANDS_SECS_def)
    from b2(1) b3(1) ef True have t: "board_tick now e b = Some ((x \<or> 0 < ?n) \<or> 0 < ?m, b3)"
      by (simp add: board_tick_def Let_def flip: b1_def x_def)
    have "b3 = b" if "\<not> ((x \<or> 0 < ?n) \<or> 0 < ?m)" using that b2(4) b3(5) same by simp
    with b2(3) b3(3,4) only_posts_trans [OF b2(5) b3(6)] show ?thesis
      by (intro that [OF t b3(2) _ _ later3]) (simp_all add: b1_def)
  qed
qed

lemma tick_ok [contracts_keep]: "board_tick now e b = Some (ch, b') \<Longrightarrow> contracts_ok b \<Longrightarrow> contracts_ok b'"
  by (erule tick_comes_round [of b now e]) simp

section \<open>The credits on the board\<close>

lemma bsum_owed [simp]:
  "bsum pa_credits (bupd purse_empty (purse_add n ns) t m) = bsum pa_credits m + n"
  "bsum pa_credits (bupd purse_empty (purse_add_goods i q ns) t m) = bsum pa_credits m"
  using bsum_bupd_add [of pa_credits "purse_add n ns" purse_empty m t n]
    bsum_bupd_add [of pa_credits "purse_add_goods i q ns" purse_empty m t 0]
  by (simp_all add: purse_add_def purse_add_goods_def purse_empty_def)

lemma board_credits_owe [simp]:
  "board_credits (owe t (purse_add n ns) b) = board_credits b + n"
  "board_credits (owe t (purse_add_goods i q ns) b) = board_credits b"
  "board_credits (desk_owes t (purse_add n ns) b) = board_credits b + n"
  "board_credits (desk_owes t (purse_add_goods i q ns) b) = board_credits b"
  by (simp_all add: board_credits_def owe_def desk_owes_def)

lemma board_credits_other [simp]:
  "board_credits (colony_pays t n b) = board_credits b" "board_credits (note_name t name b) = board_credits b"
  "board_credits (announce x b) = board_credits b" "board_credits (finish_work w now b) = board_credits b"
  "board_credits (b\<lparr>b_colony_paid := cp\<rparr>) = board_credits b" "board_credits (b\<lparr>b_works := ws\<rparr>) = board_credits b"
  "board_credits (b\<lparr>b_salvage_terms := st\<rparr>) = board_credits b"
  "board_credits (b\<lparr>b_wanted := wt, b_aces := ac\<rparr>) = board_credits b"
  "board_credits (b\<lparr>b_signatures := sg\<rparr>) = board_credits b"
  "board_credits (b\<lparr>b_works := ws, b_era := er\<rparr>) = board_credits b"
  by (simp_all add: board_credits_def board_updates finish_work_def)

lemma colony_paid_other [simp]:
  "b_colony_paid (owe t f b) = b_colony_paid b" "b_colony_paid (desk_owes t f b) = b_colony_paid b"
  "b_colony_paid (note_name t name b) = b_colony_paid b" "b_colony_paid (announce x b) = b_colony_paid b"
  "b_colony_paid (finish_work w now b) = b_colony_paid b"
  "b_colony_paid (colony_pays t n b) = b_colony_paid b + n"
  by (simp_all add: board_updates finish_work_def)

lemma board_credits_put:
  "bget (b_contracts b) k = Some c \<Longrightarrow>
   board_credits (b\<lparr>b_contracts := bput k c' (b_contracts b)\<rparr>) + escrow_of c = board_credits b + escrow_of c'"
  using bsum_bput_old [of "b_contracts b" k c escrow_of c'] by (simp add: board_credits_def)

lemma board_credits_del:
  "bget (b_contracts b) k = Some c \<Longrightarrow>
   board_credits (b\<lparr>b_contracts := bdel k (b_contracts b)\<rparr>) + escrow_of c = board_credits b"
  using bsum_bdel_old [of "b_contracts b" k c escrow_of] by (simp add: board_credits_def)

lemma board_credits_post:
  "contracts_ok b \<Longrightarrow> board_credits (snd (post_contract issuer who tk reward now secs b))
     = board_credits b + (if issuer = None then 0 else reward)"
  using next_id_free [of b] by (auto simp: board_credits_def post_contract_def Let_def escrow_of_def unpaid_def)

lemma close_ledger [simp]:
  "board_credits (close_contract k why b) = board_credits b" "b_colony_paid (close_contract k why b) = b_colony_paid b"
proof -
  show "b_colony_paid (close_contract k why b) = b_colony_paid b"
    by (auto simp: close_contract_def Let_def split: option.split)
  show "board_credits (close_contract k why b) = board_credits b"
  proof (cases "bget (b_contracts b) k")
    case (Some c)
    from board_credits_del [OF Some] show ?thesis
      by (auto simp: close_contract_def Some escrow_of_def Let_def split: option.split)
  qed (simp add: close_contract_def)
qed

lemma close_fold_ledger [simp]:
  "board_credits (fold (\<lambda>k. close_contract k why) ks b) = board_credits b"
  "b_colony_paid (fold (\<lambda>k. close_contract k why) ks b) = b_colony_paid b"
  by (induction ks arbitrary: b) simp_all

lemma collect_board_ledger:
  "board_collect t b h = (ns, b', h') \<Longrightarrow>
     credits h' + board_credits b' = credits h + board_credits b \<and> b_colony_paid b' = b_colony_paid b"
  "collect_at_desk t b h = (ns, b', h') \<Longrightarrow>
     credits h' + board_credits b' = credits h + board_credits b \<and> b_colony_paid b' = b_colony_paid b"
  using bsum_bdel [of pa_credits t "b_accounts b"] bsum_bdel [of pa_credits t "b_at_desk b"]
  by (auto simp: board_collect_def collect_at_desk_def pay_out_def board_credits_def split: option.splits)

section \<open>Every operation's ledger\<close>

text \<open>The credits of a pilot and the board, against what the colony has paid out, before and after.\<close>

definition balanced :: "board \<Rightarrow> hangar \<Rightarrow> board \<Rightarrow> hangar \<Rightarrow> bool" where
  "balanced b h b' h' \<longleftrightarrow>
     credits h' + board_credits b' + b_colony_paid b = credits h + board_credits b + b_colony_paid b'"

named_theorems board_ledger "each operation's ledger"

lemma credits_board_paid [simp]: "credits (board_paid what n h) = credits h"
  by (simp add: board_paid_def)

lemma set_terms_ledger [board_ledger]: "set_terms t sv b = (r, b') \<Longrightarrow> balanced b h b' h"
  by (auto simp: set_terms_def balanced_def split: if_splits)

lemma ace_ledger [board_ledger]:
  "balanced b h (ace_out k b) h" "ace_downed k t name now b = (sv, b') \<Longrightarrow> balanced b h b' h"
  "pay_ace k t at_desk b h = (r, b', h') \<Longrightarrow> balanced b h b' h'"
  by (auto simp: ace_out_def ace_downed_def pay_ace_def balanced_def Let_def split: if_splits)

lemma certify_ledger [board_ledger]: "certify t e b h = (r, e', b', h') \<Longrightarrow> balanced b h b' h'"
  by (auto simp: certify_def balanced_def Let_def split: if_splits prod.splits)

lemma post_refused: "post t name i qty reward hours now b h = (Inl why, b', h') \<Longrightarrow> b' = b \<and> h' = h"
  by (auto simp: post_def Let_def split: if_splits prod.splits)

lemma post_ledger [board_ledger]:
  assumes "post t name i qty reward hours now b h = (r, b', h')" and "contracts_ok b"
  shows "balanced b h b' h'"
proof (cases r)
  case (Inr ok)
  let ?p = "post_contract (Some t) name (Supply i qty 0) reward now (hours * 3600) (note_name t name b)"
  from Inr assms(1) have "b' = snd ?p" "h' = h\<lparr>credits := credits h - reward\<rparr>" "reward \<le> credits h"
    by (auto simp: post_def Let_def split: if_splits prod.splits)
  moreover have "board_credits (snd ?p) = board_credits b + reward"
    using board_credits_post [of "note_name t name b"] assms(2) by simp
  moreover have "b_colony_paid (snd ?p) = b_colony_paid b" by (simp add: post_contract_def Let_def)
  ultimately show ?thesis by (simp add: balanced_def)
qed (use assms post_refused in \<open>fastforce simp: balanced_def\<close>)

lemma withdraw_ledger [board_ledger]: "withdraw t k b h = (r, b', h') \<Longrightarrow> balanced b h b' h'"
  using collect_board_ledger(1) [of t "close_contract k Withdrawn b" h]
  by (cases "board_collect t (close_contract k Withdrawn b) h")
    (auto simp: withdraw_def balanced_def split: option.splits if_splits)

lemma collect_ledgers [board_ledger]:
  "board_collect t b h = (ns, b', h') \<Longrightarrow> balanced b h b' h'"
  "collect_at_desk t b h = (ns, b', h') \<Longrightarrow> balanced b h b' h'"
  by (auto simp: balanced_def dest: collect_board_ledger)

lemma hand_over_ledger:
  assumes "hand_over c t name i n pay (e, b) = (e', b')"
  shows "board_credits b' = board_credits b"
    and "b_colony_paid b' = b_colony_paid b + (if c_issuer c = None then pay else 0)"
proof -
  have "b' = snd (hand_over c t name i n pay (e, b))" using assms by simp
  then show "board_credits b' = board_credits b"
    and "b_colony_paid b' = b_colony_paid b + (if c_issuer c = None then pay else 0)"
    by (cases "c_issuer c"; simp add: hand_over_def)+
qed

lemma deliver_ledger [board_ledger]:
  assumes "deliver t name k qty now e b h = (r, e', b', h')" and b: "contracts_ok b"
  shows "balanced b h b' h'"
proof (cases r)
  case (Inr ok)
  from assms(1) [unfolded Inr] obtain c i q d n pay b2 where c: "bget (b_contracts b) k = Some c" "c_task c = Supply i q d"
      and n: "n = min (min qty (q - d)) (st_get (hstores h) i)" "0 < n"
      and pay: "pay = pay_for (c_reward c) (d + n) q - pay_for (c_reward c) d q"
      and b': "b' = (if d + n = q then fill_contract c b2 else b2)"
      and h': "h' = h\<lparr>hstores := snd (st_take i n (hstores h)), credits := credits h + pay\<rparr>"
      and ho: "hand_over c t name i n pay (e, note_name t name (b\<lparr>b_contracts :=
       bput k (c\<lparr>c_paid := c_paid c + pay, c_task := Supply i q (d + n)\<rparr>) (b_contracts b)\<rparr>)) = (e', b2)"
    by (rule deliver_DoneE) blast
  from h' have cr: "credits h' = credits h + pay" by simp
  let ?c = "c\<lparr>c_paid := c_paid c + pay, c_task := Supply i q (d + n)\<rparr>"
  have ck: "c_id c = k" "d < q" "c_paid c = pay_for (c_reward c) d q" "c_reward c \<le> u64_max"
    using contract_okD(1) [OF b c(1)] c(2) by (simp_all add: contract_ok_def)
  have dn: "d + n \<le> q" using n ck(2) by simp
  have "pay_for (c_reward c) d q \<le> pay_for (c_reward c) (d + n) q" by (rule pay_for_mono) simp
  with pay ck(3) have paid: "c_paid c + pay = pay_for (c_reward c) (d + n) q" by simp
  with pay_for_le [OF dn _ ck(4)] ck(2) have le: "c_paid c + pay \<le> c_reward c" by simp
  then have "escrow_of c = escrow_of ?c + (if c_issuer c = None then 0 else pay)"
    by (simp add: escrow_of_def unpaid_def)
  with board_credits_put [OF c(1), of ?c]
  have "board_credits (b\<lparr>b_contracts := bput k ?c (b_contracts b)\<rparr>) + (if c_issuer c = None then 0 else pay)
      = board_credits b" by simp
  with hand_over_ledger [OF ho]
  have b2: "board_credits b2 + (if c_issuer c = None then 0 else pay) = board_credits b"
    "b_colony_paid b2 = b_colony_paid b + (if c_issuer c = None then pay else 0)"
    by simp_all
  show ?thesis
  proof (cases "d + n = q")
    case False
    with b' b2 cr show ?thesis by (auto simp: balanced_def)
  next
    case True
    from hand_over_contracts [OF ho] have "bget (b_contracts b2) k = Some ?c" by simp
    moreover from True paid pay_for_full [of q "c_reward c"] ck have "escrow_of ?c = 0"
      by (simp add: escrow_of_def unpaid_def)
    ultimately have "board_credits (fill_contract c b2) = board_credits b2"
      using board_credits_del [of "case c_issuer c of None \<Rightarrow> b2 | Some owner \<Rightarrow> owe owner (purse_add 0 [Filled_up (c_id c)]) b2" k ?c]
      by (auto simp: fill_contract_def Let_def ck(1) split: option.splits)
    moreover have "b_colony_paid (fill_contract c b2) = b_colony_paid b2"
      by (auto simp: fill_contract_def Let_def split: option.splits)
    ultimately show ?thesis using True b' b2 cr by (auto simp: balanced_def)
  qed
qed (use assms deliver_refused in \<open>fastforce simp: balanced_def\<close>)

lemma escrow_of_patrol [simp]:
  "escrow_of (c\<lparr>c_holder := t, c_expires := x\<rparr>) = escrow_of c"
  "escrow_of (c\<lparr>c_task := tk\<rparr>) = escrow_of c"
  "escrow_of (c\<lparr>c_holder := t, c_task := tk, c_expires := x\<rparr>) = escrow_of c"
  by (simp_all add: escrow_of_def unpaid_def)

lemma put_ledger:
  "bget (b_contracts b) k = Some c \<Longrightarrow> escrow_of c' = escrow_of c \<Longrightarrow>
   board_credits (b\<lparr>b_contracts := bput k c' (b_contracts b)\<rparr>) = board_credits b"
  using board_credits_put [of b k c c'] by simp

lemma take_patrol_ledger [board_ledger]: "take_patrol t name k now b = (r, b') \<Longrightarrow> balanced b h b' h"
  by (auto simp: take_patrol_def balanced_def put_ledger split: if_splits option.splits task.splits)

lemma drop_patrol_ledger [board_ledger]: "drop_patrol t k now b = (r, b') \<Longrightarrow> balanced b h b' h"
  unfolding drop_patrol_def balanced_def by (auto simp: put_ledger split: if_splits option.splits)

lemma bounties_ledger [board_ledger]:
  assumes "bounties t bounty now at_desk b h = (rs, b', h')" and b: "contracts_ok b"
  shows "balanced b h b' h'"
  using assms
proof (cases rule: bounties_cases)
  case (2 k c target got)
  with put_ledger [OF 2(1), of "c\<lparr>c_task := Patrol target (got + bounty)\<rparr>"] show ?thesis
    by (simp add: balanced_def)
next
  case (3 k c target got)
  from contract_okD(1) [OF b 3(1)] 3(2) have "escrow_of c = 0" by (simp add: contract_ok_def escrow_of_def)
  with board_credits_del [OF 3(1)] 3(6,7) show ?thesis by (simp add: balanced_def)
qed (simp add: balanced_def)

lemma contribute_ledger [board_ledger]: "contribute t name w i qty now b h = (r, b', h') \<Longrightarrow> balanced b h b' h'"
proof -
  have "contribution t name w i n now st b h = (r, b', h') \<Longrightarrow> balanced b h b' h'" for n st
    by (auto simp: contribution_def balanced_def Let_def)
  then show "contribute t name w i qty now b h = (r, b', h') \<Longrightarrow> ?thesis"
    by (auto simp: contribute_def balanced_def Let_def split: if_splits option.splits prod.splits)
qed

lemma sign_ledger [board_ledger]: "sign_charter t name now b = (r, b') \<Longrightarrow> balanced b h b' h"
  by (auto simp: sign_charter_def balanced_def Let_def split: if_splits)

lemma tick_ledger [board_ledger]:
  assumes "board_tick now e b = Some (ch, b')" and b: "contracts_ok b"
  shows "balanced b h b' h"
proof -
  from b obtain ch2 b2 where "board_tick now e b = Some (ch2, b2)"
    "only_posts (fold (\<lambda>k. close_contract k Expired) (expired_at now b) b) b2"
    by (rule tick_comes_round)
  with assms(1) show ?thesis by (simp add: balanced_def only_posts_def)
qed

end
