(* ===== verification/Civics.thy ===== *)
theory Civics
  imports Notices
begin

text \<open>
  The charter, the news and the Board's history (theory Charter): the invariants \<open>charter_ok\<close> (the
  works' deliveries, the vote and who signed) and \<open>news_ok\<close> (how the notices are numbered), the step
  relation \<open>board_step\<close> with one rule per operation of the Board, histories of it from the empty
  board, and the properties of the Board that rest on them and on theory \<open>Notices\<close>.
\<close>

section \<open>The steps\<close>

text \<open>One request, or one turn of the clock: the exchange, the board and the hangar of whoever asks,
  before and after. A reward is a \<open>u64\<close>.\<close>

inductive board_step :: "exchange \<times> board \<times> hangar \<Rightarrow> exchange \<times> board \<times> hangar \<Rightarrow> bool" where
  Sets_terms: "set_terms t sv b = (r, b') \<Longrightarrow> board_step (e, b, h) (e, b', h)"
| Ace_goes_out: "board_step (e, b, h) (e, ace_out k b, h)"
| Ace_is_downed: "ace_downed k t name now b = (sv, b') \<Longrightarrow> board_step (e, b, h) (e, b', h)"
| Ace_is_paid: "pay_ace k t at_desk b h = (r', b', h') \<Longrightarrow> board_step (e, b, h) (e, b', h')"
| Certifies: "certify t e b h = (ro, e', b', h') \<Longrightarrow> board_step (e, b, h) (e', b', h')"
| Collects: "board_collect t b h = (ns, b', h') \<Longrightarrow> board_step (e, b, h) (e, b', h')"
| Collects_at_desk: "collect_at_desk t b h = (ns, b', h') \<Longrightarrow> board_step (e, b, h) (e, b', h')"
| Board_ticks: "board_tick now e b = Some (ch, b') \<Longrightarrow> board_step (e, b, h) (e, b', h)"
| Posts: "post t name i qty reward hours now b h = (r, b', h') \<Longrightarrow> reward \<le> u64_max
    \<Longrightarrow> board_step (e, b, h) (e, b', h')"
| Withdraws: "withdraw t k b h = (r, b', h') \<Longrightarrow> board_step (e, b, h) (e, b', h')"
| Delivers: "deliver t name k qty now e b h = (r, e', b', h') \<Longrightarrow> board_step (e, b, h) (e', b', h')"
| Takes: "take_patrol t name k now b = (r, b') \<Longrightarrow> board_step (e, b, h) (e, b', h)"
| Drops: "drop_patrol t k now b = (r, b') \<Longrightarrow> board_step (e, b, h) (e, b', h)"
| Flies: "bounties t bounty now at_desk b h = (rs, b', h') \<Longrightarrow> board_step (e, b, h) (e, b', h')"
| Contributes: "contribute t name w i qty now b h = (r, b', h') \<Longrightarrow> board_step (e, b, h) (e, b', h')"
| Signs: "sign_charter t name now b = (r, b') \<Longrightarrow> board_step (e, b, h) (e, b', h)"

text \<open>A board as some history of requests leaves it, whoever made them.\<close>

inductive board_history :: "board \<Rightarrow> bool" where
  Opens: "board_history board_new"
| Goes_on: "board_history b \<Longrightarrow> board_step (e, b, h) (e', b', h') \<Longrightarrow> board_history b'"

section \<open>The charter\<close>

definition delivered_ok :: "work \<Rightarrow> progress \<Rightarrow> bool" where
  "delivered_ok w p \<longleftrightarrow> list_all (\<lambda>(i, q). bor 0 (bget (pr_delivered p) i) \<le> q) (work_needs w)"

definition charter_ok :: "board \<Rightarrow> bool" where
  "charter_ok b \<longleftrightarrow>
     list_all (\<lambda>w. delivered_ok w (b_works b w)
       \<and> (w \<noteq> CharterVote \<longrightarrow> (work_done w b \<longleftrightarrow> has_its_needs w (b_works b w)))) work_all
     \<and> b_era b = (if work_done CharterVote b then 1 else 0)
     \<and> distinct (b_signatures b) \<and> length (b_signatures b) \<le> SIGNATURES
     \<and> (work_done CharterVote b \<longleftrightarrow> length (b_signatures b) = SIGNATURES)
     \<and> (b_signatures b \<noteq> [] \<longrightarrow> work_done SecondFoundry b \<and> work_done MilitiaHangar b)
     \<and> list_all (\<lambda>t. 0 < standing_of t b) (b_signatures b)"

text \<open>What most operations leave as it was: the works, the signatures and the news; standing only grows.\<close>

definition quiet :: "board \<Rightarrow> board \<Rightarrow> bool" where
  "quiet b b' \<longleftrightarrow> b_works b' = b_works b \<and> b_signatures b' = b_signatures b \<and> b_era b' = b_era b
     \<and> b_news b' = b_news b \<and> b_news_seq b' = b_news_seq b \<and> (\<forall>t. standing_of t b \<le> standing_of t b')"

lemma quiet_refl [simp]: "quiet b b"
  by (simp add: quiet_def)

lemma quiet_trans: "quiet b b' \<Longrightarrow> quiet b' b'' \<Longrightarrow> quiet b b''"
  unfolding quiet_def using order_trans by metis

lemma quiet_updates [simp]:
  assumes "quiet b0 b"
  shows "quiet b0 (owe t f b)" "quiet b0 (desk_owes t f b)" "quiet b0 (note_name t name b)"
    "quiet b0 (colony_pays t n b)" "quiet b0 (b\<lparr>b_contracts := cs\<rparr>)" "quiet b0 (b\<lparr>b_accounts := ac\<rparr>)"
    "quiet b0 (b\<lparr>b_at_desk := ac\<rparr>)" "quiet b0 (b\<lparr>b_salvage_terms := sv\<rparr>)" "quiet b0 (b\<lparr>b_colony_paid := cp\<rparr>)"
    "quiet b0 (snd (post_contract issuer who tk reward now secs b))"
proof -
  have "quiet b (colony_pays t n b)" by (simp add: quiet_def colony_pays_def standing_of_def)
  with assms show "quiet b0 (colony_pays t n b)" by (rule quiet_trans)
qed (use assms in \<open>simp_all add: quiet_def board_updates standing_of_def post_contract_def\<close>)

lemma quiet_close [simp]: "quiet b0 b \<Longrightarrow> quiet b0 (close_contract k why b)"
  by (auto simp: close_contract_def Let_def split: option.split)

lemma quiet_close_fold [simp]: "quiet b0 b \<Longrightarrow> quiet b0 (fold (\<lambda>k. close_contract k why) ks b)"
  by (induction ks arbitrary: b) simp_all

lemma quiet_only_posts: "only_posts b b' \<Longrightarrow> quiet b b'"
  by (simp add: only_posts_def quiet_def standing_of_def)

text \<open>Every operation but those of the works, the vote and the aces' news is quiet.\<close>

named_theorems quietly "operations that leave the charter and the news alone"

lemma set_terms_quiet [quietly]: "set_terms t sv b = (r, b') \<Longrightarrow> quiet b b'"
  by (auto simp: set_terms_def split: if_splits)

lemma pay_ace_quiet [quietly]: "pay_ace k t at_desk b h = (r, b', h') \<Longrightarrow> quiet b b'"
  by (auto simp: pay_ace_def Let_def split: if_splits)

lemma certify_quiet [quietly]: "certify t e b h = (r, e', b', h') \<Longrightarrow> quiet b b'"
  by (auto simp: certify_def Let_def split: if_splits prod.splits)

lemma collect_quiet [quietly]:
  "board_collect t b h = (ns, b', h') \<Longrightarrow> quiet b b'" "collect_at_desk t b h = (ns, b', h') \<Longrightarrow> quiet b b'"
  by (auto simp: board_collect_def collect_at_desk_def split: option.splits)

lemma tick_quiet [quietly]:
  assumes "board_tick now e b = Some (ch, b')" and b: "contracts_ok b"
  shows "quiet b b'"
proof -
  from b obtain ch2 b2 where "board_tick now e b = Some (ch2, b2)"
    "only_posts (fold (\<lambda>k. close_contract k Expired) (expired_at now b) b) b2"
    by (rule tick_comes_round)
  with assms(1) show ?thesis by (auto intro: quiet_trans [OF quiet_close_fold [OF quiet_refl] quiet_only_posts])
qed

lemma post_quiet [quietly]:
  assumes "post t name i qty reward hours now b h = (r, b', h')" shows "quiet b b'"
proof (cases r)
  case (Inr ok)
  with assms have "b' = snd (post_contract (Some t) name (Supply i qty 0) reward now (hours * 3600) (note_name t name b))"
    by (auto simp: post_def Let_def split: if_splits prod.splits)
  then show ?thesis by simp
qed (use assms post_refused in fastforce)

lemma withdraw_quiet [quietly]: "withdraw t k b h = (r, b', h') \<Longrightarrow> quiet b b'"
  using collect_quiet(1) [of t "close_contract k Withdrawn b" h] quiet_trans [OF quiet_close [OF quiet_refl]]
  by (cases "board_collect t (close_contract k Withdrawn b) h")
    (auto simp: withdraw_def split: option.splits if_splits)

lemma hand_over_quiet: "hand_over c t name i n pay (e, b) = (e', b') \<Longrightarrow> quiet b b'"
  by (cases "c_issuer c") (auto simp: hand_over_def)

lemma fill_quiet: "quiet b (fill_contract c b)"
  by (cases "c_issuer c") (auto simp: fill_contract_def Let_def)

lemma deliver_quiet [quietly]:
  assumes "deliver t name k qty now e b h = (r, e', b', h')" shows "quiet b b'"
proof (cases r)
  case (Inr ok)
  from assms [unfolded Inr] show ?thesis
  proof (rule deliver_DoneE)
    fix c i q d n pay b2
    let ?b = "b\<lparr>b_contracts := bput k (c\<lparr>c_paid := c_paid c + pay, c_task := Supply i q (d + n)\<rparr>) (b_contracts b)\<rparr>"
    assume "hand_over c t name i n pay (e, note_name t name ?b) = (e', b2)"
      and b': "b' = (if d + n = q then fill_contract c b2 else b2)"
    from hand_over_quiet [OF this(1)] have "quiet b b2" by (rule quiet_trans [rotated]) simp
    with b' show ?thesis by (auto intro: quiet_trans [OF _ fill_quiet])
  qed
qed (use assms deliver_refused in fastforce)

lemma patrols_quiet [quietly]:
  "take_patrol t name k now b = (r, b') \<Longrightarrow> quiet b b'" "drop_patrol t k now b = (r, b') \<Longrightarrow> quiet b b'"
  unfolding take_patrol_def drop_patrol_def
  by (auto split: if_splits option.splits task.splits)

lemma bounties_quiet [quietly]:
  assumes "bounties t bounty now at_desk b h = (rs, b', h')" and b: "contracts_ok b"
  shows "quiet b b'"
  using assms
proof (cases rule: bounties_cases)
  case (3 k c target got)
  show ?thesis unfolding 3(7) by simp
qed simp_all

lemma standing_pos_mono:
  "(\<And>t. standing_of t b \<le> standing_of t b') \<Longrightarrow> list_all (\<lambda>t. 0 < standing_of t b) ts
    \<Longrightarrow> list_all (\<lambda>t. 0 < standing_of t b') ts"
  unfolding list_all_iff using order.strict_trans2 by blast

lemma work_done_cong: "b_works b' w = b_works b w \<Longrightarrow> work_done w b' = work_done w b"
  by (simp add: work_done_def)

lemma charter_ok_cong:
  assumes "b_works b' = b_works b" "b_signatures b' = b_signatures b" "b_era b' = b_era b"
    and "\<And>t. standing_of t b \<le> standing_of t b'" and "charter_ok b"
  shows "charter_ok b'"
proof -
  have "work_done w b' = work_done w b" for w using assms(1) by (simp add: work_done_def)
  with assms standing_pos_mono [of b b' "b_signatures b"] show ?thesis by (simp add: charter_ok_def)
qed

lemma charter_ok_quiet: "quiet b b' \<Longrightarrow> charter_ok b \<Longrightarrow> charter_ok b'"
  unfolding quiet_def by (rule charter_ok_cong) simp_all

lemma announce_keeps [simp]:
  "b_works (announce x b) = b_works b" "b_signatures (announce x b) = b_signatures b" "b_era (announce x b) = b_era b"
  "standing_of t (announce x b) = standing_of t b" "work_done w (announce x b) = work_done w b"
  "vote_open (announce x b) = vote_open b"
  by (simp_all add: announce_def Let_def standing_of_def work_done_def vote_open_def cong: list.pred_cong)

lemma charter_ok_announce [simp]: "charter_ok (announce x b) = charter_ok b"
  by (simp add: charter_ok_def)

lemma charter_ok_new: "charter_ok board_new"
  by (simp add: charter_ok_def board_new_def progress_empty_def work_all_def work_done_def delivered_ok_def
      has_its_needs_def SIGNATURES_def)

text \<open>A contribution's effect on the works.\<close>

lemma contribute_DoneE:
  assumes "contribute t name w i qty now b h = (Inr r, b', h')"
  obtains need n where "work_era w = b_era b" "\<not> work_done w b" "find (\<lambda>(j, _). j = i) (work_needs w) = Some (i, need)"
    "n = min (min qty (need - bor 0 (bget (pr_delivered (b_works b w)) i))) (st_get (hstores h) i)" "0 < n"
    "fst (st_take i n (hstores h))"
    "contribution t name w i n now (snd (st_take i n (hstores h))) b h = (Inr r, b', h')"
proof -
  have g: "work_era w = b_era b \<and> \<not> work_done w b"
    by (rule ccontr) (use assms in \<open>auto simp: contribute_def\<close>)
  then obtain x where f: "find (\<lambda>(j, _). j = i) (work_needs w) = Some x"
    using assms by (cases "find (\<lambda>(j, _). j = i) (work_needs w)") (simp_all add: contribute_def)
  from find_Some_mem [OF f] obtain need where x: "x = (i, need)" by (cases x) auto
  define n where "n = min (min qty (need - bor 0 (bget (pr_delivered (b_works b w)) i))) (st_get (hstores h) i)"
  have E: "contribute t name w i qty now b h =
      (if n = 0 then (Inl (if need \<le> bor 0 (bget (pr_delivered (b_works b w)) i) then WorkHasAll w i
                           else NothingToDeliver i), b, h)
       else if \<not> fst (st_take i n (hstores h)) then (Inl StoresRefused, b, h)
       else contribution t name w i n now (snd (st_take i n (hstores h))) b h)"
    unfolding contribute_def using g by (simp add: f x prod.case_eq_if Let_def flip: n_def)
  then have n: "0 < n" "fst (st_take i n (hstores h))"
    and c: "contribution t name w i n now (snd (st_take i n (hstores h))) b h = (Inr r, b', h')"
    using assms by (auto split: if_split_asm)
  from g have g': "work_era w = b_era b" "\<not> work_done w b" by simp_all
  show ?thesis by (rule that [OF g' f [unfolded x] n_def n c])
qed

lemma contribute_refused: "contribute t name w i qty now b h = (Inl why, b', h') \<Longrightarrow> b' = b \<and> h' = h"
  by (auto simp: contribute_def contribution_def Let_def split: option.splits if_splits prod.splits)

lemma find_need: "find (\<lambda>(j, _). j = i) (work_needs w) = Some (i, need) \<Longrightarrow> w \<noteq> CharterVote"
  by (cases w) auto

lemma distinct_needs: "distinct (map fst (work_needs w))"
  by (cases w) auto

lemma delivered_ok_credit:
  assumes "delivered_ok w p" and "find (\<lambda>(j, _). j = i) (work_needs w) = Some (i, need)"
    and "n \<le> need - bor 0 (bget (pr_delivered p) i)"
  shows "delivered_ok w (credit_work t i n pay p)"
proof -
  from find_Some_mem [OF assms(2)] have m: "(i, need) \<in> set (work_needs w)" by simp
  let ?had = "bor 0 (bget (pr_delivered p) i)"
  have "bor 0 (bget (pr_delivered (credit_work t i n pay p)) j) \<le> q" if q: "(j, q) \<in> set (work_needs w)" for j q
  proof (cases "j = i")
    case True
    with q m have "q = need" by (auto dest: eq_key_imp_eq_value [OF distinct_needs])
    moreover have "?had \<le> need" using assms(1) m by (auto simp: delivered_ok_def list_all_iff)
    ultimately show ?thesis using True assms(3) by (simp add: credit_work_def)
  next
    case False
    with q assms(1) show ?thesis by (auto simp: credit_work_def delivered_ok_def list_all_iff)
  qed
  then show ?thesis by (auto simp: delivered_ok_def list_all_iff)
qed

text \<open>What a contribution leaves of a work: its goods counted, and finished if it has what it needs.\<close>

lemma contribution_board:
  assumes "contribution t name w i n now st b h = (r, b', h')"
  shows "b_works b' = (b_works b)(w := (let p = credit_work t i n (priced i n WORKS_PCT) (b_works b w)
           in if has_its_needs w p then p\<lparr>pr_done := Some now\<rparr> else p))"
    and "b_signatures b' = b_signatures b" and "b_era b' = b_era b" and "standing_of u b \<le> standing_of u b'"
proof -
  let ?b1 = "colony_pays t (priced i n WORKS_PCT) (note_name t name b)"
  have b1: "b_works ?b1 = b_works b" "b_signatures ?b1 = b_signatures b" "b_era ?b1 = b_era b"
    "standing_of u b \<le> standing_of u ?b1"
    using quiet_updates(4) [OF quiet_updates(3) [OF quiet_refl], of b t "priced i n WORKS_PCT" t name]
    by (simp_all add: quiet_def)
  have fin: "b_works (finish_work w now c) = (b_works c)(w := (b_works c w)\<lparr>pr_done := Some now\<rparr>)"
    "b_signatures (finish_work w now c) = b_signatures c" "b_era (finish_work w now c) = b_era c"
    "standing_of u (finish_work w now c) = standing_of u c" for c
    by (simp_all add: finish_work_def Let_def standing_of_def announce_def)
  have put: "standing_of u (c\<lparr>b_works := ws\<rparr>) = standing_of u c" for c ws
    by (simp add: standing_of_def)
  from assms have b': "b' = (let p = credit_work t i n (priced i n WORKS_PCT) (b_works b w); c = ?b1\<lparr>b_works := (b_works b)(w := p)\<rparr>
      in if has_its_needs w p then finish_work w now c else c)"
    using assms [unfolded contribution_def Let_def, unfolded b1(1)] unfolding Let_def by simp
  show "b_works b' = (b_works b)(w := (let p = credit_work t i n (priced i n WORKS_PCT) (b_works b w)
           in if has_its_needs w p then p\<lparr>pr_done := Some now\<rparr> else p))"
    and "b_signatures b' = b_signatures b" and "b_era b' = b_era b" and "standing_of u b \<le> standing_of u b'"
    unfolding b' Let_def by (simp_all add: fin b1 put)
qed

lemma credit_done [simp]:
  "has_its_needs w (p\<lparr>pr_done := x\<rparr>) = has_its_needs w p" "pr_done (credit_work t i n pay p) = pr_done p"
  by (simp_all add: has_its_needs_def credit_work_def)

lemma contribute_charter:
  assumes "contribute t name w i qty now b h = (r, b', h')" and b: "charter_ok b"
  shows "charter_ok b'"
proof (cases r)
  case (Inr ok)
  from assms(1) [unfolded Inr] obtain need n where w: "\<not> work_done w b"
      "find (\<lambda>(j, _). j = i) (work_needs w) = Some (i, need)"
      and n: "n = min (min qty (need - bor 0 (bget (pr_delivered (b_works b w)) i))) (st_get (hstores h) i)"
      and c: "contribution t name w i n now (snd (st_take i n (hstores h))) b h = (Inr ok, b', h')"
    by (rule contribute_DoneE)
  let ?p = "credit_work t i n (priced i n WORKS_PCT) (b_works b w)"
  let ?q = "if has_its_needs w ?p then ?p\<lparr>pr_done := Some now\<rparr> else ?p"
  note cb = contribution_board [OF c, unfolded Let_def]
  have q: "has_its_needs w ?q = has_its_needs w ?p" "delivered_ok w ?q = delivered_ok w ?p"
    by (simp_all add: has_its_needs_def delivered_ok_def)
  have done_other: "work_done v b' = work_done v b" if "v \<noteq> w" for v
    using that by (intro work_done_cong) (simp add: cb(1))
  have done_w: "work_done w b' = has_its_needs w ?q"
    using w(1) by (cases "has_its_needs w ?p") (simp_all add: work_done_def cb(1))
  from b have "delivered_ok w (b_works b w)" by (cases w) (auto simp: charter_ok_def work_all_def)
  moreover have "n \<le> need - bor 0 (bget (pr_delivered (b_works b w)) i)" unfolding n by simp
  ultimately have "delivered_ok w ?q" unfolding q by (intro delivered_ok_credit [OF _ w(2)])
  moreover have "b_signatures b = []" using b w(1) find_need [OF w(2)] by (cases w) (auto simp: charter_ok_def)
  ultimately show ?thesis
    using done_other done_w b find_need [OF w(2)] cb by (cases w) (simp_all add: charter_ok_def work_all_def)
qed (use assms contribute_refused in fastforce)

lemma sign_Done:
  assumes "sign_charter t name now b = (Inr r, b')"
  shows "\<not> work_done CharterVote b" "vote_open b" "0 < standing_of t b" "t \<notin> set (b_signatures b)"
    and "b_signatures b' = b_signatures b @ [t]" "standing_of u b' = standing_of u b"
    and "b_works b' = (if Suc (length (b_signatures b)) < SIGNATURES then b_works b
       else (b_works b)(CharterVote := (b_works b CharterVote)\<lparr>pr_done := Some now\<rparr>))"
    and "b_era b' = (if Suc (length (b_signatures b)) < SIGNATURES then b_era b else 1)"
  using assms
  by (auto simp: sign_charter_def Let_def note_name_def announce_def standing_of_def split: if_splits)

lemma sign_refused: "sign_charter t name now b = (Inl why, b') \<Longrightarrow> b' = b"
  by (auto simp: sign_charter_def Let_def split: if_splits)

lemma sign_charter_ok:
  assumes "sign_charter t name now b = (r, b')" and b: "charter_ok b"
  shows "charter_ok b'"
proof (cases r)
  case (Inr ok)
  note s = assms(1) [unfolded Inr]
  note g = sign_Done(1-4) [OF s] and b' = sign_Done(5,7,8) [OF s] and st = sign_Done(6) [OF s]
  from g b have era: "b_era b = 0" and len: "length (b_signatures b) < SIGNATURES"
    by (auto simp: charter_ok_def)
  with g(2) have works: "work_done SecondFoundry b" "work_done MilitiaHangar b"
    by (simp_all add: vote_open_def work_all_def work_era_def)
  have dn: "work_done w b' = (work_done w b \<or> w = CharterVote \<and> \<not> Suc (length (b_signatures b)) < SIGNATURES)" for w
    by (simp add: work_done_def b'(2))
  have pr: "delivered_ok w (b_works b' w) = delivered_ok w (b_works b w)"
    "has_its_needs w (b_works b' w) = has_its_needs w (b_works b w)" for w
    by (simp_all add: b'(2) delivered_ok_def has_its_needs_def)
  show ?thesis
    using b g(1,3,4) works len unfolding charter_ok_def st dn pr b'(1,3) by (auto simp: era)
qed (use assms sign_refused in blast)

section \<open>The news\<close>

definition news_ok :: "board \<Rightarrow> bool" where
  "news_ok b \<longleftrightarrow> length (b_news b) \<le> min NEWS_KEPT (b_news_seq b)
     \<and> map nt_seq (b_news b) = [Suc (b_news_seq b) - length (b_news b)..<Suc (b_news_seq b)]"

lemma news_ok_cong: "b_news b' = b_news b \<Longrightarrow> b_news_seq b' = b_news_seq b \<Longrightarrow> news_ok b' = news_ok b"
  by (simp add: news_ok_def)

lemma news_ok_announce:
  assumes "news_ok b"
  shows "news_ok (announce x b)"
proof -
  let ?s = "b_news_seq b" and ?l = "length (b_news b)"
  let ?ns = "b_news b @ [\<lparr>nt_seq = Suc ?s, nt_text = x\<rparr>]"
  from assms have l: "?l \<le> NEWS_KEPT" "?l \<le> ?s" and m: "map nt_seq (b_news b) = [Suc ?s - ?l..<Suc ?s]"
    by (simp_all add: news_ok_def)
  from l m have all: "map nt_seq ?ns = [Suc (Suc ?s) - Suc ?l..<Suc (Suc ?s)]" by simp
  then have "tl (map nt_seq ?ns) = [Suc (Suc ?s - ?l)..<Suc (Suc ?s)]" using l by (simp del: upt_Suc)
  also have "Suc (Suc ?s - ?l) = Suc (Suc ?s) - ?l" using l by simp
  finally have rest: "map nt_seq (tl ?ns) = [Suc (Suc ?s) - ?l..<Suc (Suc ?s)]" by (simp only: map_tl)
  have "announce x b = b\<lparr>b_news_seq := Suc ?s, b_news := (if NEWS_KEPT < Suc ?l then tl ?ns else ?ns)\<rparr>"
    by (simp add: announce_def Let_def)
  with l all rest show ?thesis by (simp add: news_ok_def del: upt_Suc)
qed

lemma news_ok_quiet: "quiet b b' \<Longrightarrow> news_ok b \<Longrightarrow> news_ok b'"
  using news_ok_cong [of b' b] by (simp add: quiet_def)

section \<open>Every step keeps the board in order\<close>

definition board_ok :: "board \<Rightarrow> bool" where
  "board_ok b \<longleftrightarrow> contracts_ok b \<and> charter_ok b \<and> news_ok b"

lemma board_ok_quiet: "board_ok b \<Longrightarrow> contracts_ok b' \<Longrightarrow> quiet b b' \<Longrightarrow> board_ok b'"
  using charter_ok_quiet news_ok_quiet by (auto simp: board_ok_def)

lemma quiet_contracts_ok [contracts_keep]:
  "set_terms t sv b = (r1, b') \<Longrightarrow> contracts_ok b \<Longrightarrow> contracts_ok b'"
  "pay_ace k t at_desk b h = (r2, b', h') \<Longrightarrow> contracts_ok b \<Longrightarrow> contracts_ok b'"
  "certify t e b h = (r3, e', b', h') \<Longrightarrow> contracts_ok b \<Longrightarrow> contracts_ok b'"
  "board_collect t b h = (ns, b', h') \<Longrightarrow> contracts_ok b \<Longrightarrow> contracts_ok b'"
  "collect_at_desk t b h = (ns, b', h') \<Longrightarrow> contracts_ok b \<Longrightarrow> contracts_ok b'"
proof -
  have sv: "contracts_ok (b\<lparr>b_salvage_terms := x\<rparr>) = contracts_ok b" for x
    by (rule contracts_ok_cong) simp_all
  show "set_terms t sv b = (r1, b') \<Longrightarrow> contracts_ok b \<Longrightarrow> contracts_ok b'"
    by (auto simp: set_terms_def sv split: if_splits)
  show "pay_ace k t at_desk b h = (r2, b', h') \<Longrightarrow> contracts_ok b \<Longrightarrow> contracts_ok b'"
    by (auto simp: pay_ace_def Let_def split: if_splits)
  show "certify t e b h = (r3, e', b', h') \<Longrightarrow> contracts_ok b \<Longrightarrow> contracts_ok b'"
    by (auto simp: certify_def Let_def split: if_splits prod.splits)
  show "board_collect t b h = (ns, b', h') \<Longrightarrow> contracts_ok b \<Longrightarrow> contracts_ok b'"
    "collect_at_desk t b h = (ns, b', h') \<Longrightarrow> contracts_ok b \<Longrightarrow> contracts_ok b'"
    by (auto simp: board_collect_def collect_at_desk_def split: option.splits)
qed

lemma ace_board_ok:
  "board_ok b \<Longrightarrow> board_ok (ace_out k b)" "board_ok b \<Longrightarrow> ace_downed k t name now b = (sv, b') \<Longrightarrow> board_ok b'"
proof -
  show "board_ok b \<Longrightarrow> board_ok (ace_out k b)" by (simp add: board_ok_def ace_out_def news_ok_announce)
  let ?b = "\<lambda>wt ac. (note_name t name b)\<lparr>b_wanted := wt, b_aces := ac\<rparr>"
  have "contracts_ok (?b wt ac) = contracts_ok b" for wt ac by (rule contracts_ok_cong) simp_all
  moreover have "quiet b (?b wt ac)" for wt ac by (simp add: quiet_def note_name_def standing_of_def)
  ultimately have "board_ok (?b wt ac)" if "board_ok b" for wt ac using that
    by (intro board_ok_quiet [OF that]) (simp_all add: board_ok_def)
  then show "board_ok b \<Longrightarrow> ace_downed k t name now b = (sv, b') \<Longrightarrow> board_ok b'"
    by (auto simp: ace_downed_def Let_def board_ok_def news_ok_announce)
qed

lemma contribute_board_ok:
  assumes "board_ok b" and "contribute t name w i qty now b h = (r, b', h')"
  shows "board_ok b'"
proof (cases r)
  case (Inr ok)
  from assms(2) [unfolded Inr] obtain n where c: "contribution t name w i n now (snd (st_take i n (hstores h))) b h = (Inr ok, b', h')"
    by (rule contribute_DoneE)
  let ?b = "\<lambda>pay ws. (colony_pays t pay (note_name t name b))\<lparr>b_works := ws\<rparr>"
  have co: "contracts_ok (?b pay ws) = contracts_ok b" for pay ws
    by (rule contracts_ok_cong) simp_all
  have nw: "news_ok (?b pay ws) = news_ok b" for pay ws
    by (rule news_ok_cong) (simp_all add: colony_pays_def note_name_def)
  have fin: "news_ok c \<Longrightarrow> news_ok (finish_work w now c)" for c
    using news_ok_cong [of "c\<lparr>b_works := ws\<rparr>" c for ws] by (simp add: finish_work_def Let_def news_ok_announce)
  from c assms(1) have "contracts_ok b' \<and> news_ok b'"
    by (auto simp: contribution_def Let_def board_ok_def co nw fin)
  with contribute_charter [OF assms(2)] assms(1) show ?thesis by (simp add: board_ok_def)
qed (use assms contribute_refused in blast)

lemma sign_board_ok:
  assumes "board_ok b" and "sign_charter t name now b = (r, b')"
  shows "board_ok b'"
proof -
  let ?b = "\<lambda>sg. (note_name t name b)\<lparr>b_signatures := sg\<rparr>"
    and ?c = "\<lambda>sg ws x. (note_name t name b)\<lparr>b_signatures := sg, b_works := ws, b_era := x\<rparr>"
  have "contracts_ok (?b sg) = contracts_ok b" "contracts_ok (?c sg ws x) = contracts_ok b" for sg ws x
    by (rule contracts_ok_cong; simp)+
  moreover have "news_ok (?b sg) = news_ok b" "news_ok (?c sg ws x) = news_ok b" for sg ws x
    by (rule news_ok_cong; simp add: note_name_def)+
  ultimately have "contracts_ok b' \<and> news_ok b'"
    using assms by (auto simp: sign_charter_def Let_def board_ok_def news_ok_announce split: if_splits)
  with sign_charter_ok [OF assms(2)] assms(1) show ?thesis by (simp add: board_ok_def)
qed

lemma board_step_keeps: "board_step s s' \<Longrightarrow> board_ok (fst (snd s)) \<Longrightarrow> board_ok (fst (snd s'))"
proof (induction rule: board_step.induct)
  case (Ace_goes_out e b h k)
  then show ?case by (simp add: ace_board_ok)
next
  case (Ace_is_downed k t name now b sv b' e h)
  then show ?case using ace_board_ok(2) by simp
next
  case (Contributes t name w i qty now b h r b' h' e)
  then show ?case using contribute_board_ok by simp
next
  case (Signs t name now b r b' e h)
  then show ?case using sign_board_ok by simp
qed (simp only: fst_conv snd_conv, rule board_ok_quiet, assumption,
    (erule contracts_keep; simp add: board_ok_def), (erule quietly; simp add: board_ok_def))+

lemma board_step_ok: "board_step (e, b, h) (e', b', h') \<Longrightarrow> board_ok b \<Longrightarrow> board_ok b'"
  using board_step_keeps by fastforce

lemma history_ok: "board_history b \<Longrightarrow> board_ok b"
proof (induction rule: board_history.induct)
  case Opens
  show ?case
    by (simp add: board_ok_def charter_ok_new)
      (simp add: board_new_def contracts_ok_def contracts_sound_def counts news_ok_def COLONY_SUPPLY_def COLONY_PATROLS_def)
next
  case (Goes_on b e h e' b' h')
  then show ?case by (simp add: board_step_ok)
qed

lemma board_step_balanced:
  assumes "board_step (e, b, h) (e', b', h')" and "contracts_ok b"
  shows "balanced b h b' h'"
proof -
  have "balanced (fst (snd s)) (snd (snd s)) (fst (snd s')) (snd (snd s'))"
    if "board_step s s'" "contracts_ok (fst (snd s))" for s s'
    using that by (induction rule: board_step.induct) (simp_all add: board_ledger)
  from this [OF assms(1)] assms(2) show ?thesis by simp
qed

lemma pay_for_below: "d \<le> q \<Longrightarrow> 0 < q \<Longrightarrow> r \<le> u64_max \<Longrightarrow> pay_for r d q = r * d div q"
proof -
  assume a: "d \<le> q" "0 < q" "r \<le> u64_max"
  have "r * d div q \<le> r * q div q" using a(1) by (intro div_le_mono mult_le_mono2)
  with a(2,3) have "r * d div q \<le> u64_max" by simp
  moreover from a(2) have "max q 1 = q" by simp
  ultimately show ?thesis by (simp add: pay_for_def)
qed

section \<open>Properties\<close>

text \<open>The board after Ann posts a contract for 100 kg of steel, for the witnesses.\<close>

definition anns_board :: board where
  "anns_board = fst (snd (post ''ann'' ''Ann'' STEEL 100 500 24 1000 board_new starter))"

definition anns_contract :: contract where
  "anns_contract = \<lparr>c_id = 1, c_issuer = Some ''ann'', c_issuer_name = ''Ann'', c_task = Supply STEEL 100 0,
     c_reward = 500, c_paid = 0, c_posted = 1000, c_expires = 87400, c_holder = None\<rparr>"

lemma ann_posts: "post ''ann'' ''Ann'' STEEL 100 500 24 1000 board_new starter
    = (Inr (ContractPosted 1 STEEL 100 500), anns_board, starter\<lparr>credits := 1500\<rparr>)"
  unfolding anns_board_def
  by (simp add: post_def MAX_QTY_def MAX_HOURS_def MAX_POSTED_def posted_by_counted starter_def hangar_empty_def
      post_contract_def board_new_def note_name_def Let_def)

lemma anns_board_contracts: "b_contracts anns_board = bput 1 anns_contract bempty"
  by (simp add: anns_board_def anns_contract_def post_def MAX_QTY_def MAX_HOURS_def MAX_POSTED_def posted_by_counted
      starter_def hangar_empty_def post_contract_def board_new_def note_name_def Let_def)

lemma anns_history: "board_history anns_board"
  by (rule Goes_on [OF Opens, of undefined starter undefined _ "starter\<lparr>credits := 1500\<rparr>"], rule Posts, rule ann_posts)
    (simp add: u64_max_def)

text \<open>C7: whatever history of requests a board has had, every contract on it is under its own number,
  below the next; a supply contract is not yet filled, has no holder and has paid its reward pro rata
  for what is delivered; a patrol is the colony's, not yet flown, and has paid nothing; so what is
  left to pay never underflows. No pilot has more than 8 posted or more than one patrol, the colony
  asks for no item twice, and it has at most 4 supply jobs and 2 patrols up.\<close>

theorem contracts_stay_in_order:
  assumes "board_history b"
  shows "(\<forall>k c. bget (b_contracts b) k = Some c \<longrightarrow> c_id c = k \<and> k < b_next_id b \<and> c_paid c \<le> c_reward c
       \<and> (case c_task c of
            Supply i q d \<Rightarrow> d < q \<and> c_paid c = c_reward c * d div q \<and> c_holder c = None
          | Patrol bounty got \<Rightarrow> got < bounty \<and> c_paid c = 0 \<and> c_issuer c = None))
     \<and> posted_by t b \<le> 8 \<and> held_by t b \<le> 1 \<and> asking i b \<le> 1 \<and> open_jobs False b \<le> 4 \<and> open_jobs True b \<le> 2"
proof -
  from history_ok [OF assms] have b: "contracts_ok b" by (simp add: board_ok_def)
  { fix k c assume c: "bget (b_contracts b) k = Some c"
    note ok = contract_okD(1) [OF b c]
    have "case c_task c of
            Supply i q d \<Rightarrow> d < q \<and> c_paid c = c_reward c * d div q \<and> c_holder c = None
          | Patrol bounty got \<Rightarrow> got < bounty \<and> c_paid c = 0 \<and> c_issuer c = None"
      using ok by (auto simp: contract_ok_def pay_for_below split: task.splits)
    with contract_okD(2,3) [OF b c] paid_le_reward [OF ok] have "c_id c = k \<and> k < b_next_id b \<and> c_paid c \<le> c_reward c
       \<and> (case c_task c of
            Supply i q d \<Rightarrow> d < q \<and> c_paid c = c_reward c * d div q \<and> c_holder c = None
          | Patrol bounty got \<Rightarrow> got < bounty \<and> c_paid c = 0 \<and> c_issuer c = None)" by simp }
  with b show ?thesis by (simp add: contracts_ok_def MAX_POSTED_def COLONY_SUPPLY_def COLONY_PATROLS_def)
qed

theorem contracts_stay_in_order_witness: "posted_by ''ann'' anns_board \<le> 8 \<and> c_paid anns_contract \<le> c_reward anns_contract"
  using contracts_stay_in_order [OF anns_history, of "''ann''" STEEL] by (auto simp: anns_board_contracts)

text \<open>C9: the Board makes no credits: over any step (a post, a withdrawal, a delivery, a patrol, a
  collection, an expiry, an ace's bounty, a certificate) the credits in the hangar, in escrow and in
  the Board's accounts change by exactly what the colony paid out.\<close>

theorem board_makes_no_credits:
  assumes "board_history b" and "board_step (e, b, h) (e', b', h')"
  shows "credits h' + board_credits b' + b_colony_paid b = credits h + board_credits b + b_colony_paid b'"
proof -
  from history_ok [OF assms(1)] have b: "contracts_ok b" by (simp add: board_ok_def)
  from board_step_balanced [OF assms(2) b] show ?thesis by (simp add: balanced_def)
qed

theorem board_makes_no_credits_witness:
  "board_credits anns_board + credits (starter\<lparr>credits := 1500\<rparr>) + b_colony_paid board_new
     = credits starter + board_credits board_new + b_colony_paid anns_board"
  using board_makes_no_credits [OF Opens Posts [OF ann_posts]] by (simp add: u64_max_def)

text \<open>C11: the Board's clock always comes round: however the board stands, \<open>tick\<close> returns, with every
  expired contract closed, the colony's four supply jobs up, its two patrols too once the militia has
  its hangar, and the board as it was if it says nothing changed.\<close>

theorem board_tick_returns:
  assumes "board_history b"
  shows "\<exists>ch b'. board_tick now e b = Some (ch, b') \<and> open_jobs False b' = 4
       \<and> (ef_patrols (effects_of b) \<longrightarrow> open_jobs True b' = 2)
       \<and> (\<forall>k c. bget (b_contracts b') k = Some c \<longrightarrow> now < c_expires c) \<and> (\<not> ch \<longrightarrow> b' = b)"
proof -
  from history_ok [OF assms] have "contracts_ok b" by (simp add: board_ok_def)
  then obtain ch b' where "board_tick now e b = Some (ch, b')" "open_jobs False b' = COLONY_SUPPLY"
    "ef_patrols (effects_of b) \<Longrightarrow> open_jobs True b' = COLONY_PATROLS"
    "\<And>k c. bget (b_contracts b') k = Some c \<Longrightarrow> now < c_expires c" "\<not> ch \<Longrightarrow> b' = b"
    by (rule tick_comes_round) blast
  then show ?thesis by (auto simp: COLONY_SUPPLY_def COLONY_PATROLS_def)
qed

theorem board_tick_returns_witness: "\<exists>ch b'. board_tick 90000 exchange_new anns_board = Some (ch, b') \<and> open_jobs False b' = 4"
  using board_tick_returns [OF anns_history, of 90000 exchange_new] by blast

lemma hand_over_owes:
  "hand_over c t name i n pay (e, b) = (e', b') \<Longrightarrow>
   (case c_issuer c of
      None \<Rightarrow> b_colony_paid b' = b_colony_paid b + pay \<and> standing_of t b' = standing_of t b + pay
    | Some owner \<Rightarrow> e' = e \<and> bor 0 (bget (pa_goods (bor purse_empty (bget (b_accounts b') owner))) i)
        = bor 0 (bget (pa_goods (bor purse_empty (bget (b_accounts b) owner))) i) + n)"
  by (cases "c_issuer c")
    (auto simp: hand_over_def colony_pays_def standing_of_def owe_def purse_add_goods_def bor_def)

lemma fill_owes:
  "standing_of t (fill_contract c b) = standing_of t b" "b_colony_paid (fill_contract c b) = b_colony_paid b"
  "pa_goods (bor purse_empty (bget (b_accounts (fill_contract c b)) u)) = pa_goods (bor purse_empty (bget (b_accounts b) u))"
  by (auto simp: fill_contract_def Let_def owe_def purse_add_def standing_of_def split: option.split)


definition bob_hangar :: hangar where
  "bob_hangar = hangar_empty\<lparr>hstores := st_add STEEL 40 stores_empty\<rparr>"

lemma bob_steel: "st_get (hstores bob_hangar) STEEL = 40"
  by (simp add: bob_hangar_def stores_empty_def hangar_empty_def sat64_def u64_max_def)

lemma bob_delivers: "\<exists>e' b' h'. deliver ''bob'' ''Bob'' 1 60 2000 exchange_new anns_board bob_hangar
    = (Inr (DeliveredPaid STEEL 40 200 False), e', b', h')"
proof -
  have s: "fst (st_take STEEL 40 (hstores bob_hangar))" unfolding st_take_iff bob_steel by simp
  have "pay_for 500 40 100 = 200" by (simp add: pay_for_def sat64_def u64_max_def)
  with s show ?thesis
    unfolding deliver_def anns_board_contracts anns_contract_def
    by (simp add: bob_steel delivery_def prod.case_eq_if Let_def del: st_get.simps)
qed


lemma patrol_refused:
  "take_patrol t name k now b = (Inl why, b') \<Longrightarrow> b' = b" "drop_patrol t k now b = (Inl why, b') \<Longrightarrow> b' = b"
  by (auto simp: take_patrol_def drop_patrol_def split: if_splits option.splits task.splits)

lemma withdraw_refused: "withdraw t k b h = (Inl why, b', h') \<Longrightarrow> b' = b \<and> h' = h"
  by (auto simp: withdraw_def split: if_splits option.splits prod.splits)

lemma stores_never_refuse:
  "fst (deliver t name k qty now e b h) \<noteq> Inl StoresRefused" "fst (contribute t name w i qty now b h) \<noteq> Inl StoresRefused"
proof -
  have released: "fst (st_take j (min m (st_get st j)) st)" for j m st by (simp add: st_take_iff)
  show "fst (deliver t name k qty now e b h) \<noteq> Inl StoresRefused"
    by (auto simp: deliver_def delivery_def Let_def prod.case_eq_if released split: option.split task.split)
  show "fst (contribute t name w i qty now b h) \<noteq> Inl StoresRefused"
    by (auto simp: contribute_def contribution_def Let_def prod.case_eq_if released split: option.split)
qed



text \<open>C10: the charter: whatever the board's history, a great work never takes more than it needs and is
  finished exactly when it has all of it; nobody has signed before both works are finished, nobody
  signs twice, every signer has standing; and the charter is adopted, and the colony's era the
  first, exactly when three have signed.\<close>

theorem charter_adopted_by_three:
  assumes "board_history b"
  shows "(\<forall>w i q. (i, q) \<in> set (work_needs w) \<longrightarrow> bor 0 (bget (pr_delivered (b_works b w)) i) \<le> q)
     \<and> (\<forall>w. w \<noteq> CharterVote \<longrightarrow>
          (work_done w b \<longleftrightarrow> (\<forall>(i, q)\<in>set (work_needs w). bor 0 (bget (pr_delivered (b_works b w)) i) = q)))
     \<and> (b_signatures b \<noteq> [] \<longrightarrow> work_done SecondFoundry b \<and> work_done MilitiaHangar b)
     \<and> distinct (b_signatures b) \<and> (\<forall>t\<in>set (b_signatures b). 0 < standing_of t b)
     \<and> length (b_signatures b) \<le> 3 \<and> (work_done CharterVote b \<longleftrightarrow> length (b_signatures b) = 3)
     \<and> b_era b = (if length (b_signatures b) = 3 then 1 else 0)"
proof -
  from history_ok [OF assms] have b: "charter_ok b" by (simp add: board_ok_def)
  have le: "bor 0 (bget (pr_delivered (b_works b w)) i) \<le> q" if "(i, q) \<in> set (work_needs w)" for w i q
    using b that by (cases w) (auto simp: charter_ok_def work_all_def delivered_ok_def list_all_iff)
  have "work_done w b \<longleftrightarrow> has_its_needs w (b_works b w)" if "w \<noteq> CharterVote" for w
    using b that by (cases w) (simp_all add: charter_ok_def work_all_def)
  with le have "work_done w b \<longleftrightarrow> (\<forall>(i, q)\<in>set (work_needs w). bor 0 (bget (pr_delivered (b_works b w)) i) = q)"
    if "w \<noteq> CharterVote" for w
    using that unfolding has_its_needs_def list_all_iff by fastforce
  with le b show ?thesis by (auto simp: charter_ok_def list_all_iff SIGNATURES_def)
qed

theorem charter_adopted_by_three_witness: "b_era anns_board = 0 \<or> length (b_signatures anns_board) = 3"
  using charter_adopted_by_three [OF anns_history] by auto

text \<open>No news is lost within the last 16: the notices kept are numbered one by one up to the newest,
  at most 16 of them and all of them until there were more, so a pilot who has seen up to a number
  within that reach is given exactly the later ones, in order.\<close>

theorem news_since_exact:
  assumes "board_history b" and "b_news_seq b \<le> s + length (b_news b)"
  shows "map nt_seq (news_since s b) = [Suc s..<Suc (b_news_seq b)] \<and> length (b_news b) \<le> 16"
proof -
  from history_ok [OF assms(1)] have n: "length (b_news b) \<le> min NEWS_KEPT (b_news_seq b)"
    "map nt_seq (b_news b) = [Suc (b_news_seq b) - length (b_news b)..<Suc (b_news_seq b)]"
    by (simp_all add: board_ok_def news_ok_def)
  have "map nt_seq (news_since s b) = filter (\<lambda>k. s < k) (map nt_seq (b_news b))"
    by (simp add: news_since_def filter_map comp_def)
  also have "\<dots> = filter (\<lambda>k. s < k) [Suc (b_news_seq b) - length (b_news b)..<Suc (b_news_seq b)]" by (simp only: n(2))
  also have "\<dots> = [Suc s..<Suc (b_news_seq b)]"
    using assms(2) n(1) by (intro sorted_distinct_set_unique) (auto simp: sorted_wrt_filter simp del: upt_Suc)
  finally show ?thesis using n(1) by (simp add: NEWS_KEPT_def)
qed

theorem news_since_exact_witness: "map nt_seq (news_since 0 (ace_out 3 (ace_out 2 anns_board))) = [1, 2]"
proof -
  have "board_history (ace_out 3 (ace_out 2 anns_board))"
    by (rule Goes_on [OF Goes_on [OF anns_history Ace_goes_out] Ace_goes_out])
  moreover have "b_news_seq (ace_out 3 (ace_out 2 anns_board)) = 2" "length (b_news (ace_out 3 (ace_out 2 anns_board))) = 2"
    by (simp_all add: ace_out_def announce_def Let_def anns_board_def post_def MAX_QTY_def MAX_HOURS_def MAX_POSTED_def
        posted_by_counted starter_def hangar_empty_def post_contract_def board_new_def note_name_def NEWS_KEPT_def)
  ultimately show ?thesis using news_since_exact [of "ace_out 3 (ace_out 2 anns_board)" 0] by (simp add: upt_rec)
qed

end
