(* ===== verification/Colony.thy ===== *)
theory Colony
  imports Gantry Civics
begin

text \<open>
  The colony's economy as a whole: the exchange, the Charter Board and every pilot's hangar, changed
  by one request (or one turn of a clock) at a time, as the server applies them. The steps are the
  operations of the exchange and the Board; over any sequence of them the books balance.
\<close>

section \<open>The state and its steps\<close>

record colony_state =
  co_ex :: exchange
  co_board :: board
  co_hangars :: "(trader, hangar) bmap"

text \<open>A pilot's credits are below what the exchange can compute a fee on (\<open>FEE_CAP\<close>, over 10 ^ 17). A new pilot
  arrives with a starter's hangar (\<open>enter\<close> of \<open>session.rs\<close>).\<close>

inductive colony_step :: "(rat \<Rightarrow> rat \<Rightarrow> rat) \<Rightarrow> (rat \<Rightarrow> rat) \<Rightarrow> colony_state \<Rightarrow> colony_state \<Rightarrow> bool"
  for pw :: "rat \<Rightarrow> rat \<Rightarrow> rat" and ex :: "rat \<Rightarrow> rat" where
  Trades: "bget (co_hangars s) t = Some h \<Longrightarrow> credits h \<le> FEE_CAP
    \<Longrightarrow> hangar_trade pw (co_ex s) t i sd price qty rest h = Some (r, e', h')
    \<Longrightarrow> colony_step pw ex s (s\<lparr>co_ex := e', co_hangars := bput t h' (co_hangars s)\<rparr>)"
| Cancels: "colony_step pw ex s (s\<lparr>co_ex := snd (ex_cancel t k (co_ex s))\<rparr>)"
| Cancels_all: "colony_step pw ex s (s\<lparr>co_ex := ex_cancel_all t (co_ex s)\<rparr>)"
| Is_paid: "bget (co_hangars s) t = Some h \<Longrightarrow> collect (co_ex s) t h = (ns, e', h')
    \<Longrightarrow> colony_step pw ex s (s\<lparr>co_ex := e', co_hangars := bput t h' (co_hangars s)\<rparr>)"
| Time_passes: "ex_tick pw ex dt (co_ex s) = Some e' \<Longrightarrow> colony_step pw ex s (s\<lparr>co_ex := e'\<rparr>)"
| Asks_the_board: "bget (co_hangars s) t = Some h \<Longrightarrow> board_step (co_ex s, co_board s, h) (e', b', h')
    \<Longrightarrow> colony_step pw ex s (s\<lparr>co_ex := e', co_board := b', co_hangars := bput t h' (co_hangars s)\<rparr>)"
| Joins: "bget (co_hangars s) t = None
    \<Longrightarrow> colony_step pw ex s (s\<lparr>co_hangars := bput t starter (co_hangars s)\<rparr>)"

inductive colony_run :: "(rat \<Rightarrow> rat \<Rightarrow> rat) \<Rightarrow> (rat \<Rightarrow> rat) \<Rightarrow> colony_state \<Rightarrow> colony_state \<Rightarrow> bool"
  for pw ex where
  Stands: "colony_run pw ex s s"
| Runs_on: "colony_run pw ex s s' \<Longrightarrow> colony_step pw ex s' s'' \<Longrightarrow> colony_run pw ex s s''"

section \<open>What the exchange's other operations leave alone\<close>

text \<open>The exchange's money, and what its colony has paid out.\<close>

definition ex_money :: "exchange \<Rightarrow> nat" where
  "ex_money e = credits_held e + fees e + colony_took e"

definition same_money :: "exchange \<Rightarrow> exchange \<Rightarrow> bool" where
  "same_money e e' \<longleftrightarrow> books e' = books e \<and> accounts e' = accounts e \<and> seq e' = seq e \<and> fees e' = fees e
     \<and> colony_took e' = colony_took e \<and> colony_paid e' = colony_paid e"

lemma same_money_refl [simp]: "same_money e e"
  by (simp add: same_money_def)

lemma same_money_trans: "same_money e e' \<Longrightarrow> same_money e' e'' \<Longrightarrow> same_money e e''"
  by (simp add: same_money_def)

lemma same_money_ok:
  "same_money e e' \<Longrightarrow> ex_money e' = ex_money e \<and> colony_paid e' = colony_paid e \<and> exchange_ok e' = exchange_ok e"
  by (simp add: same_money_def ex_money_def credits_held_def escrowed_def exchange_ok_def books_ok_def book_at_def)

lemma colony_moves_same: "same_money e (colony_receive i n e)" "colony_issue i n e = (k, e') \<Longrightarrow> same_money e e'"
  by (auto simp: colony_receive_def colony_issue_def same_money_def Let_def split: option.splits)

lemma sample_fold_same: "same_money e (fold (sample_item pw) is e)"
proof (induction "is" arbitrary: e)
  case (Cons i "is")
  have "same_money e (sample_item pw i e)"
    by (auto simp: sample_item_def same_money_def split: option.split)
  with Cons show ?case by (auto intro: same_money_trans)
qed simp

lemma sample_all_same: "same_money e (sample_all pw e)"
proof -
  have "same_money e (e\<lparr>next_sample := x\<rparr>)" for x by (simp add: same_money_def)
  then show ?thesis unfolding sample_all_def using sample_fold_same by (rule same_money_trans)
qed

lemma sample_loop_same: "sample_loop pw e = Some e' \<Longrightarrow> same_money e e'"
proof (rule sample_loop.raw_induct [where P = "\<lambda>_ e e'. same_money e e'"])
  fix loop :: "(rat \<Rightarrow> rat \<Rightarrow> rat) \<Rightarrow> exchange \<Rightarrow> exchange option" and pw e e'
  assume IH: "\<And>pw e e'. loop pw e = Some e' \<Longrightarrow> same_money e e'"
    and "(if next_sample e \<le> clock e then loop pw (sample_all pw e) else Some e) = Some e'"
  then show "same_money e e'"
    by (auto intro: same_money_trans [OF sample_all_same IH] split: if_splits)
qed

lemma ex_tick_same: "ex_tick pw ex dt e = Some e' \<Longrightarrow> same_money e e'"
  by (auto simp: ex_tick_def Let_def same_money_def dest!: sample_loop_same)

lemma hand_back_same: "fees (hand_back od e) = fees e \<and> colony_took (hand_back od e) = colony_took e
    \<and> colony_paid (hand_back od e) = colony_paid e"
  by (simp add: hand_back_def Let_def)

lemma cancel_counters:
  "fees (snd (ex_cancel t k e)) = fees e \<and> colony_took (snd (ex_cancel t k e)) = colony_took e
   \<and> colony_paid (snd (ex_cancel t k e)) = colony_paid e"
  by (auto simp: ex_cancel_def hand_back_same split: option.split)

lemma cancel_money:
  assumes "exchange_ok e"
  shows "ex_money (snd (ex_cancel t k e)) = ex_money e \<and> colony_paid (snd (ex_cancel t k e)) = colony_paid e
       \<and> exchange_ok (snd (ex_cancel t k e))"
  using held_totals(1) [OF assms] held_totals(1) [OF exchange_ok_cancel [OF assms]] exchange_ok_cancel [OF assms]
    cancel_counters [of t k e]
  by (simp add: ex_money_def cr.total_cancel)

lemma cancel_all_money:
  assumes "exchange_ok e"
  shows "ex_money (ex_cancel_all t e) = ex_money e \<and> colony_paid (ex_cancel_all t e) = colony_paid e
       \<and> exchange_ok (ex_cancel_all t e)"
proof -
  have "exchange_ok e \<Longrightarrow> ex_money (fold (\<lambda>k e. snd (ex_cancel t k e)) ks e) = ex_money e
      \<and> colony_paid (fold (\<lambda>k e. snd (ex_cancel t k e)) ks e) = colony_paid e
      \<and> exchange_ok (fold (\<lambda>k e. snd (ex_cancel t k e)) ks e)" for ks
    by (induction ks arbitrary: e) (use cancel_money in simp_all)
  with assms show ?thesis by (simp add: ex_cancel_all_def)
qed

lemma collect_money:
  assumes "exchange_ok e" and "collect e t h = (ns, e', h')"
  shows "credits h' + ex_money e' = credits h + ex_money e \<and> colony_paid e' = colony_paid e \<and> exchange_ok e'"
proof -
  obtain a e1 where k: "ex_collect t e = (a, e1)" by force
  with assms(2) have e1: "e' = e1" "credits h' = credits h + ac_credits a" by (auto simp: collect_def)
  from k have "fees e1 = fees e \<and> colony_took e1 = colony_took e \<and> colony_paid e1 = colony_paid e"
    by (auto simp: ex_collect_def)
  with collect_ledger(1,3) [OF assms(1) k] e1 show ?thesis by (simp add: ex_money_def)
qed

lemma trade_keeps_ok:
  assumes "hangar_trade pw e t i s price qty rest h = Some (r, e', h')" and "exchange_ok e" and "credits h \<le> FEE_CAP"
  shows "exchange_ok e'"
proof (cases "\<not> item_valid i \<or> (\<exists>why. take_escrow i s price qty h = Inl why)")
  case False
  then obtain escrow h1 where i: "item_valid i" and p: "take_escrow i s price qty h = Inr (escrow, h1)"
    by (cases "take_escrow i s price qty h") auto
  from p assms(3) have cap: "escrow \<le> FEE_CAP"
    by (auto simp: take_escrow_def Let_def split: side.splits prod.splits if_splits)
  from assms(1) i p obtain q e1 where pl: "place pw t i s price qty escrow rest e = Some (q, e1)"
    by (auto simp: hangar_trade_def)
  note ok = place_exchange_ok [OF pl assms(2) cap]
  obtain ns e2 h2 where k: "collect e1 t h1 = (ns, e2, h2)" by (metis prod_cases3)
  from collect_money [OF ok k] ok assms(1) i p pl k show ?thesis
    by (cases q) (auto simp: hangar_trade_def)
qed (use assms in \<open>auto simp: hangar_trade_def split: if_splits\<close>)

lemma deliver_exchange:
  assumes "deliver t name k qty now e b h = (r, e', b', h')"
  shows "same_money e e'"
proof (cases r)
  case (Inr ok)
  from assms [unfolded Inr] show ?thesis
  proof (rule deliver_DoneE)
    fix c i q d n pay b2 b1
    assume "hand_over c t name i n pay (e, note_name t name (b\<lparr>b_contracts := bput k
      (c\<lparr>c_paid := c_paid c + pay, c_task := Supply i q (d + n)\<rparr>) (b_contracts b)\<rparr>)) = (e', b2)"
    then show ?thesis by (cases "c_issuer c") (auto simp: hand_over_def colony_moves_same)
  qed
qed (use assms deliver_refused in fastforce)

lemma board_step_exchange: "board_step (e, b, h) (e', b', h') \<Longrightarrow> same_money e e'"
proof -
  have cert: "certify t e b h = (ro, e', b', h') \<Longrightarrow> same_money e e'" for t e b h ro e' b' h'
    by (auto simp: certify_def Let_def dest: colony_moves_same(2) split: if_splits prod.splits)
  have "same_money (fst s) (fst s')" if "board_step s s'" for s s'
    using that by (induction rule: board_step.induct) (simp_all add: deliver_exchange cert)
  then show "board_step (e, b, h) (e', b', h') \<Longrightarrow> ?thesis" by fastforce
qed

section \<open>The books balance\<close>

definition colony_ok :: "colony_state \<Rightarrow> bool" where
  "colony_ok s \<longleftrightarrow> exchange_ok (co_ex s) \<and> board_ok (co_board s)"

definition colony_money :: "colony_state \<Rightarrow> nat" where
  "colony_money s = bsum credits (co_hangars s) + ex_money (co_ex s) + board_credits (co_board s)"

text \<open>What every pilot arrived with, and what the colony's counters say it paid out.\<close>

definition arrived_with :: "(trader, hangar) bmap \<Rightarrow> nat" where
  "arrived_with hs = bsum (\<lambda>_. credits starter) hs"

definition colony_issued :: "colony_state \<Rightarrow> nat" where
  "colony_issued s = colony_paid (co_ex s) + b_colony_paid (co_board s) + arrived_with (co_hangars s)"

lemma arrived_put [simp]:
  "bget hs t = Some h \<Longrightarrow> arrived_with (bput t h' hs) = arrived_with hs"
  "bget hs t = None \<Longrightarrow> arrived_with (bput t h' hs) = arrived_with hs + credits starter"
  using bsum_bput_old [of hs t h "\<lambda>_. credits starter" h'] by (simp_all add: arrived_with_def)

lemma hangar_changes:
  "bget hs t = Some h \<Longrightarrow> bsum credits (bput t h' hs) + credits h = bsum credits hs + credits h'
     \<and> arrived_with (bput t h' hs) = arrived_with hs"
  by (simp add: bsum_bput_old)

lemma colony_step_balances:
  assumes "colony_step pw ex s s'" and "colony_ok s"
  shows "colony_ok s' \<and> colony_money s' + colony_issued s = colony_money s + colony_issued s'"
  using assms
proof (induction rule: colony_step.induct)
  case (Trades s t h i sd price qty rest r e' h')
  from Trades have ok: "exchange_ok (co_ex s)" by (simp add: colony_ok_def)
  from trade_ledger [OF Trades(3) ok Trades(2)] trade_keeps_ok [OF Trades(3) ok Trades(2)]
    hangar_changes [OF Trades(1), of h'] Trades(4)
  show ?case by (simp add: colony_ok_def colony_money_def colony_issued_def ex_money_def)
next
  case (Cancels s t k)
  then show ?case using cancel_money [of "co_ex s" t k]
    by (simp add: colony_ok_def colony_money_def colony_issued_def)
next
  case (Cancels_all s t)
  then show ?case using cancel_all_money [of "co_ex s" t]
    by (simp add: colony_ok_def colony_money_def colony_issued_def)
next
  case (Is_paid s t h ns e' h')
  then show ?case using collect_money [of "co_ex s" t h ns e' h'] hangar_changes [OF Is_paid(1), of h']
    by (simp add: colony_ok_def colony_money_def colony_issued_def)
next
  case (Time_passes dt s e')
  then show ?case using same_money_ok [OF ex_tick_same [OF Time_passes(1)]]
    by (simp add: colony_ok_def colony_money_def colony_issued_def)
next
  case (Asks_the_board s t h e' b' h')
  then have b: "board_ok (co_board s)" "contracts_ok (co_board s)" by (simp_all add: colony_ok_def board_ok_def)
  from board_step_balanced [OF Asks_the_board(2) b(2)] same_money_ok [OF board_step_exchange [OF Asks_the_board(2)]]
    board_step_ok [OF Asks_the_board(2) b(1)] hangar_changes [OF Asks_the_board(1), of h'] Asks_the_board(3)
  show ?case by (simp add: colony_ok_def colony_money_def colony_issued_def balanced_def)
next
  case (Joins s t)
  then show ?case by (simp add: colony_ok_def colony_money_def colony_issued_def)
qed

text \<open>C5: the colony's books balance: over any run of requests by any pilots (trades, cancellations,
  collections, contracts, deliveries, patrols, contributions, bounties) and turns of both clocks, the
  credits in all hangars, on the exchange and on the Board change by exactly what the colony has
  paid out and what new pilots arrive with; no interleaving of the exchange and the Board makes or loses one.\<close>

theorem colony_books_balance:
  assumes "colony_run pw ex s s'" and "exchange_ok (co_ex s)" and "board_history (co_board s)"
  shows "bsum credits (co_hangars s') + credits_held (co_ex s') + fees (co_ex s') + colony_took (co_ex s')
           + board_credits (co_board s')
           + (colony_paid (co_ex s) + b_colony_paid (co_board s) + arrived_with (co_hangars s))
       = bsum credits (co_hangars s) + credits_held (co_ex s) + fees (co_ex s) + colony_took (co_ex s)
           + board_credits (co_board s)
           + (colony_paid (co_ex s') + b_colony_paid (co_board s') + arrived_with (co_hangars s'))"
proof -
  have "colony_ok s" using assms(2,3) by (simp add: colony_ok_def history_ok)
  with assms(1) have "colony_ok s' \<and> colony_money s' + colony_issued s = colony_money s + colony_issued s'"
    by (induction rule: colony_run.induct) (auto dest!: colony_step_balances)
  then show ?thesis by (simp add: colony_money_def colony_issued_def ex_money_def)
qed

text \<open>Ann posts a contract on the colony's board while Bob's order rests on the exchange.\<close>

definition two_pilots :: colony_state where
  "two_pilots = \<lparr>co_ex = one_ask, co_board = board_new, co_hangars = bput ''ann'' starter bempty\<rparr>"

theorem colony_books_balance_witness:
  "\<exists>s'. colony_run pw0 (\<lambda>x. x) two_pilots s' \<and> co_board s' = anns_board
     \<and> bsum credits (co_hangars s') + board_credits anns_board + b_colony_paid board_new
       = 2000 + board_credits board_new + b_colony_paid anns_board"
proof -
  let ?s = "two_pilots\<lparr>co_ex := one_ask, co_board := anns_board,
      co_hangars := bput ''ann'' (starter\<lparr>credits := 1500\<rparr>) (co_hangars two_pilots)\<rparr>"
  have "colony_step pw0 (\<lambda>x. x) two_pilots ?s"
    by (rule Asks_the_board [where h = starter]) (simp_all add: two_pilots_def Posts [OF ann_posts] u64_max_def)
  then have run: "colony_run pw0 (\<lambda>x. x) two_pilots ?s" by (rule Runs_on [OF Stands])
  have "credits starter = 2000" by (simp add: starter_def)
  with colony_books_balance [OF run] one_ask_ok Opens run show ?thesis
    by (intro exI [of _ ?s]) (simp add: two_pilots_def)
qed

end
