(* ===== verification/Bits.thy ===== *)
theory Bits
  imports Prelude "HOL-Library.Word"
begin

unbundle bit_operations_syntax

text \<open>
  LSB-first bit packing over a byte buffer (\<open>crates/bc-proto/src/bits.rs\<close>): the writer, the packer in
  front of it and the reader. Bytes are \<open>8 word\<close>s, fields \<open>32 word\<close>s and the words they are merged
  in \<open>64 word\<close>s; positions are numbers of bits. The specification is a list of bits: writing appends
  the low bits of the value (\<open>writing_appends_the_field\<close>), reading takes the next ones (\<open>read_refines_lemma\<close>), and packing
  a record first writes the same as writing it field by field.
\<close>

section \<open>The writer\<close>

record bit_writer =
  bw_buf :: "8 word list"
  bw_pos :: nat
  bw_limit :: nat
  bw_over :: bool

definition bw_new :: "8 word list \<Rightarrow> bit_writer" where
  "bw_new buf = \<lparr>bw_buf = buf, bw_pos = 0, bw_limit = length buf * 8, bw_over = False\<rparr>"

definition bw_with_limit :: "8 word list \<Rightarrow> nat \<Rightarrow> bit_writer" where
  "bw_with_limit buf max_bytes =
     \<lparr>bw_buf = buf, bw_pos = 0, bw_limit = min (length buf) max_bytes * 8, bw_over = False\<rparr>"

text \<open>Bytes stored from \<open>at\<close> on (\<open>copy_from_slice\<close>, and the loop that does it byte by byte).\<close>

definition store_at :: "nat \<Rightarrow> 8 word list \<Rightarrow> 8 word list \<Rightarrow> 8 word list" where
  "store_at k bs buf = take k buf @ bs @ drop (k + length bs) buf"

definition le_bytes :: "nat \<Rightarrow> 64 word \<Rightarrow> 8 word list" where
  "le_bytes n word = map (\<lambda>i. ucast (drop_bit (8 * i) word)) [0..<n]"

definition low_bits :: "nat \<Rightarrow> 64 word \<Rightarrow> 64 word" where
  "low_bits bits v = v AND (push_bit bits 1 - 1)"

definition merged :: "8 word list \<Rightarrow> nat \<Rightarrow> 32 word \<Rightarrow> nat \<Rightarrow> 64 word" where
  "merged buf pos v bits =
     (let byte = pos div 8; offset = pos mod 8;
          used = (if offset = 0 then 0 else low_bits offset (ucast (buf ! byte)))
      in used OR push_bit offset (low_bits bits (ucast v)))"

definition write_bits :: "32 word \<Rightarrow> nat \<Rightarrow> bit_writer \<Rightarrow> bit_writer" where
  "write_bits v bits w =
     (if bits = 0 then w
      else if bw_over w \<or> bw_limit w < bw_pos w + bits then w\<lparr>bw_over := True\<rparr>
      else
        let byte = bw_pos w div 8; offset = bw_pos w mod 8;
            word = merged (bw_buf w) (bw_pos w) v bits;
            n = (if byte + 8 \<le> length (bw_buf w) then 8 else div_ceil (offset + bits) 8)
        in w\<lparr>bw_buf := store_at byte (le_bytes n word) (bw_buf w), bw_pos := bw_pos w + bits\<rparr>)"

definition write_bool :: "bool \<Rightarrow> bit_writer \<Rightarrow> bit_writer" where
  "write_bool b = write_bits (of_bool b) 1"

definition write_u8 :: "8 word \<Rightarrow> bit_writer \<Rightarrow> bit_writer" where
  "write_u8 v = write_bits (ucast v) 8"

definition write_u16 :: "16 word \<Rightarrow> bit_writer \<Rightarrow> bit_writer" where
  "write_u16 v = write_bits (ucast v) 16"

definition write_u32 :: "32 word \<Rightarrow> bit_writer \<Rightarrow> bit_writer" where
  "write_u32 v = write_bits v 32"

text \<open>An \<open>i32\<close> is its two's complement word.\<close>

definition write_i32 :: "32 word \<Rightarrow> nat \<Rightarrow> bit_writer \<Rightarrow> bit_writer" where
  "write_i32 v bits = write_bits v bits"

definition bits_written :: "bit_writer \<Rightarrow> nat" where
  "bits_written w = bw_pos w"

definition bw_remaining :: "bit_writer \<Rightarrow> nat" where
  "bw_remaining w = bw_limit w - bw_pos w"

definition bytes_written :: "bit_writer \<Rightarrow> nat" where
  "bytes_written w = div_ceil (bw_pos w) 8"

definition rewind :: "nat \<Rightarrow> bit_writer \<Rightarrow> bit_writer" where
  "rewind pos w =
     (let offset = pos mod 8; byte = pos div 8
      in w\<lparr>bw_pos := pos,
           bw_buf := (if offset = 0 then bw_buf w
                      else (bw_buf w)[byte := bw_buf w ! byte AND (push_bit offset 1 - 1)])\<rparr>)"

section \<open>The packer\<close>

record packer =
  pk_w :: bit_writer
  pk_acc :: "64 word"
  pk_n :: nat

definition packer_new :: "bit_writer \<Rightarrow> packer" where
  "packer_new w = \<lparr>pk_w = w, pk_acc = 0, pk_n = 0\<rparr>"

definition packer_finish :: "packer \<Rightarrow> bit_writer" where
  "packer_finish p = write_bits (ucast (pk_acc p)) (pk_n p) (pk_w p)"

definition pack_bits :: "32 word \<Rightarrow> nat \<Rightarrow> packer \<Rightarrow> packer" where
  "pack_bits v bits p =
     (if bits = 0 then p
      else
        let acc = pk_acc p OR push_bit (pk_n p) (low_bits bits (ucast v)); n = pk_n p + bits
        in if 32 \<le> n
           then p\<lparr>pk_w := write_bits (ucast acc) 32 (pk_w p), pk_acc := drop_bit 32 acc, pk_n := n - 32\<rparr>
           else p\<lparr>pk_acc := acc, pk_n := n\<rparr>)"

section \<open>The reader\<close>

record bit_reader =
  br_buf :: "8 word list"
  br_pos :: nat
  br_over :: bool

definition br_new :: "8 word list \<Rightarrow> bit_reader" where
  "br_new buf = \<lparr>br_buf = buf, br_pos = 0, br_over = False\<rparr>"

definition le_word :: "8 word list \<Rightarrow> 64 word" where
  "le_word bs = foldr (\<lambda>b w. ucast b OR push_bit 8 w) bs 0"

definition read_bits :: "nat \<Rightarrow> bit_reader \<Rightarrow> 32 word \<times> bit_reader" where
  "read_bits bits r =
     (if bits = 0 then (0, r)
      else if br_over r \<or> length (br_buf r) * 8 < br_pos r + bits then (0, r\<lparr>br_over := True\<rparr>)
      else
        let byte = br_pos r div 8; offset = br_pos r mod 8;
            word = le_word (take 8 (drop byte (br_buf r)))
        in (ucast (low_bits bits (drop_bit offset word)), r\<lparr>br_pos := br_pos r + bits\<rparr>))"

definition read_bool :: "bit_reader \<Rightarrow> bool \<times> bit_reader" where
  "read_bool r = (let (v, r') = read_bits 1 r in (v \<noteq> 0, r'))"

definition read_u8 :: "bit_reader \<Rightarrow> 8 word \<times> bit_reader" where
  "read_u8 r = (let (v, r') = read_bits 8 r in (ucast v, r'))"

definition read_u16 :: "bit_reader \<Rightarrow> 16 word \<times> bit_reader" where
  "read_u16 r = (let (v, r') = read_bits 16 r in (ucast v, r'))"

definition read_u32 :: "bit_reader \<Rightarrow> 32 word \<times> bit_reader" where
  "read_u32 r = read_bits 32 r"

text \<open>Sign extension: shifted up to the sign bit and arithmetically down again. A field of no bits
  would shift by the whole width, an overflow (\<open>None\<close>).\<close>

definition sign_extend :: "nat \<Rightarrow> 32 word \<Rightarrow> 32 word option" where
  "sign_extend bits raw =
     (if bits = 32 then Some raw
      else if bits = 0 \<or> 32 < bits then None
      else Some (signed_drop_bit (32 - bits) (push_bit (32 - bits) raw)))"

definition read_i32 :: "nat \<Rightarrow> bit_reader \<Rightarrow> 32 word option \<times> bit_reader" where
  "read_i32 bits r = (let (raw, r') = read_bits bits r in (sign_extend bits raw, r'))"

definition bits_read :: "bit_reader \<Rightarrow> nat" where
  "bits_read r = br_pos r"

definition br_remaining :: "bit_reader \<Rightarrow> nat" where
  "br_remaining r = length (br_buf r) * 8 - br_pos r"

section \<open>The buffer as a list of bits\<close>

definition bit_at :: "8 word list \<Rightarrow> nat \<Rightarrow> bool" where
  "bit_at buf k = bit (buf ! (k div 8)) (k mod 8)"

definition field :: "'a::len word \<Rightarrow> nat \<Rightarrow> bool list" where
  "field v bits = map (bit v) [0..<bits]"

definition written :: "bit_writer \<Rightarrow> bool list" where
  "written w = map (bit_at (bw_buf w)) [0..<bw_pos w]"

definition unread :: "bit_reader \<Rightarrow> bool list" where
  "unread r = map (bit_at (br_buf r)) [br_pos r..<length (br_buf r) * 8]"

definition writer_ok :: "bit_writer \<Rightarrow> bool" where
  "writer_ok w \<longleftrightarrow> bw_pos w \<le> bw_limit w \<and> bw_limit w \<le> length (bw_buf w) * 8"

lemma bit_low_bits: "bits \<le> 64 \<Longrightarrow> bit (low_bits bits v) k \<longleftrightarrow> k < bits \<and> bit v k"
  unfolding low_bits_def push_bit_of_1 mask_eq_exp_minus_1 [symmetric]
  by (auto simp: bit_simps dest: bit_imp_le_length)

lemma bit_merged:
  assumes "bits \<le> 32"
  shows "bit (merged buf pos v bits) p \<longleftrightarrow>
    p < pos mod 8 \<and> bit (buf ! (pos div 8)) p \<or> pos mod 8 \<le> p \<and> p < pos mod 8 + bits \<and> bit v (p - pos mod 8)"
proof -
  have p: "pos mod 8 < 8" by simp
  show ?thesis
    using assms p bit_imp_le_length [of v "p - pos mod 8"] bit_imp_le_length [of "buf ! (pos div 8)" p]
    by (auto simp: merged_def Let_def bit_simps bit_low_bits)
qed

lemma bit_le_bytes: "i < n \<Longrightarrow> m < 8 \<Longrightarrow> bit (le_bytes n word ! i) m \<longleftrightarrow> bit word (8 * i + m)"
  by (simp add: le_bytes_def bit_simps)

lemma length_le_bytes [simp]: "length (le_bytes n word) = n"
  by (simp add: le_bytes_def)

lemma nth_store_at:
  assumes "k + length bs \<le> length buf" and "i < length buf"
  shows "store_at k bs buf ! i = (if k \<le> i \<and> i < k + length bs then bs ! (i - k) else buf ! i)"
  using assms by (auto simp: store_at_def nth_append min_def)

lemma length_store_at [simp]: "k + length bs \<le> length buf \<Longrightarrow> length (store_at k bs buf) = length buf"
  by (simp add: store_at_def)

text \<open>The bytes stored hold the field, what was written before it, and nothing outside the buffer.\<close>

lemma div_ceil_8: "m \<le> 8 * div_ceil m 8" "m \<le> 8 * q \<Longrightarrow> div_ceil m 8 \<le> q"
  unfolding div_ceil_def by (auto; presburger)+

lemma stored_bits:
  assumes b: "0 < bits" "bits \<le> 32" and fits: "pos + bits \<le> length buf * 8"
    and n: "n = (if pos div 8 + 8 \<le> length buf then 8 else div_ceil (pos mod 8 + bits) 8)"
    and buf'_def: "buf' = store_at (pos div 8) (le_bytes n (merged buf pos v bits)) buf"
  shows "length buf' = length buf"
    and "k < pos + bits \<Longrightarrow> bit_at buf' k = (if k < pos then bit_at buf k else bit v (k - pos))"
proof -
  let ?B = "pos div 8" and ?o = "pos mod 8"
  have pos: "pos = 8 * ?B + ?o" "?o < 8" by simp_all
  have cover: "?o + bits \<le> 8 * n" using n b(2) pos(2) div_ceil_8(1) [of "?o + bits"] by (simp split: if_splits)
  have B: "?B < length buf" using fits b(1) by (intro less_mult_imp_div_less) simp
  with fits pos(1) have "?o + bits \<le> 8 * (length buf - ?B)" by linarith
  from div_ceil_8(2) [OF this] B have "?B + div_ceil (?o + bits) 8 \<le> length buf"
    by (metis add.commute le_diff_conv2 less_imp_le)
  then have inside: "?B + n \<le> length buf" unfolding n by simp
  then show "length buf' = length buf" by (simp add: buf'_def)
  assume k: "k < pos + bits"
  have kl: "k div 8 < length buf" using k fits by (intro less_mult_imp_div_less) simp
  have kd: "k = 8 * (k div 8) + k mod 8" "k mod 8 < 8" by simp_all
  show "bit_at buf' k = (if k < pos then bit_at buf k else bit v (k - pos))"
  proof (cases "k div 8 < ?B")
    case True
    then have "buf' ! (k div 8) = buf ! (k div 8)" using inside kl by (simp add: buf'_def nth_store_at)
    moreover have "k < pos" using True kd pos(1) by linarith
    ultimately show ?thesis by (simp add: bit_at_def)
  next
    case False
    define i where "i = k div 8 - ?B"
    have i: "k div 8 = ?B + i" "8 * i + k mod 8 = k - 8 * ?B" "8 * ?B \<le> k"
      using False kd unfolding i_def by linarith+
    have "i < n" using i cover k pos(1) by linarith
    with inside kl i(1) have "bit_at buf' k = bit (merged buf pos v bits) (k - 8 * ?B)"
      by (simp add: bit_at_def buf'_def nth_store_at bit_le_bytes flip: i(2))
    also have "\<dots> = (if k < pos then bit (buf ! ?B) (k - 8 * ?B) else bit v (k - pos))"
    proof -
      have "k - 8 * ?B < ?o \<longleftrightarrow> k < pos" "k - 8 * ?B - ?o = k - pos" "k - 8 * ?B < ?o + bits"
        using pos(1) i(3) k by linarith+
      then show ?thesis unfolding bit_merged [OF b(2)] by auto
    qed
    also have "\<dots> = (if k < pos then bit_at buf k else bit v (k - pos))"
    proof (cases "k < pos")
      case True
      with i(1,3) pos kd have "i = 0" by linarith
      with i have "k div 8 = ?B" "k mod 8 = k - 8 * ?B" by simp_all
      then show ?thesis by (simp add: bit_at_def)
    qed simp
    finally show ?thesis .
  qed
qed

lemma map_upt_split: "map f [0..<m + n] = map f [0..<m] @ map (\<lambda>j. f (m + j)) [0..<n]"
  by (induction n) simp_all

lemma write_refines_lemma:
  assumes "writer_ok w" and "bits \<le> 32" and w'_def: "w' = write_bits v bits w"
  shows "writer_ok w' \<and> bw_limit w' = bw_limit w \<and> length (bw_buf w') = length (bw_buf w)
       \<and> (bw_over w' \<longleftrightarrow> bw_over w \<or> bw_limit w < length (written w) + bits)
       \<and> written w' = (if bw_over w' then written w else written w @ field v bits)"
proof -
  have len: "length (written w) = bw_pos w" by (simp add: written_def)
  consider "bits = 0" | "0 < bits" "bw_over w \<or> bw_limit w < bw_pos w + bits"
    | "0 < bits" "\<not> bw_over w" "bw_pos w + bits \<le> bw_limit w" by linarith
  then show ?thesis
  proof cases
    case 1
    with assms show ?thesis by (auto simp: write_bits_def writer_ok_def len field_def)
  next
    case 2
    then have "w' = w\<lparr>bw_over := True\<rparr>" by (auto simp: w'_def write_bits_def)
    with 2 assms(1) show ?thesis by (auto simp: writer_ok_def written_def)
  next
    case 3
    define n where "n = (if bw_pos w div 8 + 8 \<le> length (bw_buf w) then 8 else div_ceil (bw_pos w mod 8 + bits) 8)"
    define buf' where "buf' = store_at (bw_pos w div 8) (le_bytes n (merged (bw_buf w) (bw_pos w) v bits)) (bw_buf w)"
    have w': "w' = w\<lparr>bw_buf := buf', bw_pos := bw_pos w + bits\<rparr>"
      using 3 by (simp add: w'_def write_bits_def Let_def buf'_def n_def)
    have fits: "bw_pos w + bits \<le> length (bw_buf w) * 8" using 3(3) assms(1) by (simp add: writer_ok_def)
    note sb = stored_bits [OF 3(1) assms(2) fits n_def buf'_def]
    have "written w' = map (bit_at buf') [0..<bw_pos w] @ map (\<lambda>j. bit_at buf' (bw_pos w + j)) [0..<bits]"
      by (simp add: w' written_def map_upt_split)
    also have "\<dots> = written w @ field v bits" by (simp add: sb(2) written_def field_def)
    finally show ?thesis
      using 3 sb(1) assms(1) by (simp add: w' len) (simp add: w' writer_ok_def)
  qed
qed


text \<open>The reader's word of eight bytes, bit by bit.\<close>

lemma bit_le_word:
  "length bs \<le> 8 \<Longrightarrow> bit (le_word bs) k \<longleftrightarrow> k div 8 < length bs \<and> bit (bs ! (k div 8)) (k mod 8)"
proof (induction bs arbitrary: k)
  case Nil
  then show ?case by (simp add: le_word_def)
next
  case (Cons b bs)
  have step: "bit (le_word (b # bs)) k \<longleftrightarrow> k < 64 \<and> (bit b k \<or> 8 \<le> k \<and> bit (le_word bs) (k - 8))"
    by (auto simp: le_word_def bit_simps dest: bit_imp_le_length)
  show ?case
  proof (cases "k < 8")
    case True
    then show ?thesis unfolding step by simp
  next
    case False
    then obtain m where "k = m + 8" by (metis add.commute le_Suc_ex not_less)
    then have "k div 8 = Suc ((k - 8) div 8)" "k mod 8 = (k - 8) mod 8" by simp_all
    moreover have "\<not> bit b k" using False bit_imp_le_length [of b k] by auto
    moreover have "(k - 8) div 8 < length bs \<Longrightarrow> k < 64"
    proof -
      assume "(k - 8) div 8 < length bs"
      then have "k - 8 < 56" using Cons.prems by (simp add: div_less_iff_less_mult)
      then show ?thesis by simp
    qed
    ultimately show ?thesis unfolding step using False Cons by auto
  qed
qed

lemma add_blocks: "p = 8 * B + o1 \<Longrightarrow> o1 + k = 8 * j + m \<Longrightarrow> m < 8 \<Longrightarrow> (p + k) div 8 = B + j \<and> (p + k) mod 8 = m"
  for p :: nat
  by (simp add: add.assoc add.left_commute)

lemma read_bits_here:
  assumes b: "0 < bits" "bits \<le> 32" and fits: "\<not> br_over r" "br_pos r + bits \<le> length (br_buf r) * 8"
  shows "snd (read_bits bits r) = r\<lparr>br_pos := br_pos r + bits\<rparr>"
    and "bit (fst (read_bits bits r)) k \<longleftrightarrow> k < bits \<and> bit_at (br_buf r) (br_pos r + k)"
proof -
  let ?B = "br_pos r div 8" and ?o = "br_pos r mod 8"
  let ?w = "le_word (take 8 (drop ?B (br_buf r)))"
  have r: "read_bits bits r = (ucast (low_bits bits (drop_bit ?o ?w)), r\<lparr>br_pos := br_pos r + bits\<rparr>)"
    using b fits by (simp add: read_bits_def Let_def)
  then show "snd (read_bits bits r) = r\<lparr>br_pos := br_pos r + bits\<rparr>" by simp
  have pos: "br_pos r = 8 * ?B + ?o" "?o < 8" by simp_all
  have "bit ?w (?o + k) \<longleftrightarrow> bit_at (br_buf r) (br_pos r + k)" if k: "k < bits"
  proof -
    define j where "j = (?o + k) div 8"
    have j: "?o + k = 8 * j + (?o + k) mod 8" "j < 8" using k b(2) pos(2) unfolding j_def by auto
    have at: "(br_pos r + k) div 8 = ?B + j" "(br_pos r + k) mod 8 = (?o + k) mod 8"
      using add_blocks [OF pos(1) j(1)] by simp_all
    have "?B + j < length (br_buf r)" unfolding at(1) [symmetric]
      using k fits(2) by (intro less_mult_imp_div_less) simp
    then have "j < length (br_buf r) - ?B" by linarith
    with j(2) bit_le_word [of "take 8 (drop ?B (br_buf r))" "?o + k"]
    have "bit ?w (?o + k) \<longleftrightarrow> bit (br_buf r ! (?B + j)) ((?o + k) mod 8)"
      by (simp flip: j_def)
    then show ?thesis unfolding bit_at_def at .
  qed
  moreover have "bit (fst (read_bits bits r)) k \<longleftrightarrow> k < bits \<and> bit ?w (?o + k)"
    using b(2) by (auto simp: r bit_simps bit_low_bits)
  ultimately show "bit (fst (read_bits bits r)) k \<longleftrightarrow> k < bits \<and> bit_at (br_buf r) (br_pos r + k)" by blast
qed

text \<open>Reading takes the next bits, least significant first.\<close>

lemma read_refines_lemma:
  assumes "bits \<le> 32" and r': "read_bits bits r = (v, r')" and here: "\<not> br_over r" "br_pos r \<le> length (br_buf r) * 8"
  shows "br_over r' \<longleftrightarrow> length (unread r) < bits"
    and "\<not> br_over r' \<Longrightarrow> field v bits = take bits (unread r) \<and> take_bit bits v = v \<and> unread r' = drop bits (unread r)
           \<and> br_pos r' \<le> length (br_buf r') * 8"
    and "br_over r' \<Longrightarrow> v = 0 \<and> unread r' = unread r"
proof -
  have len: "length (unread r) = length (br_buf r) * 8 - br_pos r" by (simp add: unread_def)
  consider "bits = 0" | "0 < bits" "length (br_buf r) * 8 < br_pos r + bits"
    | "0 < bits" "br_pos r + bits \<le> length (br_buf r) * 8" by linarith
  then have "(br_over r' \<longleftrightarrow> length (unread r) < bits)
      \<and> (\<not> br_over r' \<longrightarrow> field v bits = take bits (unread r) \<and> take_bit bits v = v
           \<and> unread r' = drop bits (unread r) \<and> br_pos r' \<le> length (br_buf r') * 8)
      \<and> (br_over r' \<longrightarrow> v = 0 \<and> unread r' = unread r)"
  proof cases
    case 1
    with r' here show ?thesis by (auto simp: read_bits_def field_def)
  next
    case 2
    with r' here show ?thesis by (auto simp: read_bits_def len unread_def)
  next
    case 3
    note at = read_bits_here [OF 3(1) assms(1) here(1) 3(2)]
    have r'': "r' = r\<lparr>br_pos := br_pos r + bits\<rparr>" using at(1) r' by simp
    have v: "bit v k \<longleftrightarrow> k < bits \<and> bit_at (br_buf r) (br_pos r + k)" for k using at(2) [of k] r' by simp
    have "take_bit bits v = v" by (rule bit_eqI) (auto simp: bit_take_bit_iff v)
    moreover have "field v bits = take bits (unread r)"
      using 3(2) by (intro nth_equalityI) (auto simp: field_def unread_def v)
    moreover have "unread r' = drop bits (unread r)"
      by (simp add: r'' unread_def drop_map)
    ultimately show ?thesis using 3 here(1) by (simp add: r'' len)
  qed
  then show "br_over r' \<longleftrightarrow> length (unread r) < bits"
    and "\<not> br_over r' \<Longrightarrow> field v bits = take bits (unread r) \<and> take_bit bits v = v \<and> unread r' = drop bits (unread r)
           \<and> br_pos r' \<le> length (br_buf r') * 8"
    and "br_over r' \<Longrightarrow> v = 0 \<and> unread r' = unread r"
    by simp_all
qed


section \<open>Records of fields\<close>

text \<open>Fields written one after the other, straight to the writer or through a packer, and read back
  by their widths.\<close>

definition write_fields :: "(32 word \<times> nat) list \<Rightarrow> bit_writer \<Rightarrow> bit_writer" where
  "write_fields fs w = fold (\<lambda>(v, b). write_bits v b) fs w"

definition pack_fields :: "(32 word \<times> nat) list \<Rightarrow> bit_writer \<Rightarrow> bit_writer" where
  "pack_fields fs w = packer_finish (fold (\<lambda>(v, b). pack_bits v b) fs (packer_new w))"

fun read_fields :: "nat list \<Rightarrow> bit_reader \<Rightarrow> 32 word list \<times> bit_reader" where
  "read_fields [] r = ([], r)"
| "read_fields (b # bs) r =
     (let (v, r') = read_bits b r; (vs, r'') = read_fields bs r' in (v # vs, r''))"

definition field_bits :: "(32 word \<times> nat) list \<Rightarrow> bool list" where
  "field_bits fs = concat (map (\<lambda>(v, b). field v b) fs)"

definition widths_ok :: "(32 word \<times> nat) list \<Rightarrow> bool" where
  "widths_ok fs \<longleftrightarrow> (\<forall>f \<in> set fs. snd f \<le> 32)"

lemma field_bits_simps [simp]:
  "field_bits [] = []" "field_bits ((v, b) # fs) = field v b @ field_bits fs"
  by (simp_all add: field_bits_def)

lemma length_field [simp]: "length (field v b) = b"
  by (simp add: field_def)

lemma length_field_bits: "length (field_bits fs) = sum_list (map snd fs)"
  by (induction fs) auto

lemma widths_ok_simps [simp]: "widths_ok []" "widths_ok ((v, b) # fs) \<longleftrightarrow> b \<le> 32 \<and> widths_ok fs"
  by (simp_all add: widths_ok_def)

lemma write_fields_simps [simp]:
  "write_fields [] w = w" "write_fields ((v, b) # fs) w = write_fields fs (write_bits v b w)"
  by (simp_all add: write_fields_def)

lemma length_written [simp]: "length (written w) = bw_pos w"
  by (simp add: written_def)

lemma overflowed_stays: "bw_over w \<Longrightarrow> bw_over (write_bits v b w)"
  by (simp add: write_bits_def)

lemma overflowed_fields_stay: "bw_over w \<Longrightarrow> bw_over (write_fields fs w)"
  by (induction fs arbitrary: w) (auto simp: overflowed_stays)

lemma written_fields:
  assumes "writer_ok w" and "widths_ok fs" and "\<not> bw_over w" and "w' = write_fields fs w"
  shows "writer_ok w' \<and> bw_limit w' = bw_limit w \<and> length (bw_buf w') = length (bw_buf w)
       \<and> (bw_over w' \<longleftrightarrow> bw_limit w < bw_pos w + length (field_bits fs))
       \<and> (\<not> bw_over w' \<longrightarrow> written w' = written w @ field_bits fs)"
  using assms
proof (induction fs arbitrary: w)
  case Nil
  then show ?case by (simp add: writer_ok_def)
next
  case (Cons f fs)
  obtain v b where f: "f = (v, b)" by force
  have b: "b \<le> 32" using Cons.prems(2) f by simp
  define u where "u = write_bits v b w"
  note u = write_refines_lemma [OF Cons.prems(1) b u_def]
  have w': "w' = write_fields fs u" using Cons.prems(4) by (simp add: f u_def)
  show ?case
  proof (cases "bw_over u")
    case True
    then have over: "bw_over w'" by (simp add: w' overflowed_fields_stay)
    have keeps: "writer_ok (write_fields gs x) \<and> bw_limit (write_fields gs x) = bw_limit x
        \<and> length (bw_buf (write_fields gs x)) = length (bw_buf x)" if "writer_ok x" "widths_ok gs" for x gs
      using that
    proof (induction gs arbitrary: x)
      case (Cons g gs)
      obtain v b where "g = (v, b)" by force
      with Cons.IH [of "write_bits v b x"] Cons.prems write_refines_lemma [OF Cons.prems(1) _ refl, of b v]
      show ?case by simp
    qed simp
    have "bw_limit w < bw_pos w + b" using True u Cons.prems(3) by simp
    then show ?thesis using over keeps [of u fs] u Cons.prems(2) by (simp add: w' f)
  next
    case False
    have "written u = written w @ field v b" using False u by simp
    moreover from arg_cong [OF this, of length] have "bw_pos u = bw_pos w + b" by simp
    ultimately show ?thesis using Cons.IH [of u] False u Cons.prems(2) w' by (simp add: f add.assoc)
  qed
qed

lemma read_fields_take:
  assumes "widths_ok fs" and "\<not> br_over r" and "br_pos r \<le> length (br_buf r) * 8"
    and "unread r = field_bits fs @ rest" and "read_fields (map snd fs) r = (vs, r')"
  shows "vs = map (\<lambda>(v, b). take_bit b v) fs \<and> \<not> br_over r' \<and> unread r' = rest"
  using assms
proof (induction fs arbitrary: r vs)
  case Nil
  then show ?case by simp
next
  case (Cons f fs)
  obtain v b where f: "f = (v, b)" by force
  obtain x q where q: "read_bits b r = (x, q)" by force
  obtain xs where xs: "read_fields (map snd fs) q = (xs, r')" "vs = x # xs"
    using Cons.prems(5) q by (auto simp: f split: prod.splits)
  have b: "b \<le> 32" using Cons.prems(1) f by simp
  note one = read_refines_lemma [OF b q Cons.prems(2,3)]
  have "\<not> br_over q" using one(1) Cons.prems(4) by (simp add: f)
  note this(1) one(2) [OF this(1)]
  then have q': "field x b = field v b" "take_bit b x = x" "unread q = field_bits fs @ rest"
      "br_pos q \<le> length (br_buf q) * 8"
    using Cons.prems(4) by (simp_all add: f)
  have "x = take_bit b v"
  proof (rule bit_eqI)
    fix n
    have "\<forall>n<b. bit x n \<longleftrightarrow> bit v n" using q'(1) by (simp add: field_def)
    then show "bit x n \<longleftrightarrow> bit (take_bit b v) n" by (subst q'(2) [symmetric]) (auto simp: bit_take_bit_iff)
  qed
  with Cons.IH [OF _ \<open>\<not> br_over q\<close> q'(4,3) xs(1)] Cons.prems(1) show ?case by (simp add: f xs(2))
qed

text \<open>The bytes written are the part of the buffer a datagram carries.\<close>

lemma unread_sent:
  assumes "writer_ok w"
  shows "\<exists>pad. unread (br_new (take (bytes_written w) (bw_buf w))) = written w @ pad"
proof -
  have n: "bytes_written w \<le> length (bw_buf w)" "bw_pos w \<le> bytes_written w * 8"
    using assms div_ceil_8 [of "bw_pos w"] by (auto simp: writer_ok_def bytes_written_def mult.commute)
  let ?r = "br_new (take (bytes_written w) (bw_buf w))"
  have "take (bw_pos w) (unread ?r) = written w"
    using n by (intro nth_equalityI) (auto simp: unread_def br_new_def written_def bit_at_def less_mult_imp_div_less)
  then show ?thesis by (metis append_take_drop_id)
qed


section \<open>The packer writes what the writer would\<close>

definition packed_so_far :: "bit_writer \<Rightarrow> bool list \<Rightarrow> packer \<Rightarrow> bool" where
  "packed_so_far w bs p \<longleftrightarrow> writer_ok (pk_w p) \<and> bw_limit (pk_w p) = bw_limit w \<and> pk_n p < 32
     \<and> (\<forall>k. bit (pk_acc p) k \<longrightarrow> k < pk_n p)
     \<and> (if bw_over (pk_w p) then bw_limit w < bw_pos w + length bs
        else written (pk_w p) @ field (pk_acc p) (pk_n p) = written w @ bs)"

lemma packed_step:
  assumes p: "packed_so_far w bs p" and b: "b \<le> 32"
  shows "packed_so_far w (bs @ field v b) (pack_bits v b p)"
proof (cases "b = 0")
  case True
  with p show ?thesis by (simp add: pack_bits_def field_def)
next
  case False
  let ?n = "pk_n p"
  define acc where "acc = pk_acc p OR push_bit ?n (low_bits b (ucast v))"
  have n: "?n < 32" and inside: "\<And>k. bit (pk_acc p) k \<Longrightarrow> k < ?n" and ok: "writer_ok (pk_w p)"
    and lim: "bw_limit (pk_w p) = bw_limit w" using p by (auto simp: packed_so_far_def)
  have bits: "bit acc k \<longleftrightarrow> k < ?n \<and> bit (pk_acc p) k \<or> ?n \<le> k \<and> k < ?n + b \<and> bit v (k - ?n)" for k
    using n b inside [of k] bit_imp_le_length [of v "k - ?n"]
    by (auto simp: acc_def bit_simps bit_low_bits)
  have acc: "field acc (?n + b) = field (pk_acc p) ?n @ field v b"
    by (auto simp: field_def map_upt_split bits)
  show ?thesis
  proof (cases "32 \<le> ?n + b")
    case False
    then have "pack_bits v b p = p\<lparr>pk_acc := acc, pk_n := ?n + b\<rparr>"
      using \<open>b \<noteq> 0\<close> by (simp add: pack_bits_def Let_def acc_def)
    then show ?thesis using p False acc by (auto simp: packed_so_far_def bits simp flip: append_assoc)
  next
    case True
    define u where "u = write_bits (ucast acc) 32 (pk_w p)"
    have q: "pack_bits v b p = p\<lparr>pk_w := u, pk_acc := drop_bit 32 acc, pk_n := ?n + b - 32\<rparr>"
      using True \<open>b \<noteq> 0\<close> by (simp add: pack_bits_def Let_def acc_def u_def)
    note u = write_refines_lemma [OF ok order.refl u_def, unfolded length_written]
    have split: "field acc (?n + b) = field (ucast acc :: 32 word) 32 @ field (drop_bit 32 acc) (?n + b - 32)"
      using map_upt_split [of "bit acc" 32 "?n + b - 32"] True
      by (simp add: field_def bit_simps)
    have left: "bit (drop_bit 32 acc) k \<Longrightarrow> k < ?n + b - 32" for k
      by (auto simp: bit_simps bits)
    have size: "bw_pos (pk_w p) + ?n = bw_pos w + length bs" if "\<not> bw_over (pk_w p)"
    proof -
      have "written (pk_w p) @ field (pk_acc p) ?n = written w @ bs" using p that by (simp add: packed_so_far_def)
      from arg_cong [OF this, of length] show ?thesis by simp
    qed
    show ?thesis
    proof (cases "bw_over u")
      case over: True
      have "bw_limit w < bw_pos w + length bs + b"
      proof (cases "bw_over (pk_w p)")
        case True
        with p show ?thesis by (simp add: packed_so_far_def)
      next
        case fresh: False
        with over u have "bw_limit (pk_w p) < bw_pos (pk_w p) + 32" by blast
        with size [OF fresh] True lim show ?thesis by linarith
      qed
      then show ?thesis using over u lim left n b by (simp add: packed_so_far_def q)
    next
      case False
      then have "written u = written (pk_w p) @ field (ucast acc :: 32 word) 32" and "\<not> bw_over (pk_w p)"
        using u by auto
      with p have held: "written (pk_w p) @ field (pk_acc p) ?n = written w @ bs" by (simp add: packed_so_far_def)
      have "written u @ field (drop_bit 32 acc) (?n + b - 32) = written (pk_w p) @ field acc (?n + b)"
        by (simp add: split \<open>written u = _\<close>)
      also have "\<dots> = written w @ bs @ field v b" by (simp add: acc held [THEN arg_cong, of "\<lambda>xs. xs @ _", simplified])
      finally have "written u @ field (drop_bit 32 acc) (?n + b - 32) = written w @ bs @ field v b" .
      then show ?thesis using False u lim left n b by (simp add: packed_so_far_def q)
    qed
  qed
qed

lemma packed_fields:
  "packed_so_far w bs p \<Longrightarrow> widths_ok fs \<Longrightarrow>
   packed_so_far w (bs @ field_bits fs) (fold (\<lambda>(v, b). pack_bits v b) fs p)"
proof (induction fs arbitrary: bs p)
  case (Cons f fs)
  obtain v b where "f = (v, b)" by force
  with Cons.IH [OF packed_step [OF Cons.prems(1)], of b v] Cons.prems(2) show ?case by simp
qed simp

lemma pack_fields_written:
  assumes ok: "writer_ok w" and fs: "widths_ok fs" and fresh: "\<not> bw_over w" and w': "w' = pack_fields fs w"
  shows "(bw_over w' \<longleftrightarrow> bw_limit w < bw_pos w + length (field_bits fs))
       \<and> (\<not> bw_over w' \<longrightarrow> written w' = written w @ field_bits fs)"
proof -
  define p where "p = fold (\<lambda>(v, b). pack_bits v b) fs (packer_new w)"
  have "packed_so_far w [] (packer_new w)"
    using ok fresh by (simp add: packed_so_far_def packer_new_def field_def)
  from packed_fields [OF this fs] have p: "packed_so_far w (field_bits fs) p" by (simp add: p_def)
  then have n: "pk_n p \<le> 32" and okp: "writer_ok (pk_w p)" and lim: "bw_limit (pk_w p) = bw_limit w"
    by (auto simp: packed_so_far_def)
  have fin: "w' = write_bits (ucast (pk_acc p)) (pk_n p) (pk_w p)"
    by (simp add: w' pack_fields_def packer_finish_def p_def)
  note f = write_refines_lemma [OF okp n fin, unfolded length_written]
  have cast: "field (ucast (pk_acc p) :: 32 word) (pk_n p) = field (pk_acc p) (pk_n p)"
    using n by (auto simp: field_def bit_simps)
  show ?thesis
  proof (cases "bw_over (pk_w p)")
    case True
    with p f show ?thesis by (simp add: packed_so_far_def)
  next
    case False
    with p have all: "written (pk_w p) @ field (pk_acc p) (pk_n p) = written w @ field_bits fs"
      by (simp add: packed_so_far_def)
    from arg_cong [OF this, of length] have "bw_pos (pk_w p) + pk_n p = bw_pos w + length (field_bits fs)" by simp
    with f False lim all cast show ?thesis by simp
  qed
qed

lemma writer_new_ok: "writer_ok (bw_new buf)" "writer_ok (bw_with_limit buf n)"
    "\<not> bw_over (bw_new buf)" "\<not> bw_over (bw_with_limit buf n)" "written (bw_new buf) = []"
    "written (bw_with_limit buf n) = []"
  by (simp_all add: writer_ok_def bw_new_def bw_with_limit_def written_def)

text \<open>C28: Writing refines appending to a list of bits: a field of at most 32 bits is appended, least
  significant bit first, to what is written, the overflow flag is set exactly when there is no room
  under the limit (or was set before) and then nothing is appended, and the buffer keeps its length.\<close>
theorem writing_appends_the_field:
  assumes "writer_ok w" and "bits \<le> 32"
  shows "let w' = write_bits v bits w in
      writer_ok w' \<and> length (bw_buf w') = length (bw_buf w)
    \<and> (bw_over w' \<longleftrightarrow> bw_over w \<or> bw_limit w < length (written w) + bits)
    \<and> written w' = (if bw_over w' then written w else written w @ field v bits)"
  using write_refines_lemma [OF assms refl] by (simp add: Let_def)

theorem writing_appends_the_field_witness:
  "let w' = write_bits (37 :: 32 word) 6 (bw_new [0, 0]) in
      writer_ok w' \<and> length (bw_buf w') = length (bw_buf (bw_new [0, 0]))
    \<and> (bw_over w' \<longleftrightarrow> bw_over (bw_new [0, 0])
         \<or> bw_limit (bw_new [0, 0]) < length (written (bw_new [0, 0])) + 6)
    \<and> written w' = (if bw_over w' then written (bw_new [0, 0]) else written (bw_new [0, 0]) @ field (37 :: 32 word) 6)"
  by (rule writing_appends_the_field) (simp_all add: writer_new_ok)

text \<open>C29: Round trip: fields written one after the other into a buffer, in whatever state it was left,
  under a limit they fit, and read back by their widths from the bytes written, are the low bits of
  the values written; and the writer overflows exactly when they do not fit.\<close>
theorem fields_are_read_as_written:
  assumes "widths_ok fs"
  shows "let w = write_fields fs (bw_with_limit buf n);
             (vs, r) = read_fields (map snd fs) (br_new (take (bytes_written w) (bw_buf w)))
         in (bw_over w \<longleftrightarrow> min (length buf) n * 8 < sum_list (map snd fs))
          \<and> (\<not> bw_over w \<longrightarrow> bytes_written w \<le> min (length buf) n \<and> \<not> br_over r
               \<and> vs = map (\<lambda>(v, b). take_bit b v) fs)"
proof -
  define w where "w = write_fields fs (bw_with_limit buf n)"
  let ?r = "br_new (take (bytes_written w) (bw_buf w))"
  obtain vs r where read: "read_fields (map snd fs) ?r = (vs, r)" by force
  note w = written_fields [OF writer_new_ok(2) assms writer_new_ok(4) w_def]
  have over: "bw_over w \<longleftrightarrow> min (length buf) n * 8 < sum_list (map snd fs)"
    using w by (simp add: length_field_bits bw_with_limit_def)
  have "bytes_written w \<le> min (length buf) n \<and> \<not> br_over r \<and> vs = map (\<lambda>(v, b). take_bit b v) fs"
    if fits: "\<not> bw_over w"
  proof -
    have "bw_pos w \<le> 8 * min (length buf) n" using w by (simp add: writer_ok_def bw_with_limit_def mult.commute)
    then have "bytes_written w \<le> min (length buf) n" unfolding bytes_written_def by (rule div_ceil_8(2))
    moreover obtain pad where "unread ?r = field_bits fs @ pad"
      using unread_sent [of w] w fits by (auto simp: writer_new_ok)
    from read_fields_take [OF assms _ _ this read] have "vs = map (\<lambda>(v, b). take_bit b v) fs \<and> \<not> br_over r"
      by (simp add: br_new_def)
    ultimately show ?thesis by simp
  qed
  with over read show ?thesis by (simp add: w_def Let_def)
qed

theorem fields_are_read_as_written_witness:
  "let fs = [(5, 3), (0xABCD, 16), (0xFFFFFFFF, 32), (1, 1)];
       w = write_fields fs (bw_with_limit (replicate 9 0xEE) 7);
       (vs, r) = read_fields (map snd fs) (br_new (take (bytes_written w) (bw_buf w)))
   in (bw_over w \<longleftrightarrow> min (length (replicate 9 (0xEE :: 8 word))) 7 * 8 < sum_list (map snd fs))
    \<and> (\<not> bw_over w \<longrightarrow> bytes_written w \<le> min (length (replicate 9 (0xEE :: 8 word))) 7 \<and> \<not> br_over r
         \<and> vs = map (\<lambda>(v, b). take_bit b v) fs)"
  by (subst Let_def, rule fields_are_read_as_written) simp

text \<open>C30: A record packed into a word first writes the same as one written field by field: the same
  overflow flag, and when it fits the same bits and the same position.\<close>
theorem packing_writes_the_same:
  assumes "writer_ok w" and "\<not> bw_over w" and "widths_ok fs"
  shows "(bw_over (pack_fields fs w) \<longleftrightarrow> bw_over (write_fields fs w))
    \<and> (\<not> bw_over (pack_fields fs w) \<longrightarrow>
         written (pack_fields fs w) = written (write_fields fs w)
       \<and> bits_written (pack_fields fs w) = bits_written (write_fields fs w))"
proof -
  note pk = pack_fields_written [OF assms(1,3,2) refl]
  note wr = written_fields [OF assms(1,3,2) refl]
  have "bits_written u = length (written u)" for u by (simp add: bits_written_def)
  with pk wr show ?thesis by metis
qed

theorem packing_writes_the_same_witness:
  "let w = bw_new [0, 0, 0, 0, 0, 0]; fs = [(3, 4), (0x1FFFF, 17), (0x12345, 20)] in
     (bw_over (pack_fields fs w) \<longleftrightarrow> bw_over (write_fields fs w))
    \<and> (\<not> bw_over (pack_fields fs w) \<longrightarrow>
         written (pack_fields fs w) = written (write_fields fs w)
       \<and> bits_written (pack_fields fs w) = bits_written (write_fields fs w))"
  unfolding Let_def by (rule packing_writes_the_same) (simp_all add: writer_new_ok)

lemma rewind_keeps_the_prefix:
  assumes "writer_ok w" and "pos \<le> bw_pos w"
  shows "writer_ok (rewind pos w) \<and> written (rewind pos w) = take pos (written w)"
proof
  show "writer_ok (rewind pos w)" using assms by (simp add: writer_ok_def rewind_def Let_def)
  have "bit_at (bw_buf (rewind pos w)) k = bit_at (bw_buf w) k" if k: "k < pos" for k
  proof (cases "pos mod 8 = 0 \<or> k div 8 \<noteq> pos div 8")
    case True
    then show ?thesis by (auto simp: rewind_def Let_def bit_at_def)
  next
    case False
    then have same: "k div 8 = pos div 8" "k mod 8 < pos mod 8"
      using k by (auto, metis div_mult_mod_eq nat_add_left_cancel_less)
    have "k < length (bw_buf w) * 8" using assms k by (simp add: writer_ok_def)
    then have "pos div 8 < length (bw_buf w)" unfolding same(1) [symmetric] by (rule less_mult_imp_div_less)
    then show ?thesis using False same
      unfolding rewind_def Let_def bit_at_def push_bit_of_1 mask_eq_exp_minus_1 [symmetric]
      by (simp add: bit_simps)
  qed
  then show "written (rewind pos w) = take pos (written w)"
    using assms(2) by (auto simp: written_def take_map rewind_def Let_def)
qed

text \<open>A signed value that fits in the field comes back with its sign.\<close>

lemma sign_bits:
  assumes "0 < bits" and "- (2 ^ (bits - 1)) \<le> sint v" "sint v < 2 ^ (bits - 1)" and "bits \<le> k" "k < 32"
  shows "bit (v :: 32 word) k \<longleftrightarrow> bit v (bits - 1)"
proof -
  have "signed_take_bit (bits - 1) (sint v) = sint v"
    using assms(2,3) by (rule signed_take_bit_int_eq_self)
  then have "bit (sint v) k = bit (signed_take_bit (bits - 1) (sint v)) k" by simp
  also have "\<dots> = bit (sint v) (bits - 1)"
    using assms(1,4) by (auto simp: bit_signed_take_bit_iff min_def not_le)
  finally have "bit (sint v) k = bit (sint v) (bits - 1)" .
  moreover have "bit (sint v) j = bit v j" if "j < 32" for j
    using that by (simp add: bit_sint_iff min_def)
  ultimately show ?thesis using assms(1,4,5) by simp
qed

lemma sign_extend_fits:
  assumes "0 < bits" "bits \<le> 32" and "- (2 ^ (bits - 1)) \<le> sint v" "sint v < 2 ^ (bits - 1)"
  shows "sign_extend bits (take_bit bits v) = Some (v :: 32 word)"
proof (cases "bits = 32")
  case True
  then show ?thesis by (simp add: sign_extend_def take_bit_word_eq_self)
next
  case False
  have "signed_drop_bit (32 - bits) (push_bit (32 - bits) (take_bit bits v)) = v"
  proof (rule bit_word_eqI)
    fix k
    assume k: "k < LENGTH(32)"
    show "bit (signed_drop_bit (32 - bits) (push_bit (32 - bits) (take_bit bits v))) k = bit v k"
      using k assms(1,2) False sign_bits [OF assms(1,3,4), of k]
      by (auto simp: bit_signed_drop_bit_iff bit_simps)
  qed
  then show ?thesis using False assms(1,2) by (simp add: sign_extend_def)
qed


text \<open>Round trip of signed fields: an \<open>i32\<close> that fits in two's complement in a field of 1 to 32 bits,
  written wherever the writer stands with room for it, is read back there with its sign, whatever
  the field before it was.\<close>
theorem signed_fields_are_read_as_written:
  assumes "0 < bits" "bits \<le> 32" and "- (2 ^ (bits - 1)) \<le> sint v" "sint v < 2 ^ (bits - 1)"
    and "writer_ok w" "\<not> bw_over w" "bits \<le> bw_remaining w"
  shows "let w' = write_i32 v bits w;
             r = (br_new (take (bytes_written w') (bw_buf w')))\<lparr>br_pos := bits_written w\<rparr>
         in fst (read_i32 bits r) = Some v"
proof -
  define w' where "w' = write_i32 v bits w"
  note f = write_refines_lemma [OF assms(5,2) w'_def [unfolded write_i32_def]]
  have "\<not> bw_over w'" using f assms(5,6,7) by (simp add: bw_remaining_def writer_ok_def)
  with f have w': "writer_ok w'" "written w' = written w @ field v bits" by auto
  define q where "q = br_new (take (bytes_written w') (bw_buf w'))"
  obtain pad where pad: "unread q = written w @ field v bits @ pad"
    using unread_sent [OF w'(1)] w'(2) by (auto simp: q_def)
  define r where "r = q\<lparr>br_pos := bits_written w\<rparr>"
  have "unread r = drop (bits_written w) (unread q)"
    by (simp add: r_def unread_def q_def br_new_def drop_map)
  then have "unread r = field_bits [(v, bits)] @ pad" by (simp add: pad bits_written_def)
  moreover have "bw_pos w \<le> length (br_buf q) * 8"
    using arg_cong [OF pad, of length] by (simp add: unread_def q_def br_new_def)
  moreover obtain x r' where x: "read_bits bits r = (x, r')" by force
  ultimately have "fst (read_bits bits r) = take_bit bits v"
    using read_fields_take [of "[(v, bits)]" r pad "[x]" r'] assms(2)
    by (simp add: r_def q_def br_new_def bits_written_def)
  then have "fst (read_i32 bits r) = Some v"
    using sign_extend_fits [OF assms(1-4)] by (simp add: read_i32_def split_beta)
  then show ?thesis by (simp add: r_def q_def w'_def Let_def)
qed

theorem signed_fields_are_read_as_written_witness:
  "let w' = write_i32 (- 5) 4 (write_bits 9 7 (bw_new [0, 0]));
       r = (br_new (take (bytes_written w') (bw_buf w')))\<lparr>br_pos := bits_written (write_bits 9 7 (bw_new [0, 0]))\<rparr>
   in fst (read_i32 4 r) = Some (- 5)"
proof (rule signed_fields_are_read_as_written)
  note w = write_refines_lemma [OF writer_new_ok(1) [of "[0, 0]"] _ refl, of 7 9]
  show "writer_ok (write_bits 9 7 (bw_new [0, 0]))" using w by simp
  show "\<not> bw_over (write_bits 9 7 (bw_new [0, 0]))" by (simp add: write_bits_def bw_new_def Let_def)
  show "4 \<le> bw_remaining (write_bits 9 7 (bw_new [0, 0]))"
    by (simp add: write_bits_def bw_new_def bw_remaining_def Let_def)
qed simp_all

end
