(* ===== verification/Acks.thy ===== *)
theory Acks
  imports Prelude "HOL-Library.Word"
begin

unbundle bit_operations_syntax

text \<open>
  Which snapshot datagrams a client has (\<open>crates/bc-proto/src/ack.rs\<close>): the streams, the full sequence
  number from its low 16 bits, and the window a client keeps of what it took. Streams and seats are
  numbers below 256, sequence numbers and ticks numbers below \<open>2^32\<close> (saturating where the code
  saturates), the mask is a \<open>64 word\<close>. The specification keeps the whole list of the sequence numbers
  taken on the stream in hand; the window is a faithful summary of its last 64.
\<close>

section \<open>Streams and sequence numbers\<close>

definition SECTOR_BITS :: nat where "SECTOR_BITS = 2"

definition MAX_EPOCH :: nat where "MAX_EPOCH = 2 ^ (8 - SECTOR_BITS) - 1"

definition stream :: "nat \<Rightarrow> nat \<Rightarrow> nat" where
  "stream sector epoch =
     (push_bit (8 - SECTOR_BITS) (sector mod 2 ^ SECTOR_BITS)) OR max 1 (min MAX_EPOCH epoch)"

definition next_epoch :: "nat \<Rightarrow> nat" where
  "next_epoch epoch = (if MAX_EPOCH \<le> epoch then 1 else epoch + 1)"

definition expand :: "nat \<Rightarrow> nat \<Rightarrow> nat" where
  "expand seq near =
     (let candidate = near div 0x10000 * 0x10000 + seq
      in if sat32 (near + 0x8000) \<le> candidate \<and> 0x10000 \<le> candidate then candidate - 0x10000
         else if sat32 (candidate + 0x8000) < near then sat32 (candidate + 0x10000)
         else candidate)"

section \<open>The client's window\<close>

datatype verdict = Stale | Next nat | NewStream nat | Unsequenced

record ack_window =
  aw_stream :: nat
  aw_newest :: nat
  aw_mask :: "64 word"
  aw_tick :: nat
  aw_any :: bool

definition ack_window_default :: ack_window where
  "ack_window_default = \<lparr>aw_stream = 0, aw_newest = 0, aw_mask = 0, aw_tick = 0, aw_any = False\<rparr>"

definition check :: "ack_window \<Rightarrow> nat \<Rightarrow> nat \<Rightarrow> nat \<Rightarrow> verdict" where
  "check w st seq tick =
     (let newer_tick = (\<not> aw_any w \<or> aw_tick w < tick)
      in if st = 0 then (if newer_tick then Unsequenced else Stale)
         else if st = aw_stream w \<and> aw_mask w \<noteq> 0
         then (let s = expand seq (aw_newest w) in if aw_newest w < s then Next s else Stale)
         else if newer_tick then NewStream seq else Stale)"

definition commit :: "nat \<Rightarrow> verdict \<Rightarrow> nat \<Rightarrow> ack_window \<Rightarrow> ack_window" where
  "commit st v tick w =
     (let seen = (\<lambda>w. w\<lparr>aw_tick := max (aw_tick w) tick, aw_any := True\<rparr>)
      in case v of
        Stale \<Rightarrow> w
      | Unsequenced \<Rightarrow> seen w
      | NewStream s \<Rightarrow> seen (w\<lparr>aw_stream := st, aw_newest := s, aw_mask := 1\<rparr>)
      | Next s \<Rightarrow>
          let gap = s - aw_newest w
          in seen (w\<lparr>aw_mask := (if 64 \<le> gap then 1 else push_bit gap (aw_mask w) OR 1), aw_newest := s\<rparr>))"

definition ack :: "ack_window \<Rightarrow> nat \<times> nat \<times> 32 word" where
  "ack w =
     (if aw_mask w = 0 then (0, 0, 0)
      else (aw_stream w, aw_newest w mod 0x10000, ucast (drop_bit 1 (aw_mask w))))"

section \<open>Streams\<close>

lemma or_disjoint: "m < 64 \<Longrightarrow> push_bit 6 (n :: nat) OR m = 64 * n + m"
proof -
  assume m: "m < 64"
  have low: "bit m k \<Longrightarrow> k < 6" for k
    using m take_bit_nat_eq_self_iff [of 6 m] bit_take_bit_iff [of 6 m k] by simp
  have "push_bit 6 n AND m = 0" by (rule bit_eqI) (auto simp: bit_simps dest: low)
  from disjunctive_add_eq_or [OF this] show ?thesis by (simp add: push_bit_eq_mult mult.commute)
qed

lemma stream_parts: "stream s e = 64 * (s mod 4) + max 1 (min 63 e)"
  using or_disjoint [of "max 1 (min 63 e)" "s mod 4"] by (simp add: stream_def SECTOR_BITS_def MAX_EPOCH_def)

lemma stream_decoded: "stream s e div 64 = s mod 4" "stream s e mod 64 = max 1 (min 63 e)"
proof -
  have "max 1 (min 63 e) < 64" by simp
  then show "stream s e div 64 = s mod 4" "stream s e mod 64 = max 1 (min 63 e)"
    unfolding stream_parts by simp_all
qed

text \<open>A stream names its sector and its seat: it is a nonzero byte, two streams are the same only
  for sectors equal modulo 4 and the same seat, and a client seated again in the same sector is
  never on the stream it had.\<close>
theorem streams_name_sector_and_seat:
  assumes "1 \<le> e" "1 \<le> e'"
  shows "stream s e \<noteq> 0 \<and> stream s e < 256
    \<and> (stream s e = stream s' e' \<longleftrightarrow> s mod 4 = s' mod 4 \<and> min 63 e = min 63 e')
    \<and> stream s (next_epoch e) \<noteq> stream s e \<and> 1 \<le> next_epoch e \<and> next_epoch e \<le> MAX_EPOCH"
proof (intro conjI)
  show "stream s e \<noteq> 0" unfolding stream_parts by simp
  have "s mod 4 < 4" "max 1 (min 63 e) < 64" by simp_all
  then show "stream s e < 256" unfolding stream_parts by linarith
  show "stream s e = stream s' e' \<longleftrightarrow> s mod 4 = s' mod 4 \<and> min 63 e = min 63 e'"
    using stream_decoded [of s e] stream_decoded [of s' e'] assms
    by (auto simp: max_absorb2) (auto simp: stream_parts)
  show "stream s (next_epoch e) \<noteq> stream s e"
    using assms(1) by (auto simp: stream_parts next_epoch_def MAX_EPOCH_def SECTOR_BITS_def max_def min_def split: if_splits)
  show "1 \<le> next_epoch e" "next_epoch e \<le> MAX_EPOCH"
    by (auto simp: next_epoch_def MAX_EPOCH_def SECTOR_BITS_def)
qed

theorem streams_name_sector_and_seat_witness:
  "stream 3 63 \<noteq> 0 \<and> stream 3 63 < 256
    \<and> (stream 3 63 = stream 1 1 \<longleftrightarrow> (3 :: nat) mod 4 = 1 mod 4 \<and> min 63 63 = min 63 (1 :: nat))
    \<and> stream 3 (next_epoch 63) \<noteq> stream 3 63 \<and> 1 \<le> next_epoch 63 \<and> next_epoch 63 \<le> MAX_EPOCH"
  by (rule streams_name_sector_and_seat) simp_all

section \<open>The full sequence number\<close>

lemma expand_near:
  assumes "near + 0x8000 \<le> u32_max" and "full < near + 0x8000" "near \<le> full + 0x8000"
  shows "expand (full mod 0x10000) near = full"
proof -
  define a l b m where "a = near div 0x10000" and "l = near mod 0x10000"
    and "b = full div 0x10000" and "m = full mod 0x10000"
  have n: "near = a * 0x10000 + l" "l < 0x10000" and f: "full = b * 0x10000 + m" "m < 0x10000"
    by (simp_all add: a_def l_def b_def m_def)
  have "b = a \<or> b = a + 1 \<or> b + 1 = a" using assms(2,3) n f by linarith
  moreover have "expand m near =
      (if near + 0x8000 \<le> a * 0x10000 + m \<and> 0x10000 \<le> a * 0x10000 + m then a * 0x10000 + m - 0x10000
       else if a * 0x10000 + m + 0x8000 < near then sat32 (a * 0x10000 + m + 0x10000) else a * 0x10000 + m)"
    using assms(1) by (simp add: expand_def Let_def sat32_def min_def flip: a_def)
  moreover have "sat32 full = full" using assms(1,2) by (simp add: sat32_def)
  ultimately show ?thesis unfolding m_def [symmetric]
    using n f assms by (auto simp: algebra_simps)
qed

text \<open>C32: A sequence number comes back whole from its low 16 bits: every number from 32768 before the
  newest to 32767 after it (the count still 32768 short of its end) is the one \<open>expand\<close> finds, so a
  window in step with the sender takes a datagram of its stream exactly when it is newer, and as
  what the sender numbered it.\<close>
theorem sequence_numbers_come_back_whole:
  assumes "aw_newest w + 0x8000 \<le> u32_max" and "full < aw_newest w + 0x8000" "aw_newest w \<le> full + 0x8000"
    and "st = aw_stream w" "st \<noteq> 0" "aw_mask w \<noteq> 0"
  shows "expand (full mod 0x10000) (aw_newest w) = full
    \<and> check w st (full mod 0x10000) tick = (if aw_newest w < full then Next full else Stale)"
  using expand_near [OF assms(1-3)] assms(4-6) by (simp add: check_def Let_def)

theorem sequence_numbers_come_back_whole_witness:
  "let w = commit 65 (NewStream 65535) 7 ack_window_default in
     expand (65537 mod 0x10000) (aw_newest w) = 65537
   \<and> check w 65 (65537 mod 0x10000) 8 = (if aw_newest w < 65537 then Next 65537 else Stale)"
  unfolding Let_def
  by (rule sequence_numbers_come_back_whole)
    (simp_all add: commit_def ack_window_default_def u32_max_def)

section \<open>The window against the whole history\<close>

text \<open>What the client has taken on the stream in hand, the newest first.\<close>

type_synonym datagram = "nat \<times> nat \<times> nat"

fun taken_after :: "verdict \<Rightarrow> nat list \<Rightarrow> nat list" where
  "taken_after (NewStream s) ts = [s]"
| "taken_after (Next s) ts = s # ts"
| "taken_after _ ts = ts"

definition receive :: "datagram \<Rightarrow> ack_window \<times> nat list \<Rightarrow> ack_window \<times> nat list" where
  "receive d W = (case d of (st, seq, tick) \<Rightarrow>
     let v = check (fst W) st seq tick in (commit st v tick (fst W), taken_after v (snd W)))"

definition window_ok :: "ack_window \<times> nat list \<Rightarrow> bool" where
  "window_ok W \<longleftrightarrow> (case W of (w, ts) \<Rightarrow>
      sorted_wrt (>) ts \<and> (aw_mask w = 0 \<longleftrightarrow> ts = [])
    \<and> (ts \<noteq> [] \<longrightarrow> aw_newest w = hd ts \<and> aw_stream w \<noteq> 0)
    \<and> (\<forall>i < 64. bit (aw_mask w) i \<longleftrightarrow> i \<le> aw_newest w \<and> aw_newest w - i \<in> set ts))"

lemma mask_shifted:
  assumes "gap < 64" "i < 64"
  shows "bit (push_bit gap m OR 1 :: 64 word) i \<longleftrightarrow> i = 0 \<or> gap \<le> i \<and> bit m (i - gap)"
  using assms by (auto simp: bit_simps)

lemma newer_mask:
  assumes ok: "window_ok (w, t # ts)" and s: "aw_newest w < s" and i: "i < 64"
  shows "bit (if 64 \<le> s - aw_newest w then 1 else push_bit (s - aw_newest w) (aw_mask w) OR 1) i
    \<longleftrightarrow> i \<le> s \<and> s - i \<in> set (s # t # ts)"
proof -
  define gap where "gap = s - aw_newest w"
  have s': "s = aw_newest w + gap" "0 < gap" using s by (simp_all add: gap_def)
  have t: "aw_newest w = t" "\<forall>x \<in> set ts. x < t"
    and bits: "\<forall>i < 64. bit (aw_mask w) i \<longleftrightarrow> i \<le> t \<and> t - i \<in> set (t # ts)"
    using ok by (auto simp: window_ok_def)
  consider "i = 0" | "0 < i" "i < gap" | "gap \<le> i" "0 < i" by linarith
  then show ?thesis
  proof cases
    case 1
    then show ?thesis using s' by (auto simp: mask_shifted simp flip: gap_def)
  next
    case 2
    then have "t < s - i" "s - i \<noteq> s" using s' t by auto
    then have "s - i \<notin> set (s # t # ts)" using t(2) by auto
    then show ?thesis using 2 i by (auto simp: mask_shifted bit_1_iff simp flip: gap_def)
  next
    case 3
    then have gap: "gap < 64" using i by simp
    have "i \<le> s \<longleftrightarrow> i - gap \<le> t" "s - i = t - (i - gap)" using 3 s' t by auto
    moreover have "t - (i - gap) \<noteq> s" using s' t by simp
    ultimately show ?thesis using 3 gap i bits s' by (auto simp: mask_shifted simp flip: gap_def)
  qed
qed

lemma receive_ok: "window_ok W \<Longrightarrow> window_ok (receive d W)"
proof -
  assume ok: "window_ok W"
  obtain w ts where W: "W = (w, ts)" by force
  obtain st seq tick where d: "d = (st, seq, tick)" by (cases d)
  define v where "v = check w st seq tick"
  have r: "receive d W = (commit st v tick w, taken_after v ts)" by (simp add: receive_def W d v_def Let_def)
  show ?thesis
  proof (cases v)
    case Stale
    from ok show ?thesis unfolding r Stale by (simp add: W commit_def)
  next
    case Unsequenced
    from ok show ?thesis unfolding r Unsequenced by (simp add: W commit_def window_ok_def)
  next
    case (NewStream s)
    then have "st \<noteq> 0" by (auto simp: v_def check_def Let_def split: if_splits)
    then show ?thesis unfolding r NewStream by (auto simp: commit_def window_ok_def bit_1_iff)
  next
    case (Next s)
    then have s: "aw_newest w < s" and m: "aw_mask w \<noteq> 0"
      by (auto simp: v_def check_def Let_def split: if_splits)
    then obtain t us where ts: "ts = t # us" using ok by (cases ts) (auto simp: W window_ok_def)
    have step: "receive d W = (commit st (Next s) tick w, s # ts)" by (simp add: r Next)
    have mask: "aw_mask (commit st (Next s) tick w)
        = (if 64 \<le> s - aw_newest w then 1 else push_bit (s - aw_newest w) (aw_mask w) OR 1)"
      and rest: "aw_newest (commit st (Next s) tick w) = s" "aw_stream (commit st (Next s) tick w) = aw_stream w"
      by (simp_all add: commit_def Let_def)
    have bits: "\<forall>i < 64. bit (aw_mask (commit st (Next s) tick w)) i \<longleftrightarrow> i \<le> s \<and> s - i \<in> set (s # ts)"
      unfolding mask ts using newer_mask [OF ok [unfolded W ts] s] by blast
    then have "bit (aw_mask (commit st (Next s) tick w)) 0" by simp
    then have "aw_mask (commit st (Next s) tick w) \<noteq> 0" by auto
    moreover have "sorted_wrt (>) (s # ts)" "aw_stream w \<noteq> 0"
      using ok s by (auto simp: window_ok_def W ts)
    ultimately show ?thesis unfolding step window_ok_def prod.case rest
      using bits by simp
  qed
qed

definition received :: "datagram list \<Rightarrow> ack_window \<times> nat list" where
  "received ds = fold receive ds (ack_window_default, [])"

lemma received_ok: "window_ok (received ds)"
proof -
  have "window_ok W \<Longrightarrow> window_ok (fold receive ds W)" for W
  proof (induction ds arbitrary: W)
    case (Cons d ds)
    from Cons.IH [OF receive_ok [OF Cons.prems]] show ?case by simp
  qed simp
  then show ?thesis by (auto simp: received_def window_ok_def ack_window_default_def)
qed

lemma received_snoc: "received (ds @ [d]) = receive d (received ds)"
  by (simp add: received_def)

text \<open>C31: After any datagrams whatever, what the client took on the stream in hand was taken in order,
  and the ack it sends is the truth about all of it: nothing before anything was taken, otherwise
  the stream, the low 16 bits of the newest, and bit \<open>i\<close> exactly when the datagram \<open>i + 1\<close> before the
  newest was taken.\<close>
theorem acks_tell_what_was_taken:
  "let (w, ts) = received ds; (st, seq, bits) = ack w in
     sorted_wrt (>) ts \<and> st = (if ts = [] then 0 else aw_stream w)
   \<and> (st = 0 \<longleftrightarrow> ts = []) \<and> seq = (if ts = [] then 0 else hd ts mod 0x10000)
   \<and> (\<forall>i < 32. bit bits i \<longleftrightarrow> ts \<noteq> [] \<and> i + 1 \<le> hd ts \<and> hd ts - (i + 1) \<in> set ts)"
proof -
  obtain w ts where W: "received ds = (w, ts)" by force
  have ok: "window_ok (w, ts)" using received_ok [of ds] by (simp add: W)
  show ?thesis
  proof (cases "ts = []")
    case True
    with ok show ?thesis by (simp add: W ack_def window_ok_def)
  next
    case False
    with ok have a: "ack w = (aw_stream w, hd ts mod 0x10000, ucast (drop_bit 1 (aw_mask w)))"
      and st: "aw_stream w \<noteq> 0" and srt: "sorted_wrt (>) ts" and nw: "aw_newest w = hd ts"
      and bits: "\<forall>i < 64. bit (aw_mask w) i \<longleftrightarrow> i \<le> hd ts \<and> hd ts - i \<in> set ts"
      by (auto simp: ack_def window_ok_def)
    have "bit (ucast (drop_bit 1 (aw_mask w)) :: 32 word) i \<longleftrightarrow> i + 1 \<le> hd ts \<and> hd ts - (i + 1) \<in> set ts"
      if "i < 32" for i
      using that bits by (simp add: bit_simps)
    with False a st srt show ?thesis by (simp add: W)
  qed
qed

text \<open>Three datagrams of one stream, the third but one missing.\<close>

definition gapped :: "datagram list" where
  "gapped = [(1, 10, 1), (1, 11, 2), (1, 13, 3)]"

lemma gap_received: "snd (received gapped) = [13, 11, 10]"
proof -
  have first: "receive (1, 10, 1) (ack_window_default, [])
      = (\<lparr>aw_stream = 1, aw_newest = 10, aw_mask = 1, aw_tick = 1, aw_any = True\<rparr>, [10])"
    by (simp add: receive_def check_def commit_def ack_window_default_def)
  have e: "expand 11 10 = 11" "expand 13 11 = 13" by (simp_all add: expand_def sat32_def u32_max_def)
  have second: "receive (1, 11, 2) (\<lparr>aw_stream = 1, aw_newest = 10, aw_mask = 1, aw_tick = 1, aw_any = True\<rparr>, [10])
      = (\<lparr>aw_stream = 1, aw_newest = 11, aw_mask = push_bit 1 1 OR 1, aw_tick = 2, aw_any = True\<rparr>, [11, 10])"
    by (simp add: receive_def check_def commit_def e Let_def)
  have "push_bit 1 1 OR 1 \<noteq> (0 :: 64 word)" by simp
  then have "snd (receive (1, 13, 3)
      (\<lparr>aw_stream = 1, aw_newest = 11, aw_mask = push_bit 1 1 OR 1, aw_tick = 2, aw_any = True\<rparr>, [11, 10])) = [13, 11, 10]"
    by (simp add: receive_def check_def e Let_def)
  then show ?thesis by (simp only: received_def gapped_def fold_simps first second)
qed

theorem acks_tell_what_was_taken_witness:
  "case ack (fst (received gapped)) of (st, seq, bits) \<Rightarrow>
     st \<noteq> 0 \<and> seq = 13 \<and> \<not> bit bits 0 \<and> bit bits 1 \<and> bit bits 2 \<and> \<not> bit bits 3"
proof -
  obtain w ts where W: "received gapped = (w, ts)" by force
  obtain st seq bits where a: "ack w = (st, seq, bits)" by (cases "ack w")
  have ts: "ts = [13, 11, 10]" using gap_received unfolding W by simp
  from acks_tell_what_was_taken [of gapped] have
    "st \<noteq> 0 \<and> seq = 13 \<and> (\<forall>i < 32. bit bits i \<longleftrightarrow> i + 1 \<le> 13 \<and> 13 - (i + 1) \<in> {13, 11, 10 :: nat})"
    by (simp add: W ts a)
  then have b: "st \<noteq> 0" "seq = 13" "\<And>i. i < 32 \<Longrightarrow> bit bits i \<longleftrightarrow> i + 1 \<le> 13 \<and> 13 - (i + 1) \<in> {13, 11, 10 :: nat}"
    by blast+
  then show ?thesis using b(3) [of 0] b(3) [of 1] b(3) [of 2] b(3) [of 3] by (simp add: W a)
qed

end
