(* ===== verification/Homes.thy ===== *)
theory Homes
  imports Hangar "HOL-Library.Word"
begin

unbundle bit_operations_syntax

text \<open>
  The colony's register of homes (\<open>crates/bc-econ/src/homes.rs\<close>) with what the colony asks for a home
  and the furniture it sells (\<open>crates/bc-sim/src/content/homes.rs\<close>), and the packed address of a home
  (\<open>HomeId\<close> in \<open>crates/bc-sim/src/colony/homes.rs\<close>). The city itself is generated from its blocks; here it is
  a parameter \<open>city\<close>: which homes it has, and which boxes of a building's walls, stairs and rails stand
  in a place. Operations return what the pilot is told (\<open>Inl\<close> a refusal, \<open>Inr\<close> a reply) with the
  register, and the hangar where they move credits or goods. Texts are constructors. The invariant and
  the properties are in theory \<open>Register\<close>.
\<close>

section \<open>A home's address\<close>

type_synonym home_id = "32 word"

definition HOUSE :: home_id where "HOUSE = push_bit 28 1"

definition home_id_new :: "nat \<Rightarrow> int \<Rightarrow> int \<Rightarrow> nat \<Rightarrow> nat \<Rightarrow> nat \<Rightarrow> bool \<Rightarrow> home_id" where
  "home_id_new strp bx row lot storey unit house =
     (let row' = max 0 (min 31 (row + 12))
      in (of_nat unit AND 15)
         OR push_bit 4 (of_nat storey AND 31)
         OR push_bit 9 (of_nat lot AND 15)
         OR push_bit 13 (of_int row')
         OR push_bit 18 (of_int (max 0 (min 255 bx)))
         OR push_bit 26 (of_nat strp AND 3)
         OR (if house then HOUSE else 0))"

definition id_unit :: "home_id \<Rightarrow> nat" where "id_unit i = unat (i AND 15)"
definition id_storey :: "home_id \<Rightarrow> nat" where "id_storey i = unat (drop_bit 4 i AND 31)"
definition id_lot :: "home_id \<Rightarrow> nat" where "id_lot i = unat (drop_bit 9 i AND 15)"
definition id_row :: "home_id \<Rightarrow> int" where "id_row i = int (unat (drop_bit 13 i AND 31)) - 12"
definition id_bx :: "home_id \<Rightarrow> int" where "id_bx i = int (unat (drop_bit 18 i AND 255))"
definition id_strip :: "home_id \<Rightarrow> nat" where "id_strip i = unat (drop_bit 26 i AND 3)"
definition id_house :: "home_id \<Rightarrow> bool" where "id_house i \<longleftrightarrow> i AND HOUSE \<noteq> 0"

section \<open>Homes, and the city they are in\<close>

record rect =
  rc_s0 :: rat
  rc_s1 :: rat
  rc_x0 :: rat
  rc_x1 :: rat

definition rect_new :: "rat \<Rightarrow> rat \<Rightarrow> rat \<Rightarrow> rat \<Rightarrow> rect" where
  "rect_new s0 s1 x0 x1 = \<lparr>rc_s0 = s0, rc_s1 = s1, rc_x0 = x0, rc_x1 = x1\<rparr>"

definition overlaps :: "rect \<Rightarrow> rect \<Rightarrow> bool" where
  "overlaps r q \<longleftrightarrow> rc_s0 r < rc_s1 q \<and> rc_s0 q < rc_s1 r \<and> rc_x0 r < rc_x1 q \<and> rc_x0 q < rc_x1 r"

definition rect_holds :: "rect \<Rightarrow> rect \<Rightarrow> bool" where
  "rect_holds r q \<longleftrightarrow> rc_s0 r \<le> rc_s0 q \<and> rc_s1 q \<le> rc_s1 r \<and> rc_x0 r \<le> rc_x0 q \<and> rc_x1 q \<le> rc_x1 r"

definition inset :: "rat \<Rightarrow> rect \<Rightarrow> rect" where
  "inset d r = rect_new (rn32 (rc_s0 r + d)) (rn32 (rc_s1 r - d)) (rn32 (rc_x0 r + d)) (rn32 (rc_x1 r - d))"

definition rect_middle :: "rect \<Rightarrow> rat \<times> rat" where
  "rect_middle r = (rn32 (rn32 (rc_s0 r + rc_s1 r) * (1 / 2)), rn32 (rn32 (rc_x0 r + rc_x1 r) * (1 / 2)))"

record city_box =
  cb_rect :: rect
  cb_h0 :: rat
  cb_h1 :: rat

datatype home_kind = Flats | Houses

datatype district =
  Civic | Business | Midtown | Residential | OldTown | University | WorksDistrict | ParkDistrict | Port

datatype view = Yard | Street | Plaza | Park | Canal | Avenue | Window

record home =
  ho_id :: home_id
  ho_kind :: home_kind
  ho_strip :: nat
  ho_district :: district
  ho_rect :: rect
  ho_floor :: rat
  ho_storeys :: nat
  ho_inside :: "rat \<times> rat"
  ho_area :: rat
  ho_top :: bool
  ho_view :: view

text \<open>\<open>colony::homes::home\<close>, and \<open>plan_at\<close> with its plan's \<open>each_box_near\<close> (whether any box there touches
  the area between the two heights).\<close>

record city =
  ct_home :: "home_id \<Rightarrow> home option"
  ct_plan_at :: "nat \<Rightarrow> rat \<Rightarrow> rat \<Rightarrow> (rect \<Rightarrow> rat \<Rightarrow> rat \<Rightarrow> bool) option"

definition KERB :: rat where "KERB = rn32 (15 / 100)"
definition GROUND_FLOOR :: rat where "GROUND_FLOOR = 5"
definition FLOOR :: rat where "FLOOR = rn32 (36 / 10)"

definition floors_height :: "nat \<Rightarrow> rat" where
  "floors_height n = rn32 (GROUND_FLOOR + rn32 (FLOOR * rn32 (of_nat (n - 1))))"

definition level_height :: "nat \<Rightarrow> rat" where
  "level_height k = (if k = 0 then KERB else floors_height k)"

section \<open>What the colony asks for a home\<close>

definition RENT_PER_M2 :: rat where "RENT_PER_M2 = 5"
definition STOREY_SHARE :: rat where "STOREY_SHARE = rn32 (3 / 100)"
definition PRICE_WEEKS :: rat where "PRICE_WEEKS = 60"
definition SELL_BACK_PCT :: nat where "SELL_BACK_PCT = 80"
definition MAX_HELD :: nat where "MAX_HELD = 2"
definition WEEK_S :: nat where "WEEK_S = 7 * 24 * 3600"
definition HOUR_S :: nat where "HOUR_S = 3600"
definition GRACE_S :: nat where "GRACE_S = 24 * HOUR_S"
definition ABANDONED_S :: nat where "ABANDONED_S = 30 * 24 * HOUR_S"

fun view_share :: "view \<Rightarrow> rat" where
  "view_share Yard = rn32 (9 / 10)"
| "view_share Street = 1"
| "view_share Plaza = rn32 (11 / 10)"
| "view_share Park = rn32 (12 / 10)"
| "view_share Canal = 5 / 4"
| "view_share Avenue = rn32 (13 / 10)"
| "view_share Window = rn32 (13 / 10)"

definition bought :: "home \<Rightarrow> bool" where
  "bought h \<longleftrightarrow> ho_kind h = Houses \<or> ho_top h"

definition rent :: "home \<Rightarrow> nat" where
  "rent h =
     (let storey = (if ho_kind h = Flats then id_storey (ho_id h) else 0);
          district = (if ho_district h = OldTown then rn32 (115 / 100) else 1);
          r = rn32 (rn32 (rn32 (rn32 (ho_area h * RENT_PER_M2)
                  * rn32 (1 + rn32 (STOREY_SHARE * rn32 (of_nat storey)))) * view_share (ho_view h)) * district)
      in max (to_nat_trunc u64_max (rn32 (rn32 (r / 10) + 1 / 2))) 1 * 10)"

definition home_price :: "home \<Rightarrow> nat" where
  "home_price h =
     to_nat_trunc u64_max (rn32 (rn32 (rn32 (rn32 (of_nat (rent h)) * PRICE_WEEKS) / 100) + 1 / 2)) * 100"

definition sell_back :: "home \<Rightarrow> nat" where
  "sell_back h = home_price h * SELL_BACK_PCT div 100"

definition hourly :: "home \<Rightarrow> nat \<Rightarrow> rat" where
  "hourly h crew =
     (let extra = rn32 (rn32 (of_nat (min (crew - 4) 6 * 2 + (crew - 10) * 4)) / 100)
      in rn32 (rn32 (rn32 (of_nat (rent h)) / rn32 (of_nat (WEEK_S div HOUR_S))) * min (rn32 (1 + extra)) 3))"

section \<open>Furniture\<close>

datatype furniture =
  Bed | Sofa | Armchair | Table | Chair | Kitchen | Wardrobe | Chest | Safe | Lamp | Screen | Plant | Rug | SuitModel

record furniture_spec =
  fs_kind :: furniture
  fs_slug :: string
  fs_size :: "rat \<times> rat \<times> rat"
  fs_price :: nat
  fs_solid :: bool
  fs_holds :: nat

definition f_spec :: "furniture \<Rightarrow> string \<Rightarrow> rat \<times> rat \<times> rat \<Rightarrow> nat \<Rightarrow> bool \<Rightarrow> nat \<Rightarrow> furniture_spec" where
  "f_spec kind slug dims price solid holds =
     \<lparr>fs_kind = kind, fs_slug = slug, fs_size = (case dims of (w, d, h) \<Rightarrow> (rn32 w, rn32 d, rn32 h)),
      fs_price = price, fs_solid = solid, fs_holds = holds\<rparr>"

definition FURNITURE :: "furniture_spec list" where
  "FURNITURE =
     [f_spec Bed ''bed'' (16 / 10, 21 / 10, 6 / 10) 900 True 0,
      f_spec Sofa ''sofa'' (22 / 10, 95 / 100, 85 / 100) 700 True 0,
      f_spec Armchair ''armchair'' (9 / 10, 9 / 10, 95 / 100) 300 True 0,
      f_spec Table ''table'' (16 / 10, 9 / 10, 75 / 100) 350 True 0,
      f_spec Chair ''chair'' (5 / 10, 5 / 10, 9 / 10) 80 True 0,
      f_spec Kitchen ''kitchen'' (24 / 10, 65 / 100, 95 / 100) 1200 True 0,
      f_spec Wardrobe ''wardrobe'' (12 / 10, 6 / 10, 2) 450 True 0,
      f_spec Chest ''chest'' (1, 6 / 10, 6 / 10) 250 True 12,
      f_spec Safe ''safe'' (7 / 10, 7 / 10, 1) 2500 True 6,
      f_spec Lamp ''lamp'' (4 / 10, 4 / 10, 16 / 10) 120 True 0,
      f_spec Screen ''screen'' (16 / 10, 3 / 10, 1) 600 True 0,
      f_spec Plant ''plant'' (5 / 10, 5 / 10, 12 / 10) 60 True 0,
      f_spec Rug ''rug'' (24 / 10, 17 / 10, 1 / 100) 200 False 0,
      f_spec SuitModel ''suit_model'' (8 / 10, 8 / 10, 14 / 10) 1500 True 0]"

fun furniture_ix :: "furniture \<Rightarrow> nat" where
  "furniture_ix Bed = 0" | "furniture_ix Sofa = 1" | "furniture_ix Armchair = 2" | "furniture_ix Table = 3"
| "furniture_ix Chair = 4" | "furniture_ix Kitchen = 5" | "furniture_ix Wardrobe = 6" | "furniture_ix Chest = 7"
| "furniture_ix Safe = 8" | "furniture_ix Lamp = 9" | "furniture_ix Screen = 10" | "furniture_ix Plant = 11"
| "furniture_ix Rug = 12" | "furniture_ix SuitModel = 13"

definition spec :: "furniture \<Rightarrow> furniture_spec" where
  "spec k = FURNITURE ! furniture_ix k"

definition furniture_from_slug :: "string \<Rightarrow> furniture option" where
  "furniture_from_slug s = map_option fs_kind (find (\<lambda>f. fs_slug f = s) FURNITURE)"

definition furniture_from_u8 :: "nat \<Rightarrow> furniture option" where
  "furniture_from_u8 k = (if k < length FURNITURE then Some (fs_kind (FURNITURE ! k)) else None)"

definition MAX_PIECES :: nat where "MAX_PIECES = 64"
definition FURNITURE_BACK_PCT :: nat where "FURNITURE_BACK_PCT = 50"
definition DOOR_CLEAR :: rat where "DOOR_CLEAR = 1"

definition floor_of :: "home \<Rightarrow> nat \<Rightarrow> rat" where
  "floor_of h storey = (if ho_kind h = Houses then level_height storey else ho_floor h)"

definition piece_box :: "home \<Rightarrow> furniture \<Rightarrow> rat \<times> rat \<Rightarrow> nat \<Rightarrow> nat \<Rightarrow> city_box" where
  "piece_box home kind spot turn storey =
     (case fs_size (spec kind) of (w, d, h) \<Rightarrow>
        let (ws, wx) = (if turn mod 2 = 0 then (w, d) else (d, w));
            s = rn32 (rc_s0 (ho_rect home) + fst spot); x = rn32 (rc_x0 (ho_rect home) + snd spot);
            floor = floor_of home storey
        in \<lparr>cb_rect = rect_new (rn32 (s - rn32 (ws * (1 / 2)))) (rn32 (s + rn32 (ws * (1 / 2))))
                       (rn32 (x - rn32 (wx * (1 / 2)))) (rn32 (x + rn32 (wx * (1 / 2)))),
            cb_h0 = floor, cb_h1 = rn32 (floor + h)\<rparr>)"

datatype home_refusal =
    NotYourHome | NobodyHolds | NotItsCrew | NeedsARecord | HeldAlready | HoldEnough
  | ItsBought | ItsRented | WeeksRentIs nat nat | ItCosts nat | FourDigits | LockIsFull | MainCodeStays
  | ItsLocked | HolderStays | NoRentOnDeed | HaventCredits | PanelHolds nat
  | NoSuchFloor | OutsideTheWalls | KeepTheDoorClear | InTheWall | SomethingThere | NoHomeThere
  | MostPieces | PieceCosts furniture nat | NoSuchPiece | EmptyItFirst | SomeoneAsleep
  | StaysInTheBay | HoldsNothing | HoldsKinds nat | NotInYourBay | DoesntHoldThat

text \<open>\<open>fits\<close>: the first thing in the way, if anything is. \<open>meets\<close> says whether the building has a box there.\<close>

definition fits :: "home \<Rightarrow> (rect \<Rightarrow> rat \<Rightarrow> rat \<Rightarrow> bool) \<Rightarrow> furniture \<Rightarrow> city_box \<Rightarrow> nat
    \<Rightarrow> (city_box \<times> bool) list \<Rightarrow> home_refusal option" where
  "fits home meets kind b storey others =
     (if ho_storeys home \<le> storey then Some NoSuchFloor
      else if \<not> rect_holds (inset (rn32 (- (1 / 100))) (ho_rect home)) (cb_rect b) then Some OutsideTheWalls
      else if storey = 0 \<and> fs_solid (spec kind)
        \<and> overlaps (cb_rect b)
            (rect_new (rn32 (fst (ho_inside home) - DOOR_CLEAR)) (rn32 (fst (ho_inside home) + DOOR_CLEAR))
              (rn32 (snd (ho_inside home) - DOOR_CLEAR)) (rn32 (snd (ho_inside home) + DOOR_CLEAR)))
      then Some KeepTheDoorClear
      else if meets (cb_rect b) (rn32 (cb_h0 b + rn32 (2 / 100))) (max (cb_h1 b) (rn32 (cb_h0 b + rn32 (5 / 100))))
      then Some InTheWall
      else if fs_solid (spec kind)
        \<and> list_ex (\<lambda>(q, solid). solid \<and> cb_h0 q = cb_h0 b \<and> overlaps (cb_rect q) (cb_rect b)) others
      then Some SomethingThere
      else None)"

section \<open>The register\<close>

definition SHOCK_STEP_HP :: nat where "SHOCK_STEP_HP = 5"
definition SHOCK_RESET_S :: nat where "SHOCK_RESET_S = 10"
definition LOCKOUT_TRIES :: nat where "LOCKOUT_TRIES = 8"
definition LOCKOUT_S :: nat where "LOCKOUT_S = 15 * 60"
definition CREW_CAP :: nat where "CREW_CAP = 10"
definition GUEST_CAP :: nat where "GUEST_CAP = 8"
definition MAX_WEEKS :: nat where "MAX_WEEKS = 8"
definition KNOCKS :: nat where "KNOCKS = 32"
definition CODE_MAX :: nat where "CODE_MAX = 9999"

datatype tenure = Lease nat nat "nat option" | Deed nat nat

record lock =
  lk_code :: "nat option"
  lk_guest_code :: "nat option"
  lk_locked :: bool
  lk_crew :: "trader list"
  lk_guests :: "trader list"
  lk_misses :: nat
  lk_last_miss :: nat
  lk_shut_until :: nat

definition key_lock :: "trader \<Rightarrow> lock" where
  "key_lock holder =
     \<lparr>lk_code = None, lk_guest_code = None, lk_locked = True, lk_crew = [holder], lk_guests = [],
      lk_misses = 0, lk_last_miss = 0, lk_shut_until = 0\<rparr>"

definition is_crew :: "lock \<Rightarrow> trader \<Rightarrow> bool" where
  "is_crew l who \<longleftrightarrow> list_ex (\<lambda>c. c = who) (lk_crew l)"

definition passes :: "lock \<Rightarrow> trader \<Rightarrow> bool" where
  "passes l who \<longleftrightarrow> \<not> lk_locked l \<or> is_crew l who \<or> list_ex (\<lambda>g. g = who) (lk_guests l)"

record piece =
  pc_id :: nat
  pc_kind :: furniture
  pc_s :: nat
  pc_x :: nat
  pc_turn :: nat
  pc_storey :: nat
  pc_holds :: "(item \<times> nat) list"

definition piece_at :: "piece \<Rightarrow> rat \<times> rat" where
  "piece_at p = (rn32 (rn32 (of_nat (pc_s p)) / 10), rn32 (rn32 (of_nat (pc_x p)) / 10))"

record asleep =
  as_piece :: nat
  as_who :: trader
  as_name :: string

record held =
  hd_holder :: trader
  hd_name :: string
  hd_tenure :: tenure
  hd_lock :: lock
  hd_open :: bool
  hd_since :: nat
  hd_pieces :: "piece list"
  hd_next_piece :: nat
  hd_asleep :: "asleep list"

datatype entered = Crew | Guest | Wrong nat bool | Shut

record knock =
  kn_seq :: nat
  kn_home :: home_id
  kn_by :: string

datatype home_note = Lapsed home_id | Sold_back home_id

record home_account =
  ha_credits :: nat
  ha_goods :: "(item, nat) bmap"
  ha_notes :: "home_note list"

definition home_account_empty :: home_account where
  "home_account_empty = \<lparr>ha_credits = 0, ha_goods = bempty, ha_notes = []\<rparr>"

record homes =
  hm_held :: "(home_id, held) bmap"
  hm_accounts :: "(trader, home_account) bmap"
  hm_knocks :: "knock list"
  hm_knock_seq :: nat
  rent_taken :: nat
  sold_for :: nat
  paid_back :: nat
  furniture_sold :: nat
  furniture_back :: nat

definition homes_new :: homes where
  "homes_new =
     \<lparr>hm_held = bempty, hm_accounts = bempty, hm_knocks = [], hm_knock_seq = 0, rent_taken = 0, sold_for = 0,
      paid_back = 0, furniture_sold = 0, furniture_back = 0\<rparr>"

datatype home_reply =
    RentedFor home_id nat nat | BoughtFor home_id nat | GivenUp home_id nat | SoldBack home_id nat
  | GuestCodeSet bool | CodeSet | DoorLocked bool | DoorOpen bool | OffItsCrew | CrewCleared
  | OnItsPanel nat nat | OffItsPanel nat | YouKnock | PutDown furniture nat | Moved
  | PieceSold furniture nat | PutAway item nat | TakenBack item nat

section \<open>Who may do what\<close>

definition homes_of :: "trader \<Rightarrow> homes \<Rightarrow> home_id list" where
  "homes_of who r = map fst (filter (\<lambda>(i, h). hd_holder h = who) (entries (hm_held r)))"

definition may_enter :: "home_id \<Rightarrow> trader \<Rightarrow> homes \<Rightarrow> bool" where
  "may_enter i who r = (case bget (hm_held r) i of None \<Rightarrow> True | Some h \<Rightarrow> hd_open h \<or> passes (hd_lock h) who)"

definition held_by :: "home_id \<Rightarrow> trader \<Rightarrow> homes \<Rightarrow> home_refusal + held" where
  "held_by i who r =
     (case bget (hm_held r) i of
        Some h \<Rightarrow> if hd_holder h = who then Inr h else Inl NotYourHome
      | None \<Rightarrow> Inl NobodyHolds)"

definition crew_of :: "home_id \<Rightarrow> trader \<Rightarrow> homes \<Rightarrow> home_refusal + held" where
  "crew_of i who r =
     (case bget (hm_held r) i of
        Some h \<Rightarrow> if is_crew (hd_lock h) who then Inr h else Inl NotItsCrew
      | None \<Rightarrow> Inl NobodyHolds)"

definition put_home :: "home_id \<Rightarrow> held \<Rightarrow> homes \<Rightarrow> homes" where
  "put_home i h r = r\<lparr>hm_held := bput i h (hm_held r)\<rparr>"

definition can_take :: "home \<Rightarrow> trader \<Rightarrow> homes \<Rightarrow> home_refusal option" where
  "can_take home who r =
     (if who = [] \<or> take 6 who = ''guest-'' then Some NeedsARecord
      else if bget (hm_held r) (ho_id home) \<noteq> None then Some HeldAlready
      else if MAX_HELD \<le> length (homes_of who r) then Some HoldEnough
      else None)"

definition newly_held :: "trader \<Rightarrow> string \<Rightarrow> tenure \<Rightarrow> nat \<Rightarrow> held" where
  "newly_held who name t now =
     \<lparr>hd_holder = who, hd_name = name, hd_tenure = t, hd_lock = key_lock who, hd_open = False, hd_since = now,
      hd_pieces = [], hd_next_piece = 0, hd_asleep = []\<rparr>"

type_synonym 's home_outcome = "(home_refusal + home_reply) \<times> 's"

definition rent_home :: "home \<Rightarrow> trader \<Rightarrow> string \<Rightarrow> nat \<Rightarrow> nat \<Rightarrow> homes \<Rightarrow> hangar \<Rightarrow> (homes \<times> hangar) home_outcome" where
  "rent_home home who name weeks now r h =
     (if bought home then (Inl ItsBought, r, h)
      else case can_take home who r of
        Some why \<Rightarrow> (Inl why, r, h)
      | None \<Rightarrow>
          let weeks = max 1 (min MAX_WEEKS weeks); cost = rent home * weeks
          in if credits h < cost then (Inl (WeeksRentIs weeks cost), r, h)
             else (Inr (RentedFor (ho_id home) weeks cost),
                   put_home (ho_id home) (newly_held who name (Lease cost now None) now) r,
                   h\<lparr>credits := credits h - cost\<rparr>))"

definition buy_home :: "home \<Rightarrow> trader \<Rightarrow> string \<Rightarrow> nat \<Rightarrow> homes \<Rightarrow> hangar \<Rightarrow> (homes \<times> hangar) home_outcome" where
  "buy_home home who name now r h =
     (if \<not> bought home then (Inl ItsRented, r, h)
      else case can_take home who r of
        Some why \<Rightarrow> (Inl why, r, h)
      | None \<Rightarrow>
          let cost = home_price home
          in if credits h < cost then (Inl (ItCosts cost), r, h)
             else (Inr (BoughtFor (ho_id home) cost),
                   (put_home (ho_id home) (newly_held who name (Deed cost now) now) r)\<lparr>sold_for := sold_for r + cost\<rparr>,
                   h\<lparr>credits := credits h - cost\<rparr>))"

section \<open>Giving a home up\<close>

definition piece_back :: "piece \<Rightarrow> nat" where
  "piece_back p = fs_price (spec (pc_kind p)) * FURNITURE_BACK_PCT div 100"

definition cleared_out :: "held \<Rightarrow> homes \<Rightarrow> nat \<times> (item \<times> nat) list \<times> homes" where
  "cleared_out h r =
     (let back = sum_list (map piece_back (hd_pieces h))
      in (back, concat (map pc_holds (hd_pieces h)), r\<lparr>furniture_back := furniture_back r + back\<rparr>))"

definition price_back :: "city \<Rightarrow> home_id \<Rightarrow> nat" where
  "price_back c i = (case ct_home c i of None \<Rightarrow> 0 | Some home \<Rightarrow> sell_back home)"

definition give_up :: "city \<Rightarrow> home_id \<Rightarrow> trader \<Rightarrow> homes \<Rightarrow> hangar \<Rightarrow> (homes \<times> hangar) home_outcome" where
  "give_up c i who r h =
     (case held_by i who r of
        Inl why \<Rightarrow> (Inl why, r, h)
      | Inr hh \<Rightarrow>
          let (cr, goods, r1) = cleared_out hh (r\<lparr>hm_held := bdel i (hm_held r)\<rparr>);
              h1 = h\<lparr>credits := credits h + cr, hstores := add_goods_list goods (hstores h)\<rparr>
          in case hd_tenure hh of
               Lease bank _ _ \<Rightarrow> (Inr (GivenUp i bank), r1, h1\<lparr>credits := credits h1 + bank\<rparr>)
             | Deed _ _ \<Rightarrow>
                 let back = price_back c i
                 in (Inr (SoldBack i back), r1\<lparr>paid_back := paid_back r1 + back\<rparr>, h1\<lparr>credits := credits h1 + back\<rparr>))"

section \<open>The lock, the door, the panel\<close>

definition remember :: "trader \<Rightarrow> nat \<Rightarrow> trader list \<Rightarrow> bool \<times> trader list" where
  "remember who cap xs =
     (if list_ex (\<lambda>m. m = who) xs then (True, xs)
      else if cap \<le> length xs then (False, xs)
      else (True, xs @ [who]))"

definition lock_enter :: "trader \<Rightarrow> nat \<Rightarrow> nat \<Rightarrow> lock \<Rightarrow> (home_refusal + entered) \<times> lock" where
  "lock_enter who code now l0 =
     (if now < lk_shut_until l0 then (Inr Shut, l0)
      else
        let l = (if lk_shut_until l0 \<noteq> 0 then l0\<lparr>lk_shut_until := 0, lk_misses := 0\<rparr> else l0)
        in if lk_code l = Some code
           then let (ok, crew) = remember who CREW_CAP (lk_crew l)
                in if \<not> ok then (Inl LockIsFull, l) else (Inr Crew, l\<lparr>lk_crew := crew, lk_misses := 0\<rparr>)
           else if lk_guest_code l = Some code
           then let (ok, guests) = (if is_crew l who then (True, lk_guests l) else remember who GUEST_CAP (lk_guests l))
                in if \<not> ok then (Inl LockIsFull, l) else (Inr Guest, l\<lparr>lk_guests := guests, lk_misses := 0\<rparr>)
           else
             let step = (if SHOCK_RESET_S < now - lk_last_miss l then 1 else lk_misses l + 1);
                 misses = sat8 (lk_misses l + 1);
                 shut = (LOCKOUT_TRIES \<le> misses)
             in (Inr (Wrong (sat16 (SHOCK_STEP_HP * step)) shut),
                 l\<lparr>lk_misses := misses, lk_last_miss := now,
                    lk_shut_until := (if shut then now + LOCKOUT_S else lk_shut_until l)\<rparr>))"

definition enter_code :: "home_id \<Rightarrow> trader \<Rightarrow> nat \<Rightarrow> nat \<Rightarrow> homes \<Rightarrow> (home_refusal + entered) \<times> homes" where
  "enter_code i who code now r =
     (if CODE_MAX < code then (Inl FourDigits, r)
      else case bget (hm_held r) i of
        None \<Rightarrow> (Inl NobodyHolds, r)
      | Some h \<Rightarrow>
          let (res, l) = lock_enter who code now (hd_lock h) in (res, put_home i (h\<lparr>hd_lock := l\<rparr>) r))"

definition set_code :: "home_id \<Rightarrow> trader \<Rightarrow> bool \<Rightarrow> nat option \<Rightarrow> homes \<Rightarrow> homes home_outcome" where
  "set_code i who guest code r =
     (if (case code of None \<Rightarrow> False | Some c \<Rightarrow> CODE_MAX < c) then (Inl FourDigits, r)
      else case crew_of i who r of
        Inl why \<Rightarrow> (Inl why, r)
      | Inr h \<Rightarrow>
          if guest
          then (Inr (GuestCodeSet (code \<noteq> None)),
                put_home i (h\<lparr>hd_lock := (hd_lock h)\<lparr>lk_guest_code := code, lk_guests := []\<rparr>\<rparr>) r)
          else case code of
            None \<Rightarrow> (Inl MainCodeStays, r)
          | Some c \<Rightarrow>
              let l = (hd_lock h)\<lparr>lk_code := Some c, lk_guest_code := None, lk_locked := True, lk_guests := [],
                        lk_crew := snd (remember who CREW_CAP [hd_holder h]), lk_misses := 0, lk_shut_until := 0\<rparr>
              in (Inr CodeSet,
                  put_home i (h\<lparr>hd_lock := l, hd_asleep := filter (\<lambda>a. is_crew l (as_who a)) (hd_asleep h)\<rparr>) r))"

definition set_locked :: "home_id \<Rightarrow> trader \<Rightarrow> bool \<Rightarrow> homes \<Rightarrow> homes home_outcome" where
  "set_locked i who locked r =
     (case crew_of i who r of
        Inl why \<Rightarrow> (Inl why, r)
      | Inr h \<Rightarrow> (Inr (DoorLocked locked), put_home i (h\<lparr>hd_lock := (hd_lock h)\<lparr>lk_locked := locked\<rparr>\<rparr>) r))"

definition door :: "home_id \<Rightarrow> trader \<Rightarrow> bool \<Rightarrow> homes \<Rightarrow> homes home_outcome" where
  "door i who open_it r =
     (case bget (hm_held r) i of
        None \<Rightarrow> (Inl NobodyHolds, r)
      | Some h \<Rightarrow>
          if \<not> passes (hd_lock h) who then (Inl ItsLocked, r)
          else (Inr (DoorOpen open_it), put_home i (h\<lparr>hd_open := open_it\<rparr>) r))"

definition leave_crew :: "home_id \<Rightarrow> trader \<Rightarrow> homes \<Rightarrow> homes home_outcome" where
  "leave_crew i who r =
     (case bget (hm_held r) i of
        None \<Rightarrow> (Inl NobodyHolds, r)
      | Some h \<Rightarrow>
          if hd_holder h = who then (Inl HolderStays, r)
          else (Inr OffItsCrew,
                put_home i (h\<lparr>hd_lock := (hd_lock h)\<lparr>lk_crew := filter (\<lambda>c. c \<noteq> who) (lk_crew (hd_lock h)),
                                 lk_guests := filter (\<lambda>c. c \<noteq> who) (lk_guests (hd_lock h))\<rparr>,
                           hd_asleep := filter (\<lambda>a. as_who a \<noteq> who) (hd_asleep h)\<rparr>) r))"

definition clear_crew :: "home_id \<Rightarrow> trader \<Rightarrow> homes \<Rightarrow> homes home_outcome" where
  "clear_crew i who r =
     (case crew_of i who r of
        Inl why \<Rightarrow> (Inl why, r)
      | Inr h \<Rightarrow>
          let l = (hd_lock h)\<lparr>lk_crew := filter (\<lambda>c. c = hd_holder h \<or> c = who) (lk_crew (hd_lock h)), lk_guests := []\<rparr>
          in (Inr CrewCleared,
              put_home i (h\<lparr>hd_lock := l, hd_asleep := filter (\<lambda>a. is_crew l (as_who a)) (hd_asleep h)\<rparr>) r))"

definition feed :: "home_id \<Rightarrow> nat \<Rightarrow> homes \<Rightarrow> hangar \<Rightarrow> (homes \<times> hangar) home_outcome" where
  "feed i cr r h =
     (case bget (hm_held r) i of
        None \<Rightarrow> (Inl NobodyHolds, r, h)
      | Some hh \<Rightarrow>
          (case hd_tenure hh of
             Deed _ _ \<Rightarrow> (Inl NoRentOnDeed, r, h)
           | Lease bank charged unpaid \<Rightarrow>
               if cr = 0 \<or> credits h < cr then (Inl HaventCredits, r, h)
               else (Inr (OnItsPanel cr (bank + cr)),
                     put_home i (hh\<lparr>hd_tenure := Lease (bank + cr) charged unpaid\<rparr>) r,
                     h\<lparr>credits := credits h - cr\<rparr>)))"

definition withdraw_rent :: "home_id \<Rightarrow> trader \<Rightarrow> nat \<Rightarrow> homes \<Rightarrow> hangar \<Rightarrow> (homes \<times> hangar) home_outcome" where
  "withdraw_rent i who cr r h =
     (case crew_of i who r of
        Inl why \<Rightarrow> (Inl why, r, h)
      | Inr hh \<Rightarrow>
          (case hd_tenure hh of
             Deed _ _ \<Rightarrow> (Inl NoRentOnDeed, r, h)
           | Lease bank charged unpaid \<Rightarrow>
               if cr = 0 \<or> bank < cr then (Inl (PanelHolds bank), r, h)
               else (Inr (OffItsPanel cr),
                     put_home i (hh\<lparr>hd_tenure := Lease (bank - cr) charged unpaid\<rparr>) r,
                     h\<lparr>credits := credits h + cr\<rparr>)))"

definition knock_at :: "home_id \<Rightarrow> string \<Rightarrow> homes \<Rightarrow> homes home_outcome" where
  "knock_at i by_name r =
     (if bget (hm_held r) i = None then (Inl NobodyHolds, r)
      else
        let s = hm_knock_seq r + 1;
            ks = hm_knocks r @ [\<lparr>kn_seq = s, kn_home = i, kn_by = by_name\<rparr>]
        in (Inr YouKnock, r\<lparr>hm_knock_seq := s, hm_knocks := (if KNOCKS < length ks then tl ks else ks)\<rparr>))"

definition knocks_for :: "trader \<Rightarrow> nat \<Rightarrow> homes \<Rightarrow> (string \<times> home_id) list \<times> nat" where
  "knocks_for who since r =
     (map (\<lambda>k. (kn_by k, kn_home k))
        (filter (\<lambda>k. case bget (hm_held r) (kn_home k) of None \<Rightarrow> False | Some h \<Rightarrow> is_crew (hd_lock h) who)
          (filter (\<lambda>k. since < kn_seq k) (hm_knocks r))), hm_knock_seq r)"

definition visited :: "home_id \<Rightarrow> trader \<Rightarrow> nat \<Rightarrow> homes \<Rightarrow> homes" where
  "visited i who now r =
     (case bget (hm_held r) i of
        None \<Rightarrow> r
      | Some h \<Rightarrow>
          (case hd_tenure h of
             Deed cost seen \<Rightarrow> if hd_holder h = who then put_home i (h\<lparr>hd_tenure := Deed cost now\<rparr>) r else r
           | Lease _ _ _ \<Rightarrow> r))"

section \<open>The clock\<close>

text \<open>With the colony's inside closed: each home's clock moved on, and whether any was.\<close>

definition held_over :: "nat \<Rightarrow> held \<Rightarrow> held \<times> bool" where
  "held_over now h =
     (case hd_tenure h of
        Lease bank charged unpaid \<Rightarrow>
          if charged < now then (h\<lparr>hd_tenure := Lease bank now unpaid\<rparr>, True) else (h, False)
      | Deed cost seen \<Rightarrow> if seen < now then (h\<lparr>hd_tenure := Deed cost now\<rparr>, True) else (h, False))"

definition hold :: "nat \<Rightarrow> homes \<Rightarrow> bool \<times> homes" where
  "hold now r =
     (list_ex (\<lambda>h. snd (held_over now h)) (bvals (hm_held r)),
      r\<lparr>hm_held := bmapv (\<lambda>_ h. fst (held_over now h)) (hm_held r)\<rparr>)"

text \<open>One home's turn of the clock: the home after it, the rent taken, why it is gone (if it is), and
  whether anything changed.\<close>

definition per_hour :: "home \<Rightarrow> held \<Rightarrow> nat" where
  "per_hour home h = max (to_nat_trunc u64_max (rn32 (hourly home (length (lk_crew (hd_lock h))) + 1 / 2))) 1"

definition charge :: "city \<Rightarrow> nat \<Rightarrow> home_id \<Rightarrow> held \<Rightarrow> held \<times> nat \<times> home_note option \<times> bool" where
  "charge c now i h =
     (case ct_home c i of
        None \<Rightarrow> (h, 0, None, False)
      | Some home \<Rightarrow>
          (case hd_tenure h of
             Lease bank charged unpaid \<Rightarrow>
               let hours = (now - charged) div HOUR_S in
               if hours = 0 then (h, 0, None, False)
               else
                 let per = per_hour home h; due = per * hours; took = min due bank;
                     since = bor (charged + took div per * HOUR_S) unpaid
                 in (h\<lparr>hd_tenure := Lease (bank - took) (charged + hours * HOUR_S)
                                      (if took < due then Some since else None)\<rparr>,
                     took,
                     (if took < due \<and> GRACE_S \<le> now - since then Some (Lapsed i) else None),
                     True)
           | Deed _ seen \<Rightarrow>
               (h, 0, (if ABANDONED_S \<le> now - seen then Some (Sold_back i) else None), False)))"

text \<open>A home that is gone: what it hands back waits for its holder in the bay.\<close>

definition put_goods :: "(item \<times> nat) list \<Rightarrow> (item, nat) bmap \<Rightarrow> (item, nat) bmap" where
  "put_goods gs m = fold (\<lambda>(i, q). bupd 0 (\<lambda>e. e + q) i) gs m"

definition evict :: "city \<Rightarrow> home_id \<times> home_note \<Rightarrow> homes \<Rightarrow> homes" where
  "evict c g r =
     (case bget (hm_held r) (fst g) of
        None \<Rightarrow> r
      | Some h \<Rightarrow>
          let r1 = r\<lparr>hm_held := bdel (fst g) (hm_held r)\<rparr>;
              (back, r2) = (case hd_tenure h of
                  Lease bank _ _ \<Rightarrow> (bank, r1)
                | Deed _ _ \<Rightarrow> (price_back c (fst g), r1\<lparr>paid_back := paid_back r1 + price_back c (fst g)\<rparr>));
              (cr, goods, r3) = cleared_out h r2
          in r3\<lparr>hm_accounts := bupd home_account_empty
                 (\<lambda>a. a\<lparr>ha_credits := ha_credits a + (back + cr), ha_goods := put_goods goods (ha_goods a),
                         ha_notes := ha_notes a @ [snd g]\<rparr>)
                 (hd_holder h) (hm_accounts r3)\<rparr>)"

definition gone_homes :: "city \<Rightarrow> nat \<Rightarrow> homes \<Rightarrow> (home_id \<times> home_note) list" where
  "gone_homes c now r =
     concat (map (\<lambda>(i, h). case charge c now i h of (_, _, None, _) \<Rightarrow> [] | (_, _, Some why, _) \<Rightarrow> [(i, why)])
       (entries (hm_held r)))"

definition charge_all :: "city \<Rightarrow> nat \<Rightarrow> homes \<Rightarrow> homes" where
  "charge_all c now r =
     r\<lparr>hm_held := bmapv (\<lambda>i h. fst (charge c now i h)) (hm_held r),
       rent_taken := rent_taken r + sum_list (map (\<lambda>(i, h). fst (snd (charge c now i h))) (entries (hm_held r)))\<rparr>"

definition homes_tick :: "city \<Rightarrow> nat \<Rightarrow> homes \<Rightarrow> bool \<times> homes" where
  "homes_tick c now r =
     (let gone = gone_homes c now r
      in (list_ex (\<lambda>(i, h). snd (snd (snd (charge c now i h)))) (entries (hm_held r)) \<or> gone \<noteq> [],
          fold (evict c) gone (charge_all c now r)))"

definition homes_owed :: "trader \<Rightarrow> homes \<Rightarrow> bool" where
  "homes_owed who r \<longleftrightarrow> bget (hm_accounts r) who \<noteq> None"

section \<open>Furnishing\<close>

definition boxed :: "home \<Rightarrow> piece \<Rightarrow> city_box" where
  "boxed home p = piece_box home (pc_kind p) (piece_at p) (pc_turn p) (pc_storey p)"

definition placed_at :: "city \<Rightarrow> home_id \<Rightarrow> held \<Rightarrow> piece \<Rightarrow> nat option \<Rightarrow> home_refusal option" where
  "placed_at c i h p moving =
     (case ct_home c i of
        None \<Rightarrow> Some NoHomeThere
      | Some home \<Rightarrow>
          (case ct_plan_at c (ho_strip home) (fst (rect_middle (ho_rect home))) (snd (rect_middle (ho_rect home))) of
             None \<Rightarrow> Some NoHomeThere
           | Some meets \<Rightarrow>
               fits home meets (pc_kind p) (boxed home p) (pc_storey p)
                 (map (\<lambda>q. (boxed home q, fs_solid (spec (pc_kind q))))
                   (filter (\<lambda>q. Some (pc_id q) \<noteq> moving) (hd_pieces h)))))"

definition furnish :: "city \<Rightarrow> home_id \<Rightarrow> trader \<Rightarrow> furniture \<Rightarrow> nat \<times> nat \<Rightarrow> nat \<Rightarrow> nat \<Rightarrow> homes \<Rightarrow> hangar
    \<Rightarrow> (homes \<times> hangar) home_outcome" where
  "furnish c i who kind spot turn storey r h =
     (case crew_of i who r of
        Inl why \<Rightarrow> (Inl why, r, h)
      | Inr hh \<Rightarrow>
          if MAX_PIECES \<le> length (hd_pieces hh) then (Inl MostPieces, r, h)
          else
            let p = \<lparr>pc_id = hd_next_piece hh, pc_kind = kind, pc_s = fst spot, pc_x = snd spot, pc_turn = turn mod 4,
                      pc_storey = storey, pc_holds = []\<rparr>;
                cost = fs_price (spec kind)
            in case placed_at c i hh p None of
                 Some why \<Rightarrow> (Inl why, r, h)
               | None \<Rightarrow>
                   if credits h < cost then (Inl (PieceCosts kind cost), r, h)
                   else (Inr (PutDown kind cost),
                         (put_home i (hh\<lparr>hd_next_piece := (hd_next_piece hh + 1) mod 2 ^ 16,
                                         hd_pieces := hd_pieces hh @ [p]\<rparr>) r)
                           \<lparr>furniture_sold := furniture_sold r + cost\<rparr>,
                         h\<lparr>credits := credits h - cost\<rparr>))"

definition move_piece :: "city \<Rightarrow> home_id \<Rightarrow> trader \<Rightarrow> nat \<Rightarrow> nat \<times> nat \<Rightarrow> nat \<Rightarrow> nat \<Rightarrow> homes \<Rightarrow> homes home_outcome" where
  "move_piece c i who k spot turn storey r =
     (case crew_of i who r of
        Inl why \<Rightarrow> (Inl why, r)
      | Inr hh \<Rightarrow>
          (case position (\<lambda>p. pc_id p = k) (hd_pieces hh) of
             None \<Rightarrow> (Inl NoSuchPiece, r)
           | Some j \<Rightarrow>
               let moved = (hd_pieces hh ! j)\<lparr>pc_s := fst spot, pc_x := snd spot, pc_turn := turn mod 4, pc_storey := storey\<rparr>
               in case placed_at c i hh moved (Some k) of
                    Some why \<Rightarrow> (Inl why, r)
                  | None \<Rightarrow> (Inr Moved, put_home i (hh\<lparr>hd_pieces := (hd_pieces hh)[j := moved]\<rparr>) r)))"

section \<open>Sleeping at home\<close>

definition wake :: "trader \<Rightarrow> homes \<Rightarrow> (home_id \<times> piece) option \<times> homes" where
  "wake who r =
     (case find (\<lambda>(i, h). list_ex (\<lambda>a. as_who a = who) (hd_asleep h)) (entries (hm_held r)) of
        None \<Rightarrow> (None, r)
      | Some (i, h) \<Rightarrow>
          (case position (\<lambda>a. as_who a = who) (hd_asleep h) of
             None \<Rightarrow> (None, r)
           | Some j \<Rightarrow>
               let r1 = put_home i (h\<lparr>hd_asleep := remove_at j (hd_asleep h)\<rparr>) r
               in if \<not> is_crew (hd_lock h) who then (None, r1)
                  else (map_option (\<lambda>bed. (i, bed)) (find (\<lambda>p. pc_id p = as_piece (hd_asleep h ! j)) (hd_pieces h)), r1)))"

text \<open>The first of the least (\<open>Iterator::min_by\<close>).\<close>

fun first_least :: "('a \<Rightarrow> rat) \<Rightarrow> 'a list \<Rightarrow> 'a option" where
  "first_least f [] = None"
| "first_least f (x # xs) =
     (case first_least f xs of None \<Rightarrow> Some x | Some y \<Rightarrow> Some (if f x \<le> f y then x else y))"

definition far_from :: "(rat \<Rightarrow> rat \<Rightarrow> rat) \<Rightarrow> rat \<times> rat \<Rightarrow> nat \<Rightarrow> piece \<Rightarrow> rat" where
  "far_from hypot spot storey p =
     rn32 (hypot (rn32 (fst (piece_at p) - fst spot)) (rn32 (snd (piece_at p) - snd spot))
       + (if pc_storey p = storey then 0 else 100))"

definition sleep :: "(rat \<Rightarrow> rat \<Rightarrow> rat) \<Rightarrow> home_id \<Rightarrow> trader \<Rightarrow> string \<Rightarrow> rat \<times> rat \<Rightarrow> nat \<Rightarrow> homes \<Rightarrow> nat option \<times> homes" where
  "sleep hypot i who name spot storey r0 =
     (let r = snd (wake who r0)
      in case bget (hm_held r) i of
           None \<Rightarrow> (None, r)
         | Some h \<Rightarrow>
             if \<not> is_crew (hd_lock h) who then (None, r)
             else case first_least (far_from hypot spot storey)
                    (filter (\<lambda>p. pc_kind p = Bed \<and> \<not> list_ex (\<lambda>a. as_piece a = pc_id p) (hd_asleep h)) (hd_pieces h)) of
               None \<Rightarrow> (None, r)
             | Some p \<Rightarrow>
                 (Some (pc_id p),
                  put_home i (h\<lparr>hd_asleep := hd_asleep h @ [\<lparr>as_piece = pc_id p, as_who = who, as_name = name\<rparr>]\<rparr>) r))"

definition asleep_in :: "home_id \<Rightarrow> homes \<Rightarrow> (nat \<times> string) list" where
  "asleep_in i r =
     (case bget (hm_held r) i of None \<Rightarrow> [] | Some h \<Rightarrow> map (\<lambda>a. (as_piece a, as_name a)) (hd_asleep h))"

section \<open>What a home holds\<close>

definition sell_piece :: "home_id \<Rightarrow> trader \<Rightarrow> nat \<Rightarrow> homes \<Rightarrow> hangar \<Rightarrow> (homes \<times> hangar) home_outcome" where
  "sell_piece i who k r h =
     (case crew_of i who r of
        Inl why \<Rightarrow> (Inl why, r, h)
      | Inr hh \<Rightarrow>
          (case position (\<lambda>p. pc_id p = k) (hd_pieces hh) of
             None \<Rightarrow> (Inl NoSuchPiece, r, h)
           | Some j \<Rightarrow>
               if pc_holds (hd_pieces hh ! j) \<noteq> [] then (Inl EmptyItFirst, r, h)
               else if list_ex (\<lambda>a. as_piece a = k) (hd_asleep hh) then (Inl SomeoneAsleep, r, h)
               else
                 let kind = pc_kind (hd_pieces hh ! j); back = piece_back (hd_pieces hh ! j)
                 in (Inr (PieceSold kind back),
                     (put_home i (hh\<lparr>hd_pieces := remove_at j (hd_pieces hh)\<rparr>) r)\<lparr>furniture_back := furniture_back r + back\<rparr>,
                     h\<lparr>credits := credits h + back\<rparr>)))"

definition put_in :: "item \<Rightarrow> nat \<Rightarrow> (item \<times> nat) list \<Rightarrow> (item \<times> nat) list" where
  "put_in i n gs =
     (case position (\<lambda>(j, _). j = i) gs of
        Some k \<Rightarrow> gs[k := (fst (gs ! k), snd (gs ! k) + n)]
      | None \<Rightarrow> gs @ [(i, n)])"

definition stash :: "home_id \<Rightarrow> trader \<Rightarrow> nat \<Rightarrow> item \<Rightarrow> nat \<Rightarrow> homes \<Rightarrow> hangar \<Rightarrow> (homes \<times> hangar) home_outcome" where
  "stash i who k it qty r h =
     (if is_part it \<or> \<not> item_valid it \<or> qty = 0 then (Inl StaysInTheBay, r, h)
      else case crew_of i who r of
        Inl why \<Rightarrow> (Inl why, r, h)
      | Inr hh \<Rightarrow>
          (case position (\<lambda>p. pc_id p = k) (hd_pieces hh) of
             None \<Rightarrow> (Inl NoSuchPiece, r, h)
           | Some j \<Rightarrow>
               let p = hd_pieces hh ! j; holds = fs_holds (spec (pc_kind p))
               in if holds = 0 then (Inl HoldsNothing, r, h)
                  else if \<not> list_ex (\<lambda>(g, _). g = it) (pc_holds p) \<and> holds \<le> length (pc_holds p)
                  then (Inl (HoldsKinds holds), r, h)
                  else
                    let (ok, st) = st_take it qty (hstores h)
                    in if \<not> ok then (Inl NotInYourBay, r, h)
                       else (Inr (PutAway it qty),
                             put_home i (hh\<lparr>hd_pieces := (hd_pieces hh)[j := p\<lparr>pc_holds := put_in it qty (pc_holds p)\<rparr>]\<rparr>) r,
                             h\<lparr>hstores := st\<rparr>)))"

definition unstash :: "home_id \<Rightarrow> trader \<Rightarrow> nat \<Rightarrow> item \<Rightarrow> nat \<Rightarrow> homes \<Rightarrow> hangar \<Rightarrow> (homes \<times> hangar) home_outcome" where
  "unstash i who k it qty r h =
     (case crew_of i who r of
        Inl why \<Rightarrow> (Inl why, r, h)
      | Inr hh \<Rightarrow>
          (case position (\<lambda>p. pc_id p = k) (hd_pieces hh) of
             None \<Rightarrow> (Inl NoSuchPiece, r, h)
           | Some j \<Rightarrow>
               let p = hd_pieces hh ! j
               in case position (\<lambda>(g, q). g = it \<and> qty \<le> q \<and> 0 < qty) (pc_holds p) of
                    None \<Rightarrow> (Inl DoesntHoldThat, r, h)
                  | Some m \<Rightarrow>
                      let left = snd (pc_holds p ! m) - qty;
                          gs = (if left = 0 then remove_at m (pc_holds p)
                                else (pc_holds p)[m := (fst (pc_holds p ! m), left)])
                      in (Inr (TakenBack it qty),
                          put_home i (hh\<lparr>hd_pieces := (hd_pieces hh)[j := p\<lparr>pc_holds := gs\<rparr>]\<rparr>) r,
                          h\<lparr>hstores := st_add it qty (hstores h)\<rparr>)))"

section \<open>The bay's account, and the register's books\<close>

definition homes_collect :: "trader \<Rightarrow> homes \<Rightarrow> hangar \<Rightarrow> (home_note list \<times> nat option) \<times> homes \<times> hangar" where
  "homes_collect who r h =
     (case bget (hm_accounts r) who of
        None \<Rightarrow> (([], None), r, h)
      | Some a \<Rightarrow>
          ((ha_notes a, if 0 < ha_credits a then Some (ha_credits a) else None),
           r\<lparr>hm_accounts := bdel who (hm_accounts r)\<rparr>,
           h\<lparr>credits := credits h + ha_credits a, hstores := add_goods_list (entries (ha_goods a)) (hstores h)\<rparr>))"

definition panel_bank :: "held \<Rightarrow> nat" where
  "panel_bank h = (case hd_tenure h of Lease bank _ _ \<Rightarrow> bank | Deed _ _ \<Rightarrow> 0)"

definition holding :: "homes \<Rightarrow> nat" where
  "holding r = bsum panel_bank (hm_held r) + bsum ha_credits (hm_accounts r)"

end
