(* ===== verification/Register.thy ===== *)
theory Register
  imports Homes
begin

unbundle bit_operations_syntax

text \<open>
  The register of homes (theory \<open>Homes\<close>) is right: addresses unpack to what was packed; every change
  keeps the register's invariant \<open>homes_ok\<close> (the holder on the crew, lists and furniture within their
  caps, only goods in chests, every sleeper in a bed of a home whose crew they are on) and its books
  (credits and goods). The changes that move no
  credit and no goods are \<open>quiet\<close>, a relation that carries the invariant and the books at once.
\<close>

section \<open>Addresses\<close>

lemma small_bits: "bit (n :: nat) k \<Longrightarrow> n < 2 ^ m \<Longrightarrow> k < m"
  by (metis bit_take_bit_iff take_bit_nat_eq_self)

lemma packed_id_fields:
  fixes u s l r b t H :: "32 word" and h :: bool
  assumes u: "\<forall>k. bit u k \<longrightarrow> k < 4" and s: "\<forall>k. bit s k \<longrightarrow> k < 5" and l: "\<forall>k. bit l k \<longrightarrow> k < 4"
    and r: "\<forall>k. bit r k \<longrightarrow> k < 5" and b: "\<forall>k. bit b k \<longrightarrow> k < 8" and t: "\<forall>k. bit t k \<longrightarrow> k < 2"
    and H: "\<forall>k. bit H k \<longleftrightarrow> h \<and> k = 28"
  defines "i \<equiv> u OR push_bit 4 s OR push_bit 9 l OR push_bit 13 r OR push_bit 18 b OR push_bit 26 t OR H"
  shows "take_bit 4 i = u" "take_bit 5 (drop_bit 4 i) = s" "take_bit 4 (drop_bit 9 i) = l"
    "take_bit 5 (drop_bit 13 i) = r" "take_bit 8 (drop_bit 18 i) = b" "take_bit 2 (drop_bit 26 i) = t"
    "bit i 28 = h"
proof -
  have bit_i: "bit i k \<longleftrightarrow> k < 32 \<and> (bit u k \<or> 4 \<le> k \<and> bit s (k - 4) \<or> 9 \<le> k \<and> bit l (k - 9) \<or> 13 \<le> k \<and> bit r (k - 13)
      \<or> 18 \<le> k \<and> bit b (k - 18) \<or> 26 \<le> k \<and> bit t (k - 26) \<or> h \<and> k = 28)" for k
    unfolding i_def bit_or_iff bit_push_bit_iff H [rule_format] possible_bit_word by (use u in auto)
  show "take_bit 4 i = u" by (rule bit_word_eqI) (auto simp: bit_take_bit_iff bit_i dest: u [rule_format])
  show "take_bit 5 (drop_bit 4 i) = s" "take_bit 4 (drop_bit 9 i) = l" "take_bit 5 (drop_bit 13 i) = r"
    "take_bit 8 (drop_bit 18 i) = b" "take_bit 2 (drop_bit 26 i) = t"
    by (rule bit_word_eqI; auto simp: bit_take_bit_iff bit_drop_bit_eq bit_i dest: u [rule_format] s [rule_format] l [rule_format] r [rule_format] b [rule_format] t [rule_format]; fail)+
  show "bit i 28 = h" by (auto simp: bit_i dest: u [rule_format] s [rule_format] l [rule_format] r [rule_format] b [rule_format] t [rule_format])
qed

lemma of_nat_bits: "n < 2 ^ m \<Longrightarrow> \<forall>k. bit (of_nat n :: 32 word) k \<longrightarrow> k < m"
  using small_bits [of n _ m] by (simp add: bit_simps)

lemma house_bits: "bit HOUSE k \<longleftrightarrow> k = 28"
  unfolding HOUSE_def bit_push_bit_iff bit_1_iff possible_bit_word by auto

lemma masks: "(15 :: 32 word) = mask 4" "(31 :: 32 word) = mask 5" "(255 :: 32 word) = mask 8" "(3 :: 32 word) = mask 2"
  by (simp_all add: mask_eq_exp_minus_1)

lemma and_house: "i AND HOUSE \<noteq> 0 \<longleftrightarrow> bit i 28" for i :: home_id
proof -
  have "bit (i AND HOUSE) k \<longleftrightarrow> k = 28 \<and> bit i 28" for k
    by (auto simp: bit_and_iff house_bits)
  then show ?thesis by (metis bit_0_eq bot_apply bit_eqI bot_bool_def)
qed

lemma id_fields:
  assumes "strp < 4" "unit < 16" "storey < 32" "lot < 16" "-12 \<le> row" "row \<le> 19" "0 \<le> bx" "bx \<le> 255"
  shows "id_strip (home_id_new strp bx row lot storey unit house) = strp
       \<and> id_bx (home_id_new strp bx row lot storey unit house) = bx
       \<and> id_row (home_id_new strp bx row lot storey unit house) = row
       \<and> id_lot (home_id_new strp bx row lot storey unit house) = lot
       \<and> id_storey (home_id_new strp bx row lot storey unit house) = storey
       \<and> id_unit (home_id_new strp bx row lot storey unit house) = unit
       \<and> id_house (home_id_new strp bx row lot storey unit house) = house"
proof -
  define R B where "R = nat (row + 12)" and "B = nat bx"
  have "max 0 (min 31 (row + 12)) = int R" "max 0 (min 255 bx) = int B"
    using assms(5-8) by (simp_all add: R_def B_def)
  then have R: "of_int (max 0 (min 31 (row + 12))) = (of_nat R :: 32 word)"
    and B: "of_int (max 0 (min 255 bx)) = (of_nat B :: 32 word)" by (simp_all only: of_int_of_nat_eq)
  have R': "R < 2 ^ 5" "int R = row + 12" and B': "B < 2 ^ 8" "int B = bx"
    using assms(5-8) by (simp_all add: R_def B_def nat_less_iff)
  have le: "unit < 2 ^ 4" "storey < 2 ^ 5" "lot < 2 ^ 4" "strp < 2 ^ 2" using assms by simp_all
  have self: "n < 2 ^ m \<Longrightarrow> of_nat n AND mask m = (of_nat n :: 32 word)" for n m
    by (auto simp: take_bit_eq_mask [symmetric] intro!: bit_word_eqI dest: of_nat_bits [rule_format] simp: bit_take_bit_iff)
  have hb: "\<forall>k. bit (if house then HOUSE else 0) k \<longleftrightarrow> house \<and> k = 28" by (simp add: house_bits)
  note f = packed_id_fields [of "of_nat unit" "of_nat storey" "of_nat lot" "of_nat R" "of_nat B" "of_nat strp" "if house then HOUSE else 0" house,
      OF of_nat_bits [OF le(1)] of_nat_bits [OF le(2)] of_nat_bits [OF le(3)] of_nat_bits [OF R'(1)] of_nat_bits [OF B'(1)]
        of_nat_bits [OF le(4)] hb]
  have i: "home_id_new strp bx row lot storey unit house = of_nat unit OR push_bit 4 (of_nat storey)
      OR push_bit 9 (of_nat lot) OR push_bit 13 (of_nat R) OR push_bit 18 (of_nat B) OR push_bit 26 (of_nat strp)
      OR (if house then HOUSE else 0)"
    unfolding home_id_new_def Let_def masks self [OF le(1)] self [OF le(2)] self [OF le(3)] self [OF le(4)] R B
    by (rule refl)
  have un: "n < 256 \<Longrightarrow> unat (of_nat n :: 32 word) = n" for n by (simp add: unat_of_nat take_bit_nat_eq_self)
  show ?thesis
    unfolding id_strip_def id_bx_def id_row_def id_lot_def id_storey_def id_unit_def id_house_def and_house
      masks take_bit_eq_mask [symmetric] i f
    using assms R' B' by (simp add: un)
qed

text \<open>C27: Addresses are packed without loss: of a home in a lot of the city (a strip below 4, a block, a row,
  a lot, a storey and a unit within their bits) every field is read back from its 29-bit id, so no two
  homes share one.\<close>
theorem home_ids_round_trip:
  assumes "strp < 4" "unit < 16" "storey < 32" "lot < 16" "-12 \<le> row" "row \<le> 19" "0 \<le> bx" "bx \<le> 255"
  shows "let i = home_id_new strp bx row lot storey unit house in
      id_strip i = strp \<and> id_bx i = bx \<and> id_row i = row \<and> id_lot i = lot
    \<and> id_storey i = storey \<and> id_unit i = unit \<and> id_house i = house"
  using id_fields [OF assms] by (simp add: Let_def)

theorem home_ids_round_trip_witness:
  "let i = home_id_new 2 200 (- 3) 5 7 9 True in
      id_strip i = 2 \<and> id_bx i = 200 \<and> id_row i = - 3 \<and> id_lot i = 5
    \<and> id_storey i = 7 \<and> id_unit i = 9 \<and> id_house i = True"
  by (rule home_ids_round_trip) simp_all

section \<open>The books\<close>

text \<open>Credits: what the register holds and what the colony has been paid, against what it handed back.\<close>

definition homes_books :: "homes \<Rightarrow> nat" where
  "homes_books r = holding r + rent_taken r + sold_for r + furniture_sold r"

definition handed_back :: "homes \<Rightarrow> nat" where
  "handed_back r = paid_back r + furniture_back r"

text \<open>Goods: what the chests and safes hold, and what waits in accounts.\<close>

definition goods_in :: "item \<Rightarrow> (item \<times> nat) list \<Rightarrow> nat" where
  "goods_in it gs = sum_list (map (\<lambda>(j, q). if j = it then q else 0) gs)"

definition home_goods :: "item \<Rightarrow> held \<Rightarrow> nat" where
  "home_goods it h = sum_list (map (\<lambda>p. goods_in it (pc_holds p)) (hd_pieces h))"

definition waiting_goods :: "item \<Rightarrow> home_account \<Rightarrow> nat" where
  "waiting_goods it a = bor 0 (bget (ha_goods a) it)"

definition register_goods :: "item \<Rightarrow> homes \<Rightarrow> nat" where
  "register_goods it r = bsum (home_goods it) (hm_held r) + bsum (waiting_goods it) (hm_accounts r)"

lemma goods_in_simps [simp]:
  "goods_in it [] = 0" "goods_in it ((j, q) # gs) = (if j = it then q else 0) + goods_in it gs"
  "goods_in it (gs @ hs) = goods_in it gs + goods_in it hs"
  by (simp_all add: goods_in_def)

lemma home_goods_concat: "goods_in it (concat (map pc_holds ps)) = sum_list (map (\<lambda>p. goods_in it (pc_holds p)) ps)"
  by (induction ps) simp_all

section \<open>The invariant\<close>

definition lock_ok :: "trader \<Rightarrow> lock \<Rightarrow> bool" where
  "lock_ok holder l \<longleftrightarrow> is_crew l holder \<and> distinct (lk_crew l) \<and> length (lk_crew l) \<le> CREW_CAP
     \<and> distinct (lk_guests l) \<and> length (lk_guests l) \<le> GUEST_CAP
     \<and> (\<forall>k. lk_code l = Some k \<or> lk_guest_code l = Some k \<longrightarrow> k \<le> CODE_MAX)
     \<and> lk_misses l \<le> LOCKOUT_TRIES \<and> (lk_shut_until l = 0 \<longrightarrow> lk_misses l < LOCKOUT_TRIES)"

definition holds_ok :: "piece \<Rightarrow> bool" where
  "holds_ok p \<longleftrightarrow> length (pc_holds p) \<le> fs_holds (spec (pc_kind p)) \<and> distinct (map fst (pc_holds p))
     \<and> (\<forall>(j, q) \<in> set (pc_holds p). \<not> is_part j \<and> item_valid j \<and> 0 < q)"

definition sleepers_ok :: "held \<Rightarrow> bool" where
  "sleepers_ok h \<longleftrightarrow> distinct (map as_piece (hd_asleep h)) \<and> distinct (map as_who (hd_asleep h))
     \<and> (\<forall>a \<in> set (hd_asleep h). is_crew (hd_lock h) (as_who a)
          \<and> (\<exists>p \<in> set (hd_pieces h). pc_id p = as_piece a \<and> pc_kind p = Bed))"

definition held_ok :: "held \<Rightarrow> bool" where
  "held_ok h \<longleftrightarrow> lock_ok (hd_holder h) (hd_lock h) \<and> sleepers_ok h \<and> length (hd_pieces h) \<le> MAX_PIECES
     \<and> (\<forall>p \<in> set (hd_pieces h). pc_turn p < 4 \<and> holds_ok p)"

definition sleeps_in :: "trader \<Rightarrow> held \<Rightarrow> bool" where
  "sleeps_in who h \<longleftrightarrow> who \<in> set (map as_who (hd_asleep h))"

definition knocks_ok :: "homes \<Rightarrow> bool" where
  "knocks_ok r \<longleftrightarrow> length (hm_knocks r) \<le> KNOCKS \<and> sorted_wrt (<) (map kn_seq (hm_knocks r))
     \<and> (\<forall>k \<in> set (hm_knocks r). kn_seq k \<le> hm_knock_seq r)"

definition one_bed_each :: "(home_id \<Rightarrow> held option) \<Rightarrow> bool" where
  "one_bed_each m \<longleftrightarrow> (\<forall>i j h g who. m i = Some h \<and> m j = Some g \<and> sleeps_in who h \<and> sleeps_in who g \<longrightarrow> i = j)"

definition homes_ok :: "homes \<Rightarrow> bool" where
  "homes_ok r \<longleftrightarrow> (\<forall>i h. bget (hm_held r) i = Some h \<longrightarrow> held_ok h)
     \<and> (\<forall>who. length (homes_of who r) \<le> MAX_HELD)
     \<and> one_bed_each (bget (hm_held r)) \<and> knocks_ok r"

lemma homes_okD: "homes_ok r \<Longrightarrow> bget (hm_held r) i = Some h \<Longrightarrow> held_ok h"
  by (simp add: homes_ok_def)

lemma homes_of_sum: "length (homes_of who r) = bsum (\<lambda>h. if hd_holder h = who then 1 else 0) (hm_held r)"
proof -
  have "length (filter (\<lambda>(i, h). hd_holder h = who) xs) = sum_list (map (\<lambda>h. if hd_holder h = who then 1 else 0) (map snd xs))"
    for xs :: "(home_id \<times> held) list" by (induction xs) auto
  then show ?thesis by (simp add: homes_of_def bsum_def bvals_def)
qed

lemma homes_new_ok: "homes_ok homes_new"
  by (simp add: homes_ok_def homes_new_def homes_of_def knocks_ok_def one_bed_each_def)

lemma homes_okI:
  assumes "\<And>i h. bget (hm_held r) i = Some h \<Longrightarrow> held_ok h"
    and "\<And>who. bsum (\<lambda>h. if hd_holder h = who then 1 else 0) (hm_held r) \<le> MAX_HELD"
    and "one_bed_each (bget (hm_held r))" and "knocks_ok r"
  shows "homes_ok r"
  using assms by (simp add: homes_ok_def homes_of_sum)

lemma homes_okE:
  assumes "homes_ok r"
  shows "bsum (\<lambda>h. if hd_holder h = who then 1 else 0) (hm_held r) \<le> MAX_HELD"
    and "one_bed_each (bget (hm_held r))" and "knocks_ok r"
  using assms by (simp_all add: homes_ok_def homes_of_sum)

section \<open>Changes of one home\<close>

text \<open>A home changed in place: same holder, no new sleeper.\<close>

definition same_home :: "held \<Rightarrow> held \<Rightarrow> bool" where
  "same_home h h' \<longleftrightarrow> hd_holder h' = hd_holder h \<and> (\<forall>who. sleeps_in who h' \<longrightarrow> sleeps_in who h)
     \<and> (held_ok h \<longrightarrow> held_ok h')"

lemma put_home_simps [simp]:
  "hm_held (put_home i h r) = bput i h (hm_held r)" "hm_accounts (put_home i h r) = hm_accounts r"
  "hm_knocks (put_home i h r) = hm_knocks r" "hm_knock_seq (put_home i h r) = hm_knock_seq r"
  "rent_taken (put_home i h r) = rent_taken r" "sold_for (put_home i h r) = sold_for r"
  "paid_back (put_home i h r) = paid_back r" "furniture_sold (put_home i h r) = furniture_sold r"
  "furniture_back (put_home i h r) = furniture_back r"
  by (simp_all add: put_home_def)

text \<open>Only the homes, the knocks and their count are in the invariant.\<close>

lemma homes_ok_cong:
  "hm_held r' = hm_held r \<Longrightarrow> hm_knocks r' = hm_knocks r \<Longrightarrow> hm_knock_seq r' = hm_knock_seq r
    \<Longrightarrow> homes_ok r' = homes_ok r"
  by (simp add: homes_ok_def homes_of_def knocks_ok_def)

lemma one_bed_each_mono:
  assumes "one_bed_each m" and "\<And>i h who. m' i = Some h \<Longrightarrow> sleeps_in who h \<Longrightarrow> \<exists>g. m i = Some g \<and> sleeps_in who g"
  shows "one_bed_each m'"
  unfolding one_bed_each_def
proof (intro allI impI)
  fix i j h g who
  assume a: "m' i = Some h \<and> m' j = Some g \<and> sleeps_in who h \<and> sleeps_in who g"
  obtain h' where h': "m i = Some h'" "sleeps_in who h'" using assms(2) [of i h who] a by blast
  obtain g' where g': "m j = Some g'" "sleeps_in who g'" using assms(2) [of j g who] a by blast
  from assms(1) h' g' show "i = j" unfolding one_bed_each_def by blast
qed

lemma homes_ok_put:
  assumes ok: "homes_ok r" and h: "bget (hm_held r) i = Some h" and same: "same_home h h'"
  shows "homes_ok (put_home i h' r)"
proof (rule homes_okI)
  fix j g
  assume "bget (hm_held (put_home i h' r)) j = Some g"
  then show "held_ok g" using same homes_okD [OF ok h] homes_okD [OF ok, of j g]
    by (simp add: same_home_def split: if_splits)
next
  show "bsum (\<lambda>h. if hd_holder h = who then 1 else 0) (hm_held (put_home i h' r)) \<le> MAX_HELD" for who
    using bsum_bput_old [OF h, of "\<lambda>h. if hd_holder h = who then 1 else 0" h'] homes_okE(1) [OF ok, of who] same
    by (simp add: same_home_def)
next
  show "one_bed_each (bget (hm_held (put_home i h' r)))"
    by (rule one_bed_each_mono [OF homes_okE(2) [OF ok]]) (use h same in \<open>auto simp: same_home_def split: if_splits\<close>)
next
  show "knocks_ok (put_home i h' r)" using homes_okE(3) [OF ok] by (simp add: knocks_ok_def)
qed

lemma homes_ok_del:
  assumes ok: "homes_ok r" and r': "hm_held r' = bdel i (hm_held r)" "hm_knocks r' = hm_knocks r" "hm_knock_seq r' = hm_knock_seq r"
  shows "homes_ok r'"
proof (rule homes_okI)
  fix j g
  assume "bget (hm_held r') j = Some g"
  then show "held_ok g" using homes_okD [OF ok, of j g] r' by (simp split: if_splits)
next
  show "bsum (\<lambda>h. if hd_holder h = who then 1 else 0) (hm_held r') \<le> MAX_HELD" for who
    using bsum_bdel [of "\<lambda>h. if hd_holder h = who then 1 else 0" i "hm_held r"] homes_okE(1) [OF ok, of who]
    unfolding r'(1) by linarith
next
  show "one_bed_each (bget (hm_held r'))"
    by (rule one_bed_each_mono [OF homes_okE(2) [OF ok]]) (use r' in \<open>auto split: if_splits\<close>)
next
  show "knocks_ok r'" using homes_okE(3) [OF ok] r' by (simp add: knocks_ok_def)
qed

section \<open>Quiet changes\<close>

text \<open>A change that moves no credit and no goods and keeps the invariant.\<close>

definition quiet_change :: "homes \<Rightarrow> homes \<Rightarrow> bool" where
  "quiet_change r r' \<longleftrightarrow> (homes_ok r \<longrightarrow> homes_ok r') \<and> homes_books r' = homes_books r \<and> handed_back r' = handed_back r
     \<and> (\<forall>it. register_goods it r' = register_goods it r)"

definition quiet_home :: "held \<Rightarrow> held \<Rightarrow> bool" where
  "quiet_home h h' \<longleftrightarrow> same_home h h' \<and> panel_bank h' = panel_bank h \<and> (\<forall>it. home_goods it h' = home_goods it h)"

lemma quiet_change_refl [simp]: "quiet_change r r"
  by (simp add: quiet_change_def)

lemma quiet_change_trans: "quiet_change r r' \<Longrightarrow> quiet_change r' r'' \<Longrightarrow> quiet_change r r''"
  by (simp add: quiet_change_def)

lemma quiet_put:
  assumes h: "bget (hm_held r) i = Some h" and q: "quiet_home h h'"
  shows "quiet_change r (put_home i h' r)"
proof -
  have "same_home h h'" using q by (simp add: quiet_home_def)
  then have "homes_ok r \<Longrightarrow> homes_ok (put_home i h' r)" using homes_ok_put [OF _ h] by blast
  then show ?thesis
    using bsum_bput_old [OF h, of panel_bank h'] bsum_bput_old [OF h, of "home_goods it" h' for it] q
    by (simp add: quiet_change_def quiet_home_def homes_books_def handed_back_def holding_def register_goods_def)
qed

text \<open>A change of the lock (and of who is asleep), and of the door.\<close>

lemma quiet_lock:
  assumes "lock_ok (hd_holder h) (hd_lock h) \<Longrightarrow> lock_ok (hd_holder h) l"
    and "\<And>a. a \<in> set as \<Longrightarrow> a \<in> set (hd_asleep h) \<and> (is_crew (hd_lock h) (as_who a) \<longrightarrow> is_crew l (as_who a))"
    and "distinct (map as_piece (hd_asleep h)) \<Longrightarrow> distinct (map as_piece as)"
    and "distinct (map as_who (hd_asleep h)) \<Longrightarrow> distinct (map as_who as)"
  shows "quiet_home h (h\<lparr>hd_lock := l, hd_asleep := as\<rparr>)"
  using assms
  by (auto simp: quiet_home_def same_home_def held_ok_def sleepers_ok_def sleeps_in_def panel_bank_def home_goods_def)

lemma quiet_lock_only:
  assumes "lock_ok (hd_holder h) (hd_lock h) \<Longrightarrow> lock_ok (hd_holder h) l"
    and "\<And>who. is_crew (hd_lock h) who \<Longrightarrow> is_crew l who"
  shows "quiet_home h (h\<lparr>hd_lock := l\<rparr>)"
  using quiet_lock [of h l "hd_asleep h"] assms by simp

lemma crew_ofE:
  assumes "crew_of i who r = Inr h"
  obtains "bget (hm_held r) i = Some h" "is_crew (hd_lock h) who"
  using assms by (auto simp: crew_of_def split: option.splits if_splits)

lemma remember_result:
  "remember who cap xs = (ok, ys) \<Longrightarrow> (distinct xs \<longrightarrow> distinct ys) \<and> (length xs \<le> cap \<longrightarrow> length ys \<le> cap)
    \<and> set ys = (if ok then insert who (set xs) else set xs) \<and> (\<not> ok \<longrightarrow> cap \<le> length xs \<and> who \<notin> set xs)"
  by (auto simp: remember_def list_ex_iff split: if_splits)

lemma is_crew_set: "is_crew l who \<longleftrightarrow> who \<in> set (lk_crew l)"
  by (auto simp: is_crew_def list_ex_iff)

lemma lock_enter_ok:
  assumes "lock_enter who code now l = (res, l')" and ok: "lock_ok holder l"
  shows "lock_ok holder l'"
proof -
  define l1 where "l1 = (if lk_shut_until l \<noteq> 0 then l\<lparr>lk_shut_until := 0, lk_misses := 0\<rparr> else l)"
  have l1: "lock_ok holder l1" "lk_misses l1 < LOCKOUT_TRIES" "lk_shut_until l1 = 0"
    using ok by (auto simp: l1_def lock_ok_def is_crew_set LOCKOUT_TRIES_def)
  have sat: "sat8 (lk_misses l1 + 1) \<le> LOCKOUT_TRIES" using l1(2) by (simp add: sat8_def)
  have miss: "lock_ok holder (l1\<lparr>lk_misses := m, lk_last_miss := n, lk_shut_until := (if LOCKOUT_TRIES \<le> m then now + LOCKOUT_S else 0)\<rparr>)"
    if "m \<le> LOCKOUT_TRIES" for m n
    using l1(1) that by (auto simp: lock_ok_def is_crew_set LOCKOUT_S_def)
  show ?thesis
  proof (cases "now < lk_shut_until l")
    case True
    with assms show ?thesis by (simp add: lock_enter_def)
  next
    case False
    note res = assms(1) [unfolded lock_enter_def, simplified False if_False, folded l1_def, unfolded Let_def, folded l1_def]
    have crew: "lock_ok holder (l1\<lparr>lk_crew := c, lk_misses := 0\<rparr>)" if "remember who CREW_CAP (lk_crew l1) = (True, c)" for c
      using remember_result [OF that] l1(1) by (auto simp: lock_ok_def is_crew_set LOCKOUT_TRIES_def)
    have guest: "lock_ok holder (l1\<lparr>lk_guests := g, lk_misses := 0\<rparr>)"
      if "g = lk_guests l1 \<or> remember who GUEST_CAP (lk_guests l1) = (True, g)" for g
      using that remember_result [of who GUEST_CAP "lk_guests l1" True g] l1(1)
      by (auto simp: lock_ok_def is_crew_set LOCKOUT_TRIES_def)
    have zero: "lock_ok holder (l1\<lparr>lk_misses := 0\<rparr>)" using guest [of "lk_guests l1"] by simp
    from res miss [OF sat] l1 crew guest zero show ?thesis
      by (auto split: if_splits prod.splits)
  qed
qed

lemma lock_enter_crew: "lock_enter who code now l = (res, l') \<Longrightarrow> is_crew l w \<Longrightarrow> is_crew l' w"
  unfolding lock_enter_def Let_def
  by (auto simp: is_crew_set split: if_splits prod.splits dest!: remember_result)

named_theorems quietly "the changes that move no credit and no goods"

lemma enter_code_quiet [quietly]: "enter_code i who code now r = (res, r') \<Longrightarrow> quiet_change r r'"
proof -
  assume e: "enter_code i who code now r = (res, r')"
  show ?thesis
  proof (cases "CODE_MAX < code \<or> bget (hm_held r) i = None")
    case True
    with e show ?thesis by (auto simp: enter_code_def split: if_splits)
  next
    case False
    then obtain h where h: "bget (hm_held r) i = Some h" by auto
    obtain re l where l: "lock_enter who code now (hd_lock h) = (re, l)" by force
    have "quiet_home h (h\<lparr>hd_lock := l\<rparr>)"
      by (rule quiet_lock_only) (use lock_enter_ok [OF l] lock_enter_crew [OF l] in auto)
    with e False h l show ?thesis by (auto simp: enter_code_def intro: quiet_put)
  qed
qed

lemma lock_ok_reset:
  assumes "lock_ok holder l" and "code \<le> CODE_MAX"
  shows "lock_ok holder (l\<lparr>lk_code := Some code, lk_guest_code := None, lk_locked := True, lk_guests := [],
            lk_crew := snd (remember who CREW_CAP [holder]), lk_misses := 0, lk_shut_until := 0\<rparr>)"
  using assms remember_result [of who CREW_CAP "[holder]"]
  by (cases "remember who CREW_CAP [holder]") (auto simp: lock_ok_def is_crew_set CREW_CAP_def LOCKOUT_TRIES_def)

lemma quiet_retain:
  assumes "lock_ok (hd_holder h) (hd_lock h) \<Longrightarrow> lock_ok (hd_holder h) l"
    and "\<And>a. P a \<Longrightarrow> is_crew (hd_lock h) (as_who a) \<Longrightarrow> is_crew l (as_who a)"
  shows "quiet_home h (h\<lparr>hd_lock := l, hd_asleep := filter P (hd_asleep h)\<rparr>)"
  by (rule quiet_lock) (use assms in \<open>auto simp: distinct_map_filter\<close>)

lemma set_code_quiet [quietly]: "set_code i who guest code r = (res, r') \<Longrightarrow> quiet_change r r'"
proof -
  assume e: "set_code i who guest code r = (res, r')"
  show ?thesis
  proof (cases "\<exists>h. crew_of i who r = Inr h \<and> (\<forall>c. code = Some c \<longrightarrow> c \<le> CODE_MAX)")
    case True
    then obtain h where h: "crew_of i who r = Inr h" and c: "\<And>c. code = Some c \<Longrightarrow> c \<le> CODE_MAX" by auto
    from h have b: "bget (hm_held r) i = Some h" by (rule crew_ofE)
    have g: "quiet_home h (h\<lparr>hd_lock := (hd_lock h)\<lparr>lk_guest_code := code, lk_guests := []\<rparr>\<rparr>)"
      by (rule quiet_lock_only) (use c in \<open>auto simp: lock_ok_def is_crew_set\<close>)
    have m: "quiet_home h (h\<lparr>hd_lock := l, hd_asleep := filter (\<lambda>a. is_crew l (as_who a)) (hd_asleep h)\<rparr>)"
      if "code = Some k" "l = (hd_lock h)\<lparr>lk_code := Some k, lk_guest_code := None, lk_locked := True, lk_guests := [],
            lk_crew := snd (remember who CREW_CAP [hd_holder h]), lk_misses := 0, lk_shut_until := 0\<rparr>" for k l
      unfolding that(2) by (rule quiet_retain) (use lock_ok_reset [OF _ c [OF that(1)]] in auto)
    from e h b g m c show ?thesis
      by (fastforce simp: set_code_def Let_def intro: quiet_put split: if_splits option.splits)
  next
    case False
    with e show ?thesis by (auto simp: set_code_def not_le split: if_splits option.splits sum.splits)
  qed
qed

lemma set_locked_quiet [quietly]: "set_locked i who lkd r = (res, r') \<Longrightarrow> quiet_change r r'"
proof -
  have "quiet_home h (h\<lparr>hd_lock := (hd_lock h)\<lparr>lk_locked := lkd\<rparr>\<rparr>)" for h
    by (rule quiet_lock_only) (auto simp: lock_ok_def is_crew_set)
  then show "set_locked i who lkd r = (res, r') \<Longrightarrow> ?thesis"
    by (auto simp: set_locked_def intro: quiet_put elim: crew_ofE split: sum.splits)
qed

lemma quiet_open: "quiet_home h (h\<lparr>hd_open := b\<rparr>)"
  by (simp add: quiet_home_def same_home_def held_ok_def sleepers_ok_def sleeps_in_def panel_bank_def home_goods_def)

lemma door_quiet [quietly]: "door i who b r = (res, r') \<Longrightarrow> quiet_change r r'"
  by (auto simp: door_def intro: quiet_put quiet_open split: option.splits if_splits)

lemma leave_crew_quiet [quietly]: "leave_crew i who r = (res, r') \<Longrightarrow> quiet_change r r'"
proof -
  have "quiet_home h (h\<lparr>hd_lock := (hd_lock h)\<lparr>lk_crew := filter (\<lambda>c. c \<noteq> who) (lk_crew (hd_lock h)),
                          lk_guests := filter (\<lambda>c. c \<noteq> who) (lk_guests (hd_lock h))\<rparr>,
                    hd_asleep := filter (\<lambda>a. as_who a \<noteq> who) (hd_asleep h)\<rparr>)" if "hd_holder h \<noteq> who" for h
    by (rule quiet_retain) (use that in \<open>auto simp: lock_ok_def is_crew_set intro: le_trans [OF length_filter_le]\<close>)
  then show "leave_crew i who r = (res, r') \<Longrightarrow> ?thesis"
    by (auto simp: leave_crew_def intro: quiet_put split: option.splits if_splits)
qed

lemma clear_crew_quiet [quietly]: "clear_crew i who r = (res, r') \<Longrightarrow> quiet_change r r'"
proof -
  have "quiet_home h (h\<lparr>hd_lock := l, hd_asleep := filter (\<lambda>a. is_crew l (as_who a)) (hd_asleep h)\<rparr>)"
    if "l = (hd_lock h)\<lparr>lk_crew := filter (\<lambda>c. c = hd_holder h \<or> c = who) (lk_crew (hd_lock h)), lk_guests := []\<rparr>" for h l
    unfolding that by (rule quiet_retain) (auto simp: lock_ok_def is_crew_set intro: le_trans [OF length_filter_le])
  then show "clear_crew i who r = (res, r') \<Longrightarrow> ?thesis"
    by (auto simp: clear_crew_def Let_def intro: quiet_put elim: crew_ofE split: sum.splits)
qed

lemma visited_quiet [quietly]: "quiet_change r (visited i who now r)"
proof -
  have "quiet_home h (h\<lparr>hd_tenure := Deed c now\<rparr>)" if "hd_tenure h = Deed c s" for h c s
    using that by (simp add: quiet_home_def same_home_def held_ok_def sleepers_ok_def sleeps_in_def panel_bank_def home_goods_def)
  then show ?thesis by (auto simp: visited_def intro: quiet_put split: option.split tenure.split)
qed

lemma knock_quiet [quietly]: "knock_at i who r = (res, r') \<Longrightarrow> quiet_change r r'"
proof -
  assume e: "knock_at i who r = (res, r')"
  have same: "hm_held r' = hm_held r" "hm_accounts r' = hm_accounts r" "rent_taken r' = rent_taken r"
    "sold_for r' = sold_for r" "paid_back r' = paid_back r" "furniture_sold r' = furniture_sold r"
    "furniture_back r' = furniture_back r"
    using e by (auto simp: knock_at_def Let_def split: if_splits)
  have "homes_ok r \<Longrightarrow> homes_ok r'"
  proof -
    assume ok: "homes_ok r"
    define ks where "ks = hm_knocks r @ [\<lparr>kn_seq = hm_knock_seq r + 1, kn_home = i, kn_by = who\<rparr>]"
    have k: "length ks \<le> KNOCKS + 1" "sorted_wrt (<) (map kn_seq ks)" "\<forall>k \<in> set ks. kn_seq k \<le> hm_knock_seq r + 1"
      using homes_okE(3) [OF ok] by (auto simp: knocks_ok_def ks_def sorted_wrt_append le_imp_less_Suc)
    have "r' = r \<or> r' = r\<lparr>hm_knock_seq := hm_knock_seq r + 1, hm_knocks := (if KNOCKS < length ks then tl ks else ks)\<rparr>"
      using e by (auto simp: knock_at_def Let_def ks_def split: if_splits)
    then have "knocks_ok r'"
      using homes_okE(3) [OF ok] k by (cases ks) (auto simp: knocks_ok_def split: if_splits)
    with ok same(1) show "homes_ok r'" by (simp add: homes_ok_def homes_of_def)
  qed
  with same show "quiet_change r r'"
    by (simp add: quiet_change_def homes_books_def handed_back_def holding_def register_goods_def)
qed

text \<open>Every home changed at once.\<close>

lemma bsum_bmapv_same:
  assumes "\<And>k v. bget m k = Some v \<Longrightarrow> f (g k v) = f v"
  shows "bsum f (bmapv g m) = bsum f m"
proof -
  have "map (\<lambda>e. f (g (fst e) (snd e))) (entries m) = map (\<lambda>e. f (snd e)) (entries m)"
    by (rule map_cong) (auto intro: assms simp: bget_entries)
  from arg_cong [OF this, of sum_list] show ?thesis
    unfolding bsum_def bvals_def by (simp only: entries_bmapv map_map comp_def case_prod_beta snd_conv)
qed

lemma homes_ok_map:
  assumes same: "\<And>i h. bget (hm_held r) i = Some h \<Longrightarrow> same_home h (g i h)" and ok: "homes_ok r"
    and r': "hm_held r' = bmapv g (hm_held r)" "hm_knocks r' = hm_knocks r" "hm_knock_seq r' = hm_knock_seq r"
  shows "homes_ok r'"
proof (rule homes_okI)
  fix i h'
  assume "bget (hm_held r') i = Some h'"
  then show "held_ok h'" using same homes_okD [OF ok] by (auto simp: r' same_home_def)
next
  have "bsum (\<lambda>h. if hd_holder h = who then 1 else 0) (bmapv g (hm_held r))
      = bsum (\<lambda>h. if hd_holder h = who then 1 else 0) (hm_held r)" for who
    by (rule bsum_bmapv_same) (use same in \<open>simp add: same_home_def\<close>)
  then show "bsum (\<lambda>h. if hd_holder h = who then 1 else 0) (hm_held r') \<le> MAX_HELD" for who
    using homes_okE(1) [OF ok, of who] by (simp add: r')
next
  show "one_bed_each (bget (hm_held r'))"
    by (rule one_bed_each_mono [OF homes_okE(2) [OF ok]]) (use same in \<open>auto simp: r' same_home_def\<close>)
qed (use homes_okE(3) [OF ok] r' in \<open>simp add: knocks_ok_def\<close>)

lemma quiet_map:
  assumes "\<And>i h. bget (hm_held r) i = Some h \<Longrightarrow> quiet_home h (g i h)"
  shows "quiet_change r (r\<lparr>hm_held := bmapv g (hm_held r)\<rparr>)"
proof -
  have sums: "bsum panel_bank (bmapv g (hm_held r)) = bsum panel_bank (hm_held r)"
    "bsum (home_goods it) (bmapv g (hm_held r)) = bsum (home_goods it) (hm_held r)" for it
    by (rule bsum_bmapv_same; use assms in \<open>simp add: quiet_home_def\<close>)+
  have "homes_ok (r\<lparr>hm_held := bmapv g (hm_held r)\<rparr>)" if "homes_ok r"
    by (rule homes_ok_map [OF _ that]) (use assms in \<open>auto simp: quiet_home_def\<close>)
  then show ?thesis
    by (simp add: quiet_change_def homes_books_def handed_back_def holding_def register_goods_def sums)
qed

lemma hold_quiet [quietly]: "quiet_change r (snd (hold now r))"
proof -
  have "quiet_home h (fst (held_over now h))" for h
    by (cases "hd_tenure h")
      (auto simp: held_over_def quiet_home_def same_home_def held_ok_def sleepers_ok_def sleeps_in_def panel_bank_def
        home_goods_def)
  then show ?thesis unfolding hold_def snd_conv by (intro quiet_map)
qed

text \<open>A piece changed in place: its kind, its id and what it holds stay.\<close>

lemma quiet_piece:
  assumes "j < length (hd_pieces h)" and p: "p' = hd_pieces h ! j"
    and "pc_id p = pc_id p'" "pc_kind p = pc_kind p'" "pc_holds p = pc_holds p'" "pc_turn p < 4"
  shows "quiet_home h (h\<lparr>hd_pieces := (hd_pieces h)[j := p]\<rparr>)"
proof -
  have goods: "map (\<lambda>p. goods_in it (pc_holds p)) ((hd_pieces h)[j := p]) = map (\<lambda>p. goods_in it (pc_holds p)) (hd_pieces h)" for it
    using assms by (simp add: map_update list_update_same_conv)
  have "holds_ok p = holds_ok p'" using assms by (simp add: holds_ok_def)
  have ok: "\<forall>q \<in> set ((hd_pieces h)[j := p]). pc_turn q < 4 \<and> holds_ok q"
    if "\<forall>q \<in> set (hd_pieces h). pc_turn q < 4 \<and> holds_ok q"
  proof
    fix q
    assume "q \<in> set ((hd_pieces h)[j := p])"
    then have "q = p \<or> q \<in> set (hd_pieces h)" using set_update_subset_insert [of "hd_pieces h" j p] by auto
    moreover have "holds_ok p'" using that assms(1) p by simp
    ultimately show "pc_turn q < 4 \<and> holds_ok q" using that assms(6) \<open>holds_ok p = holds_ok p'\<close> by blast
  qed
  have beds: "\<exists>q \<in> set ((hd_pieces h)[j := p]). pc_id q = k \<and> pc_kind q = Bed"
    if "\<exists>q \<in> set (hd_pieces h). pc_id q = k \<and> pc_kind q = Bed" for k
  proof -
    from that obtain m where m: "m < length (hd_pieces h)" "pc_id (hd_pieces h ! m) = k" "pc_kind (hd_pieces h ! m) = Bed"
      by (auto simp: in_set_conv_nth)
    with assms have "pc_id ((hd_pieces h)[j := p] ! m) = k" "pc_kind ((hd_pieces h)[j := p] ! m) = Bed"
      by (auto simp: nth_list_update)
    with m(1) show ?thesis by (metis length_list_update nth_mem)
  qed
  let ?h = "h\<lparr>hd_pieces := (hd_pieces h)[j := p]\<rparr>"
  have "sleepers_ok ?h" if "sleepers_ok h"
    unfolding sleepers_ok_def
  proof (intro conjI ballI)
    fix a
    assume "a \<in> set (hd_asleep ?h)"
    then show "is_crew (hd_lock ?h) (as_who a)" and "\<exists>q \<in> set (hd_pieces ?h). pc_id q = as_piece a \<and> pc_kind q = Bed"
      using that beds [of "as_piece a"] by (simp_all add: sleepers_ok_def)
  qed (use that in \<open>simp_all add: sleepers_ok_def\<close>)
  note beds' = this
  have "held_ok ?h" if h: "held_ok h"
  proof -
    have "sleepers_ok ?h" by (rule beds') (use h in \<open>simp add: held_ok_def\<close>)
    moreover have "\<forall>q \<in> set ((hd_pieces h)[j := p]). pc_turn q < 4 \<and> holds_ok q"
      by (rule ok) (use h in \<open>simp add: held_ok_def\<close>)
    ultimately show ?thesis using h unfolding held_ok_def by simp
  qed
  then show ?thesis
    by (simp add: quiet_home_def same_home_def sleeps_in_def panel_bank_def home_goods_def goods)
qed

lemma move_piece_quiet [quietly]: "move_piece c i who k spot turn storey r = (res, r') \<Longrightarrow> quiet_change r r'"
  unfolding move_piece_def Let_def
  by (auto intro!: quiet_put quiet_piece elim: crew_ofE dest: position_Some split: sum.splits option.splits)

text \<open>Waking and falling asleep.\<close>

lemma wake_cases:
  assumes "wake who r = (res, r')"
  obtains (nowhere) "r' = r" "res = None" "\<And>i h. bget (hm_held r) i = Some h \<Longrightarrow> \<not> sleeps_in who h"
  | (abed) i h j where "bget (hm_held r) i = Some h" "j < length (hd_asleep h)" "as_who (hd_asleep h ! j) = who"
      "r' = put_home i (h\<lparr>hd_asleep := remove_at j (hd_asleep h)\<rparr>) r"
      "res = (if is_crew (hd_lock h) who
              then map_option (\<lambda>bed. (i, bed)) (find (\<lambda>p. pc_id p = as_piece (hd_asleep h ! j)) (hd_pieces h)) else None)"
proof (cases "find (\<lambda>(i, h). list_ex (\<lambda>a. as_who a = who) (hd_asleep h)) (entries (hm_held r))")
  case None
  then have "\<not> sleeps_in who h" if "bget (hm_held r) i = Some h" for i h
    using that by (auto simp: find_None_iff bget_entries sleeps_in_def list_ex_iff)
  with assms None show ?thesis by (intro nowhere) (simp_all add: wake_def)
next
  case (Some e)
  obtain i h where e: "e = (i, h)" by force
  with Some have "(i, h) \<in> set (entries (hm_held r)) \<and> list_ex (\<lambda>a. as_who a = who) (hd_asleep h)"
    by (auto simp: find_Some_iff in_set_conv_nth)
  then have h: "bget (hm_held r) i = Some h" and ex: "list_ex (\<lambda>a. as_who a = who) (hd_asleep h)"
    by (simp_all add: bget_entries)
  then obtain j where j: "position (\<lambda>a. as_who a = who) (hd_asleep h) = Some j"
    by (cases "position (\<lambda>a. as_who a = who) (hd_asleep h)") (auto simp: position_None list_ex_iff)
  then have "j < length (hd_asleep h)" "as_who (hd_asleep h ! j) = who" by (auto dest: position_Some)
  then show ?thesis
    by (rule abed [OF h]) (use assms Some e j in \<open>auto simp: wake_def Let_def split: if_splits\<close>)
qed

lemma quiet_asleep:
  assumes "set as \<subseteq> set (hd_asleep h)" and "distinct (map as_piece (hd_asleep h)) \<Longrightarrow> distinct (map as_piece as)"
    and "distinct (map as_who (hd_asleep h)) \<Longrightarrow> distinct (map as_who as)"
  shows "quiet_home h (h\<lparr>hd_asleep := as\<rparr>)"
  using quiet_lock [of h "hd_lock h" as] assms by auto

lemma wake_quiet [quietly]: "wake who r = (res, r') \<Longrightarrow> quiet_change r r'"
proof (erule wake_cases)
  fix i h j
  assume h: "bget (hm_held r) i = Some h" and r': "r' = put_home i (h\<lparr>hd_asleep := remove_at j (hd_asleep h)\<rparr>) r"
  have "quiet_home h (h\<lparr>hd_asleep := remove_at j (hd_asleep h)\<rparr>)"
    by (rule quiet_asleep) (simp_all add: set_remove_at map_remove_at distinct_remove_at)
  with h show "quiet_change r r'" unfolding r' by (rule quiet_put)
qed simp

text \<open>Nobody is asleep anywhere once woken.\<close>

lemma woken:
  assumes "homes_ok r" and "wake who r = (res, r')" and i: "bget (hm_held r') i = Some h"
  shows "\<not> sleeps_in who h"
  using assms(2)
proof (cases rule: wake_cases)
  case nowhere
  with i show ?thesis by simp
next
  case (abed k g j)
  show ?thesis
  proof (cases "i = k")
    case True
    with abed i have h: "h = g\<lparr>hd_asleep := remove_at j (hd_asleep g)\<rparr>" by simp
    have "distinct (map as_who (hd_asleep g))"
      using homes_okD [OF assms(1) abed(1)] by (simp add: held_ok_def sleepers_ok_def)
    from nth_notin_remove_at [OF this, of j] abed(2,3) show ?thesis
      by (simp add: h sleeps_in_def flip: map_remove_at)
  next
    case False
    with abed i have h: "bget (hm_held r) i = Some h" by simp
    have "sleeps_in who g" using abed(2,3) by (force simp: sleeps_in_def)
    with homes_okE(2) [OF assms(1)] abed(1) h False show ?thesis unfolding one_bed_each_def by blast
  qed
qed

lemma books_put:
  assumes "bget (hm_held r) i = Some h"
  shows "homes_books (put_home i h' r) + panel_bank h = homes_books r + panel_bank h'"
    and "register_goods it (put_home i h' r) + home_goods it h = register_goods it r + home_goods it h'"
    and "handed_back (put_home i h' r) = handed_back r"
  using bsum_bput_old [OF assms, of panel_bank h'] bsum_bput_old [OF assms, of "home_goods it" h']
  by (simp_all add: homes_books_def handed_back_def holding_def register_goods_def)

lemma first_least_in: "first_least f xs = Some x \<Longrightarrow> x \<in> set xs"
  by (induction xs arbitrary: x) (auto split: option.splits if_splits)

lemma sleep_quiet [quietly]: "sleep hypot i who name spot storey r = (res, r') \<Longrightarrow> quiet_change r r'"
proof -
  assume e: "sleep hypot i who name spot storey r = (res, r')"
  obtain wr r1 where w: "wake who r = (wr, r1)" by force
  have q: "quiet_change r r1" using w by (rule wake_quiet)
  show ?thesis
  proof (cases "r' = r1")
    case True
    with q show ?thesis by simp
  next
    case False
    with e w obtain h p where h: "bget (hm_held r1) i = Some h" "is_crew (hd_lock h) who"
      and p: "first_least (far_from hypot spot storey)
          (filter (\<lambda>p. pc_kind p = Bed \<and> \<not> list_ex (\<lambda>a. as_piece a = pc_id p) (hd_asleep h)) (hd_pieces h)) = Some p"
      and r': "r' = put_home i (h\<lparr>hd_asleep := hd_asleep h @ [\<lparr>as_piece = pc_id p, as_who = who, as_name = name\<rparr>]\<rparr>) r1"
      by (auto simp: sleep_def split: option.splits if_splits)
    let ?h = "h\<lparr>hd_asleep := hd_asleep h @ [\<lparr>as_piece = pc_id p, as_who = who, as_name = name\<rparr>]\<rparr>"
    have bed: "p \<in> set (hd_pieces h)" "pc_kind p = Bed" "pc_id p \<notin> as_piece ` set (hd_asleep h)"
      using first_least_in [OF p] by (auto simp: list_ex_iff)
    have "homes_ok r'" if ok: "homes_ok r"
    proof (rule homes_okI)
      have ok1: "homes_ok r1" using q ok by (simp add: quiet_change_def)
      have none: "\<not> sleeps_in who g" if "bget (hm_held r1) j = Some g" for j g
        using woken [OF ok w that] .
      have "as_who a \<noteq> who" if "a \<in> set (hd_asleep h)" for a
        using none [OF h(1)] that by (auto simp: sleeps_in_def)
      then have "held_ok ?h" using homes_okD [OF ok1 h(1)] bed h(2)
        by (auto simp: held_ok_def sleepers_ok_def)
      then show "held_ok g" if "bget (hm_held r') j = Some g" for j g
        using that homes_okD [OF ok1] by (auto simp: r' split: if_splits)
      show "bsum (\<lambda>h. if hd_holder h = w then 1 else 0) (hm_held r') \<le> MAX_HELD" for w
        using bsum_bput_old [OF h(1), of "\<lambda>h. if hd_holder h = w then 1 else 0" ?h] homes_okE(1) [OF ok1, of w]
        by (simp add: r')
      show "one_bed_each (bget (hm_held r'))"
        unfolding one_bed_each_def
      proof (intro allI impI)
        fix j k f g w
        assume a: "bget (hm_held r') j = Some f \<and> bget (hm_held r') k = Some g \<and> sleeps_in w f \<and> sleeps_in w g"
        show "j = k"
        proof (cases "w = who")
          case True
          with a none show ?thesis by (auto simp: r' split: if_splits)
        next
          case False
          then have "sleeps_in w ?h \<Longrightarrow> sleeps_in w h" by (simp add: sleeps_in_def)
          with a h(1) have "\<exists>f' g'. bget (hm_held r1) j = Some f' \<and> bget (hm_held r1) k = Some g' \<and> sleeps_in w f' \<and> sleeps_in w g'"
            by (auto simp: r' split: if_splits)
          with homes_okE(2) [OF ok1] show ?thesis unfolding one_bed_each_def by blast
        qed
      qed
      show "knocks_ok r'" using homes_okE(3) [OF ok1] by (simp add: r' knocks_ok_def)
    qed
    with q books_put(1,3) [OF h(1), where h' = ?h] books_put(2) [OF h(1), where h' = ?h] show ?thesis
      by (simp add: quiet_change_def r' panel_bank_def home_goods_def)
  qed
qed

section \<open>Changes that move credits and goods\<close>

text \<open>Between a hangar and the register: the invariant kept, no credit and no goods made or lost (as long
  as the stores can count them).\<close>

definition moves :: "homes \<times> hangar \<Rightarrow> homes \<times> hangar \<Rightarrow> bool" where
  "moves s s' \<longleftrightarrow> (case (s, s') of ((r, h), (r', h')) \<Rightarrow>
     (homes_ok r \<longrightarrow> homes_ok r')
   \<and> credits h' + homes_books r' + handed_back r = credits h + homes_books r + handed_back r'
   \<and> (\<forall>it. st_get (hstores h) it + register_goods it r \<le> u64_max \<longrightarrow>
        st_get (hstores h') it + register_goods it r' = st_get (hstores h) it + register_goods it r))"

lemma moves_refl [simp]: "moves s s"
  by (simp add: moves_def split: prod.split)

lemma moves_quiet: "quiet_change r r' \<Longrightarrow> moves (r, h) (r', h)"
  by (simp add: moves_def quiet_change_def)

lemma st_get_add_goods_list:
  "st_get st it + goods_in it gs \<le> u64_max \<Longrightarrow> st_get (add_goods_list gs st) it = st_get st it + goods_in it gs"
proof (induction gs arbitrary: st)
  case (Cons g gs)
  obtain j q where g: "g = (j, q)" by force
  have "st_get (st_add j q st) it = st_get st it + (if j = it then q else 0)"
    using Cons.prems g by (auto simp: st_get_add st_get_add_other)
  with Cons.IH [of "st_add j q st"] Cons.prems show ?case by (simp add: g add_goods_list_def)
qed (simp add: add_goods_list_def)

lemma goods_in_entries: "goods_in it (entries m) = bor 0 (bget m it)"
proof -
  have "distinct (map fst xs) \<Longrightarrow> goods_in it xs = bor 0 (map_of xs it)" for xs :: "(item \<times> nat) list"
  proof (induction xs)
    case (Cons x xs)
    obtain j q where x: "x = (j, q)" by force
    have "map_of xs it = None" if "j = it" using Cons.prems that by (simp add: x map_of_eq_None_iff)
    then show ?case using Cons by (auto simp: x)
  qed simp
  from this [OF ssorted_distinct [OF entries_sorted]] show ?thesis by (simp add: bget.rep_eq)
qed

lemma put_goods_get: "bor 0 (bget (put_goods gs m) it) = bor 0 (bget m it) + goods_in it gs"
proof (induction gs arbitrary: m)
  case (Cons g gs)
  obtain j q where "g = (j, q)" by force
  with Cons [of "bupd 0 (\<lambda>e. e + q) j m"] show ?case by (auto simp: put_goods_def)
qed (simp add: put_goods_def)

text \<open>A new home: taken by a pilot with room for one more.\<close>

lemma homes_ok_new:
  assumes ok: "homes_ok r" and take: "can_take home who r = None"
  shows "homes_ok (put_home (ho_id home) (newly_held who name t now) r)" (is "homes_ok (put_home ?i ?h r)")
proof (rule homes_okI)
  have new: "bget (hm_held r) ?i = None" and room: "length (homes_of who r) < MAX_HELD"
    using take by (auto simp: can_take_def split: if_splits)
  have "held_ok ?h"
    by (simp add: held_ok_def newly_held_def lock_ok_def key_lock_def is_crew_set sleepers_ok_def CREW_CAP_def
        LOCKOUT_TRIES_def)
  then show "held_ok g" if "bget (hm_held (put_home ?i ?h r)) j = Some g" for j g
    using that homes_okD [OF ok] by (auto split: if_splits)
  show "bsum (\<lambda>h. if hd_holder h = w then 1 else 0) (hm_held (put_home ?i ?h r)) \<le> MAX_HELD" for w
    using bsum_bput_new [OF new, of "\<lambda>h. if hd_holder h = w then 1 else 0" ?h] room homes_okE(1) [OF ok, of w]
    by (auto simp: homes_of_sum newly_held_def)
  show "one_bed_each (bget (hm_held (put_home ?i ?h r)))"
    by (rule one_bed_each_mono [OF homes_okE(2) [OF ok]])
      (auto simp: sleeps_in_def newly_held_def split: if_splits)
  show "knocks_ok (put_home ?i ?h r)" using homes_okE(3) [OF ok] by (simp add: knocks_ok_def)
qed

text \<open>One home changed in place, the counters of the register with it.\<close>

lemma moves_put:
  assumes i: "bget (hm_held r) i = Some g" and same: "same_home g g'"
    and r': "hm_held r' = bput i g' (hm_held r)" "hm_accounts r' = hm_accounts r" "hm_knocks r' = hm_knocks r"
      "hm_knock_seq r' = hm_knock_seq r"
    and cr: "credits h' + panel_bank g' + rent_taken r' + sold_for r' + furniture_sold r' + handed_back r
           = credits h + panel_bank g + rent_taken r + sold_for r + furniture_sold r + handed_back r'"
    and goods: "\<And>it. st_get (hstores h) it + home_goods it g \<le> u64_max
      \<Longrightarrow> st_get (hstores h') it + home_goods it g' = st_get (hstores h) it + home_goods it g"
  shows "moves (r, h) (r', h')"
proof -
  have "homes_ok r \<Longrightarrow> homes_ok r'"
    using homes_ok_put [OF _ i same] homes_ok_cong [of r' "put_home i g' r"] r' by simp
  moreover have "credits h' + homes_books r' + handed_back r = credits h + homes_books r + handed_back r'"
    using bsum_bput_old [OF i, of panel_bank g'] cr r'(1,2) by (simp add: homes_books_def holding_def)
  moreover have "st_get (hstores h') it + register_goods it r' = st_get (hstores h) it + register_goods it r"
    if "st_get (hstores h) it + register_goods it r \<le> u64_max" for it
  proof -
    have "home_goods it g \<le> register_goods it r"
      using bsum_ge [OF i, of "home_goods it"] by (simp add: register_goods_def)
    with goods [of it] that bsum_bput_old [OF i, of "home_goods it" g'] r'(1,2) show ?thesis
      by (simp add: register_goods_def)
  qed
  ultimately show ?thesis by (simp add: moves_def)
qed

lemma same_home_tenure [simp]: "same_home h (h\<lparr>hd_tenure := t\<rparr>)"
  by (simp add: same_home_def held_ok_def sleepers_ok_def sleeps_in_def)

named_theorems moving "the requests that move credits or goods between a hangar and the register"

lemma rent_home_moves [moving]:
  assumes "rent_home home who name weeks now r h = (res, r', h')" shows "moves (r, h) (r', h')"
proof (cases "bought home \<or> can_take home who r \<noteq> None \<or> credits h < rent home * max 1 (min MAX_WEEKS weeks)")
  case True
  with assms show ?thesis by (auto simp: rent_home_def Let_def split: option.splits if_splits)
next
  case False
  define cost where "cost = rent home * max 1 (min MAX_WEEKS weeks)"
  have take: "can_take home who r = None" and cost: "cost \<le> credits h" using False by (auto simp: cost_def)
  then have new: "bget (hm_held r) (ho_id home) = None" by (auto simp: can_take_def split: if_splits)
  have r': "r' = put_home (ho_id home) (newly_held who name (Lease cost now None) now) r" "h' = h\<lparr>credits := credits h - cost\<rparr>"
    using assms False by (auto simp: rent_home_def Let_def cost_def)
  show ?thesis using homes_ok_new [OF _ take] cost new
    by (simp add: moves_def r' homes_books_def handed_back_def holding_def register_goods_def panel_bank_def
        newly_held_def home_goods_def)
qed

lemma buy_home_moves [moving]:
  assumes "buy_home home who name now r h = (res, r', h')" shows "moves (r, h) (r', h')"
proof (cases "\<not> bought home \<or> can_take home who r \<noteq> None \<or> credits h < home_price home")
  case True
  with assms show ?thesis by (auto simp: buy_home_def Let_def split: option.splits if_splits)
next
  case False
  have take: "can_take home who r = None" and cost: "home_price home \<le> credits h" using False by auto
  then have new: "bget (hm_held r) (ho_id home) = None" by (auto simp: can_take_def split: if_splits)
  let ?r = "put_home (ho_id home) (newly_held who name (Deed (home_price home) now) now) r"
  have r': "r' = ?r\<lparr>sold_for := sold_for r + home_price home\<rparr>" "h' = h\<lparr>credits := credits h - home_price home\<rparr>"
    using assms False by (auto simp: buy_home_def Let_def)
  have "homes_ok r \<Longrightarrow> homes_ok r'"
    using homes_ok_new [OF _ take] homes_ok_cong [of r' ?r] by (simp add: r')
  then show ?thesis using cost new
    by (simp add: moves_def r' homes_books_def handed_back_def holding_def register_goods_def panel_bank_def
        newly_held_def home_goods_def)
qed

lemma feed_moves [moving]:
  assumes "feed i cr r h = (res, r', h')" shows "moves (r, h) (r', h')"
  using assms unfolding feed_def
  by (auto intro!: moves_put simp: panel_bank_def handed_back_def home_goods_def split: option.splits tenure.splits if_splits)

lemma withdraw_rent_moves [moving]:
  assumes "withdraw_rent i who cr r h = (res, r', h')" shows "moves (r, h) (r', h')"
  using assms unfolding withdraw_rent_def
  by (auto intro!: moves_put elim!: crew_ofE simp: panel_bank_def handed_back_def home_goods_def
      split: sum.splits tenure.splits if_splits)

lemma give_up_moves [moving]:
  assumes "give_up c i who r h = (res, r', h')" shows "moves (r, h) (r', h')"
proof (cases "held_by i who r")
  case (Inl why)
  with assms show ?thesis by (simp add: give_up_def)
next
  case (Inr g)
  then have g: "bget (hm_held r) i = Some g" by (auto simp: held_by_def split: option.splits if_splits)
  define cr where "cr = sum_list (map piece_back (hd_pieces g))"
  define gs where "gs = concat (map pc_holds (hd_pieces g))"
  have r': "hm_held r' = bdel i (hm_held r)" "hm_accounts r' = hm_accounts r" "hm_knocks r' = hm_knocks r"
      "hm_knock_seq r' = hm_knock_seq r" "rent_taken r' = rent_taken r" "sold_for r' = sold_for r"
      "furniture_sold r' = furniture_sold r" "hstores h' = add_goods_list gs (hstores h)"
    and cr': "credits h' + handed_back r = credits h + panel_bank g + handed_back r'"
    using assms Inr
    by (auto simp: give_up_def cleared_out_def Let_def handed_back_def panel_bank_def gs_def cr_def split: tenure.splits)
  have "home_goods it g = goods_in it gs" for it by (simp add: gs_def home_goods_concat home_goods_def)
  then have "st_get (hstores h') it + register_goods it r' = st_get (hstores h) it + register_goods it r"
    if "st_get (hstores h) it + register_goods it r \<le> u64_max" for it
    using that bsum_bdel_old [OF g, of "home_goods it"] st_get_add_goods_list [of "hstores h" it gs]
    by (simp add: register_goods_def r')
  then show ?thesis
    using homes_ok_del [OF _ r'(1,3,4)] cr' bsum_bdel_old [OF g, of panel_bank]
    by (simp add: moves_def homes_books_def holding_def r')
qed

lemma homes_collect_moves [moving]:
  assumes "homes_collect who r h = (res, r', h')" shows "moves (r, h) (r', h')"
proof (cases "bget (hm_accounts r) who")
  case None
  with assms show ?thesis by (simp add: homes_collect_def)
next
  case (Some a)
  with assms have r': "r' = r\<lparr>hm_accounts := bdel who (hm_accounts r)\<rparr>"
      "h' = h\<lparr>credits := credits h + ha_credits a, hstores := add_goods_list (entries (ha_goods a)) (hstores h)\<rparr>"
    by (auto simp: homes_collect_def)
  have "st_get (hstores h') it + register_goods it r' = st_get (hstores h) it + register_goods it r"
    if "st_get (hstores h) it + register_goods it r \<le> u64_max" for it
    using that bsum_bdel_old [OF Some, of "waiting_goods it"] st_get_add_goods_list [of "hstores h" it "entries (ha_goods a)"]
    by (simp add: register_goods_def r' goods_in_entries waiting_goods_def)
  then show ?thesis
    using homes_ok_cong [of r' r] bsum_bdel_old [OF Some, of ha_credits]
    by (simp add: moves_def homes_books_def handed_back_def holding_def r')
qed

text \<open>Furniture bought and sold.\<close>

lemma same_home_pieces:
  assumes "length ps \<le> MAX_PIECES"
    and "\<And>p. held_ok h \<Longrightarrow> p \<in> set ps \<Longrightarrow> pc_turn p < 4 \<and> holds_ok p"
    and "\<And>p. p \<in> set (hd_pieces h) \<Longrightarrow> pc_kind p = Bed \<Longrightarrow> pc_id p \<in> as_piece ` set (hd_asleep h)
           \<Longrightarrow> \<exists>q \<in> set ps. pc_id q = pc_id p \<and> pc_kind q = Bed"
  shows "same_home h (h\<lparr>hd_next_piece := n, hd_pieces := ps\<rparr>)"
proof -
  have "sleepers_ok (h\<lparr>hd_next_piece := n, hd_pieces := ps\<rparr>)" if s: "sleepers_ok h"
    unfolding sleepers_ok_def
  proof (intro conjI ballI)
    fix a
    assume "a \<in> set (hd_asleep (h\<lparr>hd_next_piece := n, hd_pieces := ps\<rparr>))"
    then have a: "a \<in> set (hd_asleep h)" by simp
    with s show "is_crew (hd_lock (h\<lparr>hd_next_piece := n, hd_pieces := ps\<rparr>)) (as_who a)"
      by (simp add: sleepers_ok_def)
    from s a obtain p where p: "p \<in> set (hd_pieces h)" "pc_id p = as_piece a" "pc_kind p = Bed"
      by (auto simp: sleepers_ok_def)
    with a have "pc_id p \<in> as_piece ` set (hd_asleep h)" by simp
    from assms(3) [OF p(1,3) this] p(2)
    show "\<exists>q \<in> set (hd_pieces (h\<lparr>hd_next_piece := n, hd_pieces := ps\<rparr>)). pc_id q = as_piece a \<and> pc_kind q = Bed"
      by simp
  qed (use s in \<open>simp_all add: sleepers_ok_def\<close>)
  note beds = this
  have "held_ok (h\<lparr>hd_next_piece := n, hd_pieces := ps\<rparr>)" if h: "held_ok h"
  proof -
    have "sleepers_ok (h\<lparr>hd_next_piece := n, hd_pieces := ps\<rparr>)" by (rule beds) (use h in \<open>simp add: held_ok_def\<close>)
    moreover have "\<forall>p \<in> set ps. pc_turn p < 4 \<and> holds_ok p" using assms(2) [OF h] by blast
    ultimately show ?thesis using h assms(1) unfolding held_ok_def by simp
  qed
  then show ?thesis by (simp add: same_home_def sleeps_in_def)
qed

lemma same_next_piece: "g\<lparr>hd_next_piece := hd_next_piece g, hd_pieces := ps\<rparr> = g\<lparr>hd_pieces := ps\<rparr>" for g :: held
  by simp

lemma furnish_moves [moving]:
  assumes "furnish c i who kind spot turn storey r h = (res, r', h')" shows "moves (r, h) (r', h')"
proof (cases "r' = r \<and> h' = h")
  case False
  define cost where "cost = fs_price (spec kind)"
  from assms False obtain g where crew: "crew_of i who r = Inr g"
    by (cases "crew_of i who r") (auto simp: furnish_def)
  define p where "p = \<lparr>pc_id = hd_next_piece g, pc_kind = kind, pc_s = fst spot, pc_x = snd spot, pc_turn = turn mod 4,
      pc_storey = storey, pc_holds = []\<rparr>"
  define g' where "g' = g\<lparr>hd_next_piece := (hd_next_piece g + 1) mod 2 ^ 16, hd_pieces := hd_pieces g @ [p]\<rparr>"
  have room: "length (hd_pieces g) < MAX_PIECES" and cash: "cost \<le> credits h"
    and r': "r' = (put_home i g' r)\<lparr>furniture_sold := furniture_sold r + cost\<rparr>" "h' = h\<lparr>credits := credits h - cost\<rparr>"
    using assms False crew
    by (auto simp: furnish_def Let_def cost_def g'_def p_def split: option.splits if_splits)
  have "same_home g g'" unfolding g'_def
    by (rule same_home_pieces) (use room in \<open>auto simp: held_ok_def p_def holds_ok_def\<close>)
  note same = this
  have b: "bget (hm_held r) i = Some g" using crew by (rule crew_ofE)
  show ?thesis
    by (rule moves_put [OF b same])
      (use cash in \<open>simp_all add: r' g'_def p_def panel_bank_def handed_back_def home_goods_def\<close>)
qed simp

lemma in_remove_at: "x \<in> set xs \<Longrightarrow> x \<noteq> xs ! i \<Longrightarrow> x \<in> set (remove_at i xs)"
proof -
  assume x: "x \<in> set xs" "x \<noteq> xs ! i"
  then obtain j where "j < length xs" "x = xs ! j" "j \<noteq> i" by (auto simp: in_set_conv_nth)
  then have "x \<in> set (take i xs) \<or> x \<in> set (drop (Suc i) xs)"
    by (cases "j < i") (auto simp: in_set_conv_nth intro: exI [of _ j] exI [of _ "j - Suc i"])
  then show ?thesis by (auto simp: remove_at_def)
qed

lemma sell_piece_moves [moving]:
  assumes "sell_piece i who k r h = (res, r', h')" shows "moves (r, h) (r', h')"
proof (cases "r' = r \<and> h' = h")
  case False
  from assms False obtain g where crew: "crew_of i who r = Inr g"
    by (cases "crew_of i who r") (auto simp: sell_piece_def)
  from assms False crew obtain j where j: "position (\<lambda>p. pc_id p = k) (hd_pieces g) = Some j"
    by (cases "position (\<lambda>p. pc_id p = k) (hd_pieces g)") (auto simp: sell_piece_def)
  define b where "b = piece_back (hd_pieces g ! j)"
  have empty: "pc_holds (hd_pieces g ! j) = []" and awake: "k \<notin> as_piece ` set (hd_asleep g)"
    and r': "r' = (put_home i (g\<lparr>hd_pieces := remove_at j (hd_pieces g)\<rparr>) r)\<lparr>furniture_back := furniture_back r + b\<rparr>"
      "h' = h\<lparr>credits := credits h + b\<rparr>"
    using assms False crew j
    by (auto simp: sell_piece_def Let_def b_def list_ex_iff image_iff split: if_splits)
  from position_Some [OF j] have here: "j < length (hd_pieces g)" "pc_id (hd_pieces g ! j) = k" by auto
  have "same_home g (g\<lparr>hd_next_piece := hd_next_piece g, hd_pieces := remove_at j (hd_pieces g)\<rparr>)" if "held_ok g"
  proof (rule same_home_pieces)
    show "length (remove_at j (hd_pieces g)) \<le> MAX_PIECES"
      using that here(1) by (auto simp: length_remove_at held_ok_def)
    show "pc_turn p < 4 \<and> holds_ok p" if "held_ok g" "p \<in> set (remove_at j (hd_pieces g))" for p
      using that set_remove_at [of j "hd_pieces g"] by (auto simp: held_ok_def)
    show "\<exists>q \<in> set (remove_at j (hd_pieces g)). pc_id q = pc_id p \<and> pc_kind q = Bed"
      if "p \<in> set (hd_pieces g)" "pc_kind p = Bed" "pc_id p \<in> as_piece ` set (hd_asleep g)" for p
    proof -
      have "p \<noteq> hd_pieces g ! j" using that(3) awake here(2) by auto
      with that(1) have "p \<in> set (remove_at j (hd_pieces g))" by (rule in_remove_at)
      with that(2) show ?thesis by blast
    qed
  qed
  then have same: "same_home g (g\<lparr>hd_pieces := remove_at j (hd_pieces g)\<rparr>)"
    unfolding same_next_piece by (cases "held_ok g") (simp_all add: same_home_def sleeps_in_def)
  have b: "bget (hm_held r) i = Some g" using crew by (rule crew_ofE)
  have "home_goods it (g\<lparr>hd_pieces := remove_at j (hd_pieces g)\<rparr>) = home_goods it g" for it
    using sum_list_remove_at [OF here(1), of "\<lambda>p. goods_in it (pc_holds p)"] empty by (simp add: home_goods_def)
  then show ?thesis
    by (intro moves_put [OF b same]) (simp_all add: r' panel_bank_def handed_back_def)
qed simp

section \<open>Chests and safes\<close>

lemma goods_in_update:
  "k < length gs \<Longrightarrow> goods_in it (gs[k := (fst (gs ! k), n)]) + (if fst (gs ! k) = it then snd (gs ! k) else 0)
     = goods_in it gs + (if fst (gs ! k) = it then n else 0)"
proof (induction gs arbitrary: k)
  case (Cons g gs)
  obtain j q where g: "g = (j, q)" by force
  show ?case
  proof (cases k)
    case (Suc m)
    with Cons.IH [of m] Cons.prems show ?thesis by (cases "fst (gs ! m) = it") (simp_all add: g)
  qed (simp add: g)
qed simp

lemma goods_in_remove_at:
  "k < length gs \<Longrightarrow> goods_in it (remove_at k gs) + (if fst (gs ! k) = it then snd (gs ! k) else 0) = goods_in it gs"
  using sum_list_remove_at [of k gs "\<lambda>(j, q). if j = it then q else 0"]
  by (simp add: goods_in_def case_prod_beta add.commute)

lemma goods_in_put_in: "goods_in it (put_in j n gs) = goods_in it gs + (if it = j then n else 0)"
proof (cases "position (\<lambda>(g, _). g = j) gs")
  case (Some k)
  from position_Some [OF this] have k: "k < length gs" "fst (gs ! k) = j" by (auto simp: case_prod_beta)
  with goods_in_update [OF k(1), of it "snd (gs ! k) + n"] Some show ?thesis by (auto simp: put_in_def)
qed (auto simp: put_in_def)

lemma keys_put_in: "map fst (put_in j n gs) = (if j \<in> fst ` set gs then map fst gs else map fst gs @ [j])"
proof (cases "position (\<lambda>(g, _). g = j) gs")
  case (Some k)
  from position_Some [OF this] have k: "k < length gs" "fst (gs ! k) = j" by (auto simp: case_prod_beta)
  then have "j \<in> fst ` set gs" by force
  with Some k show ?thesis by (simp add: put_in_def map_update list_update_same_conv)
next
  case None
  then have "j \<notin> fst ` set gs" by (auto simp: position_None)
  with None show ?thesis by (simp add: put_in_def)
qed

lemma set_put_in: "(g, q) \<in> set (put_in j n gs) \<Longrightarrow> (\<exists>q'. (g, q') \<in> set gs \<and> q' \<le> q) \<or> g = j \<and> q = n"
proof (cases "position (\<lambda>(g, _). g = j) gs")
  case (Some k)
  assume "(g, q) \<in> set (put_in j n gs)"
  from position_Some [OF Some] have k: "k < length gs" by auto
  from \<open>(g, q) \<in> set (put_in j n gs)\<close> Some have "(g, q) \<in> insert (fst (gs ! k), snd (gs ! k) + n) (set gs)"
    using set_update_subset_insert [of gs k] by (auto simp: put_in_def)
  moreover have "(fst (gs ! k), snd (gs ! k)) \<in> set gs" using k by simp
  ultimately show ?thesis by (metis Pair_inject insertE le_add1 order_refl)
qed (auto simp: put_in_def)

text \<open>A piece's contents replaced.\<close>

lemma home_goods_update:
  assumes "j < length (hd_pieces g)"
  shows "home_goods it (g\<lparr>hd_pieces := (hd_pieces g)[j := (hd_pieces g ! j)\<lparr>pc_holds := gs\<rparr>]\<rparr>)
           + goods_in it (pc_holds (hd_pieces g ! j)) = home_goods it g + goods_in it gs"
proof -
  have "sum_list (map f (ps[j := p])) + f (ps ! j) = sum_list (map f ps) + f p" if "j < length ps"
    for ps :: "piece list" and f :: "piece \<Rightarrow> nat" and p
    using that by (induction ps arbitrary: j) (auto split: nat.split)
  from this [OF assms, of "\<lambda>p. goods_in it (pc_holds p)" "(hd_pieces g ! j)\<lparr>pc_holds := gs\<rparr>"]
  show ?thesis by (simp add: home_goods_def)
qed

lemma same_home_holds:
  assumes j: "j < length (hd_pieces g)"
    and ok: "holds_ok (hd_pieces g ! j) \<Longrightarrow> holds_ok ((hd_pieces g ! j)\<lparr>pc_holds := gs\<rparr>)"
  shows "same_home g (g\<lparr>hd_pieces := (hd_pieces g)[j := (hd_pieces g ! j)\<lparr>pc_holds := gs\<rparr>]\<rparr>)" (is "same_home g (g\<lparr>hd_pieces := ?ps\<rparr>)")
proof (cases "held_ok g")
  case True
  have "same_home g (g\<lparr>hd_next_piece := hd_next_piece g, hd_pieces := ?ps\<rparr>)"
  proof (rule same_home_pieces)
    show "length ?ps \<le> MAX_PIECES" using True by (simp add: held_ok_def)
    show "pc_turn p < 4 \<and> holds_ok p" if "held_ok g" "p \<in> set ?ps" for p
    proof -
      have "p = (hd_pieces g ! j)\<lparr>pc_holds := gs\<rparr> \<or> p \<in> set (hd_pieces g)"
        using that(2) set_update_subset_insert [of "hd_pieces g" j] by auto
      moreover have "pc_turn (hd_pieces g ! j) < 4 \<and> holds_ok (hd_pieces g ! j)" using True j by (simp add: held_ok_def)
      ultimately show ?thesis using ok True by (auto simp: held_ok_def)
    qed
    show "\<exists>q \<in> set ?ps. pc_id q = pc_id p \<and> pc_kind q = Bed" if "p \<in> set (hd_pieces g)" "pc_kind p = Bed" for p
    proof -
      from that(1) obtain m where m: "m < length (hd_pieces g)" "hd_pieces g ! m = p"
        unfolding in_set_conv_nth by blast
      have "pc_id (?ps ! m) = pc_id p \<and> pc_kind (?ps ! m) = Bed"
        using m that(2) by (cases "m = j") simp_all
      with m(1) show ?thesis by (metis length_list_update nth_mem)
    qed
  qed
  then show ?thesis unfolding same_next_piece .
qed (simp add: same_home_def sleeps_in_def)

lemma stash_moves [moving]:
  assumes "stash i who k it qty r h = (res, r', h')" shows "moves (r, h) (r', h')"
proof (cases "r' = r \<and> h' = h")
  case False
  have item: "\<not> is_part it" "item_valid it" "0 < qty" using assms False by (auto simp: stash_def split: if_splits)
  from assms False item obtain g where crew: "crew_of i who r = Inr g"
    by (cases "crew_of i who r") (auto simp: stash_def)
  have b: "bget (hm_held r) i = Some g" using crew by (rule crew_ofE)
  from assms False crew item obtain j where j: "position (\<lambda>p. pc_id p = k) (hd_pieces g) = Some j"
    by (cases "position (\<lambda>p. pc_id p = k) (hd_pieces g)") (auto simp: stash_def)
  define p where "p = hd_pieces g ! j"
  define gs where "gs = put_in it qty (pc_holds p)"
  have e: "stash i who k it qty r h =
      (if fs_holds (spec (pc_kind p)) = 0 then (Inl HoldsNothing, r, h)
       else if \<not> list_ex (\<lambda>(g, _). g = it) (pc_holds p) \<and> fs_holds (spec (pc_kind p)) \<le> length (pc_holds p)
       then (Inl (HoldsKinds (fs_holds (spec (pc_kind p)))), r, h)
       else if \<not> fst (st_take it qty (hstores h)) then (Inl NotInYourBay, r, h)
       else (Inr (PutAway it qty), put_home i (g\<lparr>hd_pieces := (hd_pieces g)[j := p\<lparr>pc_holds := gs\<rparr>]\<rparr>) r,
             h\<lparr>hstores := snd (st_take it qty (hstores h))\<rparr>))"
    using crew j item by (simp add: stash_def Let_def case_prod_beta p_def gs_def)
  have room: "list_ex (\<lambda>(g, _). g = it) (pc_holds p) \<or> length (pc_holds p) < fs_holds (spec (pc_kind p))"
    and took: "fst (st_take it qty (hstores h))"
    and r': "r' = put_home i (g\<lparr>hd_pieces := (hd_pieces g)[j := p\<lparr>pc_holds := gs\<rparr>]\<rparr>) r"
      "h' = h\<lparr>hstores := snd (st_take it qty (hstores h))\<rparr>"
    using assms False unfolding e by (auto split: if_splits)
  have jl: "j < length (hd_pieces g)" using j by (auto dest: position_Some)
  have "holds_ok (p\<lparr>pc_holds := gs\<rparr>)" if ok: "holds_ok p"
  proof -
    have "length gs \<le> fs_holds (spec (pc_kind p))"
      using arg_cong [OF keys_put_in [of it qty "pc_holds p"], of length] room ok
      by (auto simp: gs_def holds_ok_def list_ex_iff image_iff split: if_splits)
    moreover have "distinct (map fst gs)"
      using ok by (simp add: gs_def keys_put_in holds_ok_def)
    moreover have "\<not> is_part x \<and> item_valid x \<and> 0 < q" if "(x, q) \<in> set gs" for x q
      using set_put_in [OF that [unfolded gs_def]] ok item by (fastforce simp: holds_ok_def)
    ultimately show ?thesis by (auto simp: holds_ok_def)
  qed
  then have same: "same_home g (g\<lparr>hd_pieces := (hd_pieces g)[j := p\<lparr>pc_holds := gs\<rparr>]\<rparr>)"
    unfolding p_def by (rule same_home_holds [OF jl])
  have goods: "home_goods x (g\<lparr>hd_pieces := (hd_pieces g)[j := p\<lparr>pc_holds := gs\<rparr>]\<rparr>) = home_goods x g + (if x = it then qty else 0)" for x
    using home_goods_update [OF jl, of x gs] goods_in_put_in [of x it qty "pc_holds p"] by (simp add: gs_def p_def)
  have has: "qty \<le> st_get (hstores h) it" using took by (simp add: st_take_iff)
  have get: "st_get (hstores h') x + (if x = it then qty else 0) = st_get (hstores h) x" for x
    using st_get_take [of qty "hstores h" it x] has by (auto simp: r' st_has_def)
  show ?thesis
    by (rule moves_put [OF b same]) (use goods get in \<open>simp_all add: r' panel_bank_def handed_back_def\<close>)
qed simp

lemma unstash_moves [moving]:
  assumes "unstash i who k it qty r h = (res, r', h')" shows "moves (r, h) (r', h')"
proof (cases "r' = r \<and> h' = h")
  case False
  from assms False obtain g where crew: "crew_of i who r = Inr g"
    by (cases "crew_of i who r") (auto simp: unstash_def)
  have b: "bget (hm_held r) i = Some g" using crew by (rule crew_ofE)
  from assms False crew obtain j where j: "position (\<lambda>p. pc_id p = k) (hd_pieces g) = Some j"
    by (cases "position (\<lambda>p. pc_id p = k) (hd_pieces g)") (auto simp: unstash_def)
  define p where "p = hd_pieces g ! j"
  from assms False crew j obtain m where m: "position (\<lambda>(g, q). g = it \<and> qty \<le> q \<and> 0 < qty) (pc_holds p) = Some m"
    by (cases "position (\<lambda>(g, q). g = it \<and> qty \<le> q \<and> 0 < qty) (pc_holds p)") (auto simp: unstash_def Let_def p_def)
  define left where "left = snd (pc_holds p ! m) - qty"
  define gs where "gs = (if left = 0 then remove_at m (pc_holds p) else (pc_holds p)[m := (fst (pc_holds p ! m), left)])"
  have r': "r' = put_home i (g\<lparr>hd_pieces := (hd_pieces g)[j := p\<lparr>pc_holds := gs\<rparr>]\<rparr>) r"
      "h' = h\<lparr>hstores := st_add it qty (hstores h)\<rparr>"
    using assms crew j m by (auto simp: unstash_def Let_def p_def gs_def left_def)
  have jl: "j < length (hd_pieces g)" using j by (auto dest: position_Some)
  from position_Some [OF m] have ml: "m < length (pc_holds p)" "fst (pc_holds p ! m) = it" "qty \<le> snd (pc_holds p ! m)"
    by (auto simp: case_prod_beta)
  have "holds_ok (p\<lparr>pc_holds := gs\<rparr>)" if ok: "holds_ok p"
  proof -
    have entry: "(fst (pc_holds p ! m), snd (pc_holds p ! m)) \<in> set (pc_holds p)" using ml(1) by simp
    have keys: "map fst ((pc_holds p)[m := (fst (pc_holds p ! m), left)]) = map fst (pc_holds p)"
      using ml(1) by (simp add: map_update list_update_same_conv)
    have "length gs \<le> length (pc_holds p)" using ml(1) by (simp add: gs_def length_remove_at)
    moreover have "distinct (map fst gs)"
      using ok keys by (simp add: gs_def holds_ok_def map_remove_at distinct_remove_at)
    moreover have "\<not> is_part x \<and> item_valid x \<and> 0 < q" if "(x, q) \<in> set gs" for x q
    proof -
      have "(x, q) \<in> set (pc_holds p) \<or> x = fst (pc_holds p ! m) \<and> q = left \<and> left \<noteq> 0"
        using that set_remove_at [of m "pc_holds p"] set_update_subset_insert [of "pc_holds p" m]
        by (auto simp: gs_def split: if_splits)
      with ok entry show ?thesis by (auto simp: holds_ok_def)
    qed
    ultimately show ?thesis using ok by (auto simp: holds_ok_def)
  qed
  then have same: "same_home g (g\<lparr>hd_pieces := (hd_pieces g)[j := p\<lparr>pc_holds := gs\<rparr>]\<rparr>)"
    unfolding p_def by (rule same_home_holds [OF jl])
  have in_gs: "goods_in x gs + (if x = it then qty else 0) = goods_in x (pc_holds p)" for x
    using goods_in_update [OF ml(1), of x left] goods_in_remove_at [OF ml(1), of x] ml(2,3)
    by (auto simp: gs_def left_def)
  have goods: "home_goods x (g\<lparr>hd_pieces := (hd_pieces g)[j := p\<lparr>pc_holds := gs\<rparr>]\<rparr>) + (if x = it then qty else 0) = home_goods x g" for x
    using home_goods_update [OF jl, of x gs] in_gs [of x] by (simp add: p_def)
  have get: "st_get (hstores h') x = st_get (hstores h) x + (if x = it then qty else 0)"
    if "st_get (hstores h) x + home_goods x g \<le> u64_max" for x
    using that goods [of x] by (auto simp: r' st_get_add st_get_add_other)
  show ?thesis
  proof (rule moves_put [OF b same])
    fix x
    assume "st_get (hstores h) x + home_goods x g \<le> u64_max"
    from get [OF this] goods [of x]
    show "st_get (hstores h') x + home_goods x (g\<lparr>hd_pieces := (hd_pieces g)[j := p\<lparr>pc_holds := gs\<rparr>]\<rparr>)
        = st_get (hstores h) x + home_goods x g" by simp
  qed (simp_all add: r' panel_bank_def handed_back_def)
qed simp

section \<open>The clock\<close>

lemma moves_trans: "moves (r, h) (r', h') \<Longrightarrow> moves (r', h') (r'', h'') \<Longrightarrow> moves (r, h) (r'', h'')"
  by (simp add: moves_def)

text \<open>A home charged: only its tenure changes, and what leaves the panel is the rent taken.\<close>

lemma charge_home:
  assumes "charge c now i h = (h', got, why, ch)"
  shows "same_home h h' \<and> panel_bank h' + got = panel_bank h \<and> home_goods it h' = home_goods it h"
proof -
  have "h' = h \<and> got = 0 \<or> (\<exists>bank charged unpaid t. hd_tenure h = Lease bank charged unpaid \<and> h' = h\<lparr>hd_tenure := t\<rparr>
      \<and> got \<le> bank \<and> (\<exists>ch' un'. t = Lease (bank - got) ch' un'))"
    using assms by (auto simp: charge_def Let_def split: option.splits tenure.splits if_splits)
  then show ?thesis
    by (auto simp: panel_bank_def home_goods_def) (simp add: same_home_def)
qed

lemma charge_all_moves: "moves (r, h) (charge_all c now r, h)"
proof -
  let ?f = "\<lambda>i g. fst (charge c now i g)"
  have one: "same_home g (?f i g)" "panel_bank (?f i g) + fst (snd (charge c now i g)) = panel_bank g"
      "home_goods it (?f i g) = home_goods it g" for i g it
    using charge_home [of c now i g] by (cases "charge c now i g"; auto)+
  have "homes_ok (charge_all c now r)" if "homes_ok r"
    by (rule homes_ok_map [of r ?f, OF _ that]) (simp_all add: one charge_all_def)
  moreover have "bsum panel_bank (bmapv ?f (hm_held r))
      + sum_list (map (\<lambda>(i, h). fst (snd (charge c now i h))) (entries (hm_held r))) = bsum panel_bank (hm_held r)"
  proof -
    have "sum_list (map (\<lambda>(i, g). panel_bank (?f i g)) xs) + sum_list (map (\<lambda>(i, g). fst (snd (charge c now i g))) xs)
        = sum_list (map (\<lambda>(i, g). panel_bank g) xs)" for xs
    proof (induction xs)
      case (Cons x xs)
      with one(2) [of "fst x" "snd x"] show ?case by (simp add: case_prod_beta)
    qed simp
    from this [of "entries (hm_held r)"] show ?thesis
      unfolding bsum_def bvals_def by (simp add: comp_def case_prod_unfold)
  qed
  moreover have "bsum (home_goods it) (bmapv ?f (hm_held r)) = bsum (home_goods it) (hm_held r)" for it
    by (rule bsum_bmapv_same) (simp add: one)
  ultimately show ?thesis
    by (simp add: moves_def charge_all_def homes_books_def handed_back_def holding_def register_goods_def)
qed

lemma evict_moves: "moves (r, h) (evict c g r, h)"
proof (cases "bget (hm_held r) (fst g)")
  case None
  then show ?thesis by (simp add: evict_def)
next
  case (Some v)
  define ret where "ret = panel_bank v + (case hd_tenure v of Lease _ _ _ \<Rightarrow> 0 | Deed _ _ \<Rightarrow> price_back c (fst g))"
  define cr where "cr = sum_list (map piece_back (hd_pieces v))"
  define gs where "gs = concat (map pc_holds (hd_pieces v))"
  define upd where "upd = (\<lambda>a :: home_account. a\<lparr>ha_credits := ha_credits a + (ret + cr), ha_goods := put_goods gs (ha_goods a),
      ha_notes := ha_notes a @ [snd g]\<rparr>)"
  define r' where "r' = evict c g r"
  have r': "hm_held r' = bdel (fst g) (hm_held r)" "hm_accounts r' = bupd home_account_empty upd (hd_holder v) (hm_accounts r)"
      "hm_knocks r' = hm_knocks r" "hm_knock_seq r' = hm_knock_seq r" "rent_taken r' = rent_taken r" "sold_for r' = sold_for r"
      "furniture_sold r' = furniture_sold r"
      "handed_back r' + panel_bank v = handed_back r + ret + cr"
    using Some by (auto simp: r'_def evict_def Let_def cleared_out_def handed_back_def panel_bank_def ret_def cr_def gs_def upd_def
        split: tenure.splits)
  have acc: "bsum ha_credits (hm_accounts r') = bsum ha_credits (hm_accounts r) + (ret + cr)"
    unfolding r'(2) by (rule bsum_bupd_add) (simp_all add: upd_def home_account_empty_def)
  have "bsum (waiting_goods it) (hm_accounts r') = bsum (waiting_goods it) (hm_accounts r) + goods_in it gs" for it
    unfolding r'(2) by (rule bsum_bupd_add) (simp_all add: upd_def home_account_empty_def waiting_goods_def put_goods_get)
  moreover have "home_goods it v = goods_in it gs" for it by (simp add: gs_def home_goods_concat home_goods_def)
  ultimately have "register_goods it r' = register_goods it r" for it
    using bsum_bdel_old [OF Some, of "home_goods it"] by (simp add: register_goods_def r'(1))
  moreover have "homes_books r' + handed_back r = homes_books r + handed_back r'"
    using bsum_bdel_old [OF Some, of panel_bank] acc r'(5-8) by (simp add: homes_books_def holding_def r'(1))
  ultimately show ?thesis
    using homes_ok_del [OF _ r'(1,3,4)] unfolding r'_def [symmetric] by (simp add: moves_def)
qed

lemma homes_tick_moves: "moves (r, h) (snd (homes_tick c now r), h)"
proof -
  have "moves (r, h) (fold (evict c) gs r, h)" for gs r
  proof (induction gs arbitrary: r)
    case (Cons g gs)
    from moves_trans [OF evict_moves Cons.IH] show ?case by simp
  qed simp
  from moves_trans [OF charge_all_moves this] show ?thesis by (simp add: homes_tick_def Let_def)
qed

section \<open>Histories\<close>

text \<open>One change of the register and the hangar of the pilot who asks for it. \<open>hypot\<close> is the standard library's.\<close>

inductive register_step :: "city \<Rightarrow> (rat \<Rightarrow> rat \<Rightarrow> rat) \<Rightarrow> homes \<times> hangar \<Rightarrow> homes \<times> hangar \<Rightarrow> bool"
  for c :: city and hypot :: "rat \<Rightarrow> rat \<Rightarrow> rat" where
  Rents: "rent_home home who name weeks now r h = (res, r', h') \<Longrightarrow> register_step c hypot (r, h) (r', h')"
| Buys: "buy_home home who name now r h = (res, r', h') \<Longrightarrow> register_step c hypot (r, h) (r', h')"
| Gives_up: "give_up c i who r h = (res, r', h') \<Longrightarrow> register_step c hypot (r, h) (r', h')"
| Enters_code: "enter_code i who code now r = (ent, r') \<Longrightarrow> register_step c hypot (r, h) (r', h)"
| Sets_code: "set_code i who guest new r = (res, r') \<Longrightarrow> register_step c hypot (r, h) (r', h)"
| Sets_locked: "set_locked i who lkd r = (res, r') \<Longrightarrow> register_step c hypot (r, h) (r', h)"
| Works_door: "door i who opn r = (res, r') \<Longrightarrow> register_step c hypot (r, h) (r', h)"
| Leaves_crew: "leave_crew i who r = (res, r') \<Longrightarrow> register_step c hypot (r, h) (r', h)"
| Clears_crew: "clear_crew i who r = (res, r') \<Longrightarrow> register_step c hypot (r, h) (r', h)"
| Feeds: "feed i cr r h = (res, r', h') \<Longrightarrow> register_step c hypot (r, h) (r', h')"
| Takes_rent: "withdraw_rent i who cr r h = (res, r', h') \<Longrightarrow> register_step c hypot (r, h) (r', h')"
| Knocks: "knock_at i who r = (res, r') \<Longrightarrow> register_step c hypot (r, h) (r', h)"
| Visits: "register_step c hypot (r, h) (visited i who now r, h)"
| Inside_shut: "register_step c hypot (r, h) (snd (hold now r), h)"
| Hour_strikes: "register_step c hypot (r, h) (snd (homes_tick c now r), h)"
| Furnishes: "furnish c i who kind spot turn storey r h = (res, r', h') \<Longrightarrow> register_step c hypot (r, h) (r', h')"
| Moves_piece: "move_piece c i who k spot turn storey r = (res, r') \<Longrightarrow> register_step c hypot (r, h) (r', h)"
| Falls_asleep: "sleep hypot i who name there storey r = (bed, r') \<Longrightarrow> register_step c hypot (r, h) (r', h)"
| Wakes: "wake who r = (up, r') \<Longrightarrow> register_step c hypot (r, h) (r', h)"
| Sells_piece: "sell_piece i who k r h = (res, r', h') \<Longrightarrow> register_step c hypot (r, h) (r', h')"
| Stashes: "stash i who k it qty r h = (res, r', h') \<Longrightarrow> register_step c hypot (r, h) (r', h')"
| Unstashes: "unstash i who k it qty r h = (res, r', h') \<Longrightarrow> register_step c hypot (r, h) (r', h')"
| Collects: "homes_collect who r h = (notes, r', h') \<Longrightarrow> register_step c hypot (r, h) (r', h')"

lemmas stepping = moving quietly [THEN moves_quiet] homes_tick_moves

lemma register_step_moves: "register_step c hypot s s' \<Longrightarrow> moves s s'"
  by (induction rule: register_step.induct) (rule stepping; assumption)+

text \<open>The register with every pilot's hangar.\<close>

inductive town_run :: "city \<Rightarrow> (rat \<Rightarrow> rat \<Rightarrow> rat) \<Rightarrow> homes \<times> (trader, hangar) bmap \<Rightarrow> homes \<times> (trader, hangar) bmap \<Rightarrow> bool"
  for c hypot where
  Town_stands: "town_run c hypot s s"
| Town_goes_on: "town_run c hypot s (r, hs) \<Longrightarrow> bget hs t = Some h \<Longrightarrow> register_step c hypot (r, h) (r', h')
    \<Longrightarrow> town_run c hypot s (r', bput t h' hs)"

definition stored_of :: "item \<Rightarrow> hangar \<Rightarrow> nat" where
  "stored_of it h = st_get (hstores h) it"

lemma town_step:
  assumes "bget hs t = Some h" and "moves (r, h) (r', h')"
  shows "(homes_ok r \<longrightarrow> homes_ok r')
     \<and> bsum credits (bput t h' hs) + homes_books r' + handed_back r = bsum credits hs + homes_books r + handed_back r'
     \<and> (bsum (stored_of it) hs + register_goods it r \<le> u64_max \<longrightarrow>
          bsum (stored_of it) (bput t h' hs) + register_goods it r' = bsum (stored_of it) hs + register_goods it r)"
proof -
  have "stored_of it h \<le> bsum (stored_of it) hs" using assms(1) by (rule bsum_ge)
  moreover from assms(2) have "stored_of it h + register_goods it r \<le> u64_max \<longrightarrow>
      stored_of it h' + register_goods it r' = stored_of it h + register_goods it r"
    by (simp add: moves_def stored_of_def)
  ultimately have "bsum (stored_of it) hs + register_goods it r \<le> u64_max \<longrightarrow>
      bsum (stored_of it) (bput t h' hs) + register_goods it r' = bsum (stored_of it) hs + register_goods it r"
    using bsum_bput_old [OF assms(1), of "stored_of it" h'] by linarith
  then show ?thesis
    using assms(2) bsum_bput_old [OF assms(1), of credits h'] by (simp add: moves_def)
qed

lemma town_run_ok:
  assumes "town_run c hypot (r, hs) s'" and "s' = (r', hs')"
  shows "(homes_ok r \<longrightarrow> homes_ok r')
     \<and> bsum credits hs' + homes_books r' + handed_back r = bsum credits hs + homes_books r + handed_back r'
     \<and> (bsum (stored_of it) hs + register_goods it r \<le> u64_max \<longrightarrow>
          bsum (stored_of it) hs' + register_goods it r' = bsum (stored_of it) hs + register_goods it r)"
  using assms
proof (induction "(r, hs)" s' arbitrary: r' hs' rule: town_run.induct)
  case (Town_goes_on q gs t h q' h')
  from town_step [OF Town_goes_on(3) register_step_moves [OF Town_goes_on(4)], of it] Town_goes_on(2) [OF refl] Town_goes_on(5)
  show ?case by auto
qed simp

text \<open>C20: The register's books balance: over any run of the requests of any pilots and turns of the clock
  (with the inside open or closed), the credits in all hangars, on the panels and in the register's
  accounts, the rent taken and the prices paid change by exactly what the colony has paid back for
  homes and furniture; and no unit of any good is made or lost between stores, chests and accounts.\<close>
theorem homes_books_balance:
  assumes "town_run c hypot (r, hs) (r', hs')"
  shows "bsum credits hs' + holding r' + rent_taken r' + sold_for r' + furniture_sold r' + (paid_back r + furniture_back r)
       = bsum credits hs + holding r + rent_taken r + sold_for r + furniture_sold r + (paid_back r' + furniture_back r')
   \<and> (bsum (stored_of it) hs + register_goods it r \<le> u64_max \<longrightarrow>
       bsum (stored_of it) hs' + register_goods it r' = bsum (stored_of it) hs + register_goods it r)"
  using town_run_ok [OF assms refl, of it] by (simp add: homes_books_def handed_back_def)

text \<open>A city with one flat and one house.\<close>

definition flat_one :: home where
  "flat_one = \<lparr>ho_id = 1, ho_kind = Flats, ho_strip = 0, ho_district = Midtown, ho_rect = rect_new 0 8 0 8, ho_floor = 0,
     ho_storeys = 1, ho_inside = (4, 0), ho_area = 60, ho_top = False, ho_view = Street\<rparr>"

definition house_two :: home where
  "house_two = flat_one\<lparr>ho_id := 2, ho_kind := Houses, ho_storeys := 2\<rparr>"

definition small_city :: city where
  "small_city = \<lparr>ct_home = [1 \<mapsto> flat_one, 2 \<mapsto> house_two], ct_plan_at = (\<lambda>_ _ _. Some (\<lambda>_ _ _. False))\<rparr>"

definition anns_hangar :: hangar where
  "anns_hangar = hangar_empty\<lparr>credits := rent flat_one + 500\<rparr>"

definition anns_flat :: homes where
  "anns_flat = put_home 1 (newly_held ''0xa'' ''ANN'' (Lease (rent flat_one) 0 None) 0) homes_new"

lemma ann_rents:
  "rent_home flat_one ''0xa'' ''ANN'' 1 0 homes_new anns_hangar
     = (Inr (RentedFor 1 1 (rent flat_one)), anns_flat, hangar_empty\<lparr>credits := 500\<rparr>)"
  by (simp add: rent_home_def bought_def can_take_def homes_of_def homes_new_def anns_hangar_def anns_flat_def
      MAX_HELD_def MAX_WEEKS_def flat_one_def Let_def)

theorem homes_books_balance_witness:
  "\<exists>r' hs'. town_run small_city (\<lambda>x y. x) (homes_new, bput ''0xa'' anns_hangar bempty) (r', hs')
     \<and> r' = anns_flat
     \<and> bsum credits hs' + holding r' + rent_taken r' + sold_for r' + furniture_sold r' + (paid_back homes_new + furniture_back homes_new)
       = bsum credits (bput ''0xa'' anns_hangar bempty) + holding homes_new + rent_taken homes_new + sold_for homes_new
         + furniture_sold homes_new + (paid_back r' + furniture_back r')"
proof -
  let ?hs = "bput ''0xa'' anns_hangar bempty"
  let ?hs' = "bput ''0xa'' (hangar_empty\<lparr>credits := 500\<rparr>) ?hs"
  have "town_run small_city (\<lambda>x y. x) (homes_new, ?hs) (anns_flat, ?hs')"
    by (rule Town_goes_on [OF Town_stands _ Rents [OF ann_rents]]) simp
  from homes_books_balance [OF this] this show ?thesis by blast
qed

text \<open>C21: The register keeps its order through any run from an empty register: every holder is on their
  home's crew, no crew, guest list or room is over its cap, nobody holds more than two homes, chests
  and safes hold only goods within their kinds, nobody sleeps twice, and every sleeper lies in a bed
  of a home whose crew they are on.\<close>
theorem register_stays_in_order:
  assumes "town_run c hypot (homes_new, hs) (r', hs')"
  shows "homes_ok r'"
  using town_run_ok [OF assms refl] homes_new_ok by blast

theorem register_stays_in_order_witness: "homes_ok anns_flat"
  by (rule register_stays_in_order [of small_city "\<lambda>x y. x" "bput ''0xa'' anns_hangar bempty"])
    (rule Town_goes_on [OF Town_stands _ Rents [OF ann_rents]], simp)

end
