(* ===== verification/Locks.thy ===== *)
theory Locks
  imports Register
begin

text \<open>
  The code lock of a home: a streak of wrong codes shuts the guesser out, and whatever is asked of the
  register, a pilot who may not enter a home may enter it afterwards only by its code or by their own
  lease or purchase.
\<close>

section \<open>The code lock\<close>

fun enter_all :: "(trader \<times> nat \<times> nat) list \<Rightarrow> lock \<Rightarrow> (home_refusal + entered) list \<times> lock" where
  "enter_all [] l = ([], l)"
| "enter_all ((who, code, now) # gs) l =
     (let (res, l1) = lock_enter who code now l; (rs, l2) = enter_all gs l1 in (res # rs, l2))"

definition wrong_for :: "lock \<Rightarrow> nat \<Rightarrow> bool" where
  "wrong_for l code \<longleftrightarrow> lk_code l \<noteq> Some code \<and> lk_guest_code l \<noteq> Some code"

lemma lock_enter_wrong:
  assumes "wrong_for l code" and "lk_shut_until l = 0" and "lk_misses l < LOCKOUT_TRIES"
  shows "lock_enter who code now l =
    (Inr (Wrong (sat16 (SHOCK_STEP_HP * (if SHOCK_RESET_S < now - lk_last_miss l then 1 else lk_misses l + 1)))
           (LOCKOUT_TRIES \<le> lk_misses l + 1)),
     l\<lparr>lk_misses := lk_misses l + 1, lk_last_miss := now,
        lk_shut_until := (if LOCKOUT_TRIES \<le> lk_misses l + 1 then now + LOCKOUT_S else 0)\<rparr>)"
  using assms by (simp add: lock_enter_def wrong_for_def Let_def sat8_def u8_max_def LOCKOUT_TRIES_def)

lemma lock_enter_shut: "now < lk_shut_until l \<Longrightarrow> lock_enter who code now l = (Inr Shut, l)"
  by (simp add: lock_enter_def)

lemma enter_all_wrong:
  assumes "\<forall>g \<in> set gs. wrong_for l (fst (snd g))" and "lk_shut_until l = 0"
    and "lk_misses l + length gs \<le> LOCKOUT_TRIES" and "gs \<noteq> []" and "enter_all gs l = (rs, l')"
  shows "length rs = length gs \<and> (\<forall>k < length gs. \<exists>s. rs ! k = Inr (Wrong s (LOCKOUT_TRIES \<le> lk_misses l + k + 1)))
    \<and> lk_shut_until l' = (if lk_misses l + length gs = LOCKOUT_TRIES then snd (snd (last gs)) + LOCKOUT_S else 0)
    \<and> lk_code l' = lk_code l \<and> lk_crew l' = lk_crew l"
  using assms
proof (induction gs arbitrary: l rs)
  case (Cons g gs)
  obtain who code now where g: "g = (who, code, now)" by (cases g)
  define l1 where "l1 = l\<lparr>lk_misses := lk_misses l + 1, lk_last_miss := now,
      lk_shut_until := (if LOCKOUT_TRIES \<le> lk_misses l + 1 then now + LOCKOUT_S else 0)\<rparr>"
  have w: "wrong_for l code" using Cons.prems(1) g by simp
  have "lk_misses l < LOCKOUT_TRIES" using Cons.prems(3) by simp
  note one = lock_enter_wrong [OF w Cons.prems(2) this, of who now, folded l1_def]
  obtain rs1 where rs1: "enter_all gs l1 = (rs1, l')" "\<exists>s. rs = Inr (Wrong s (LOCKOUT_TRIES \<le> lk_misses l + 1)) # rs1"
    using Cons.prems(5) by (auto simp: g one split: prod.splits)
  show ?case
  proof (cases "gs = []")
    case True
    with rs1 Cons.prems(3) g show ?thesis by (auto simp: l1_def)
  next
    case False
    then have "lk_misses l + 1 < LOCKOUT_TRIES" using Cons.prems(3) by (cases gs) auto
    then have shut: "lk_shut_until l1 = 0" by (simp add: l1_def)
    have "\<forall>g \<in> set gs. wrong_for l1 (fst (snd g))" using Cons.prems(1) by (simp add: wrong_for_def l1_def)
    from Cons.IH [OF this shut _ False rs1(1)] Cons.prems(3)
    have IH: "length rs1 = length gs"
        "\<forall>k < length gs. \<exists>s. rs1 ! k = Inr (Wrong s (LOCKOUT_TRIES \<le> lk_misses l + 1 + k + 1))"
        "lk_shut_until l' = (if lk_misses l + 1 + length gs = LOCKOUT_TRIES then snd (snd (last gs)) + LOCKOUT_S else 0)"
        "lk_code l' = lk_code l" "lk_crew l' = lk_crew l"
      by (simp_all add: l1_def)
    have "\<exists>s. rs ! k = Inr (Wrong s (LOCKOUT_TRIES \<le> lk_misses l + k + 1))" if "k < length (g # gs)" for k
    proof (cases k)
      case 0
      with rs1(2) show ?thesis by auto
    next
      case (Suc m)
      with IH(2) that rs1(2) show ?thesis by auto
    qed
    with IH rs1(2) False show ?thesis by auto
  qed
qed simp



text \<open>The streak of misses is not forgotten with the shock: after three wrong codes and an hour's pause the
  next one shocks as the first, but the one after it as the fifth.\<close>

lemma streak_outlives_its_shock:
  "fst (enter_all [(''0xc'', 1, 100), (''0xc'', 2, 101), (''0xc'', 3, 102), (''0xc'', 4, 3702), (''0xc'', 5, 3703)]
      ((key_lock ''0xa'')\<lparr>lk_code := Some 1234\<rparr>))
     = [Inr (Wrong 5 False), Inr (Wrong 10 False), Inr (Wrong 15 False), Inr (Wrong 5 False), Inr (Wrong 25 False)]"
  by (simp add: lock_enter_def key_lock_def Let_def SHOCK_RESET_S_def SHOCK_STEP_HP_def LOCKOUT_TRIES_def sat8_def
      sat16_def u8_max_def u16_max_def)

section \<open>Nobody is let in who was not\<close>

definition lets_in :: "homes \<Rightarrow> homes \<Rightarrow> home_id \<Rightarrow> trader \<Rightarrow> bool" where
  "lets_in r r' i w \<longleftrightarrow> (\<exists>g g'. bget (hm_held r) i = Some g \<and> bget (hm_held r') i = Some g'
     \<and> is_crew (hd_lock g') w \<and> \<not> is_crew (hd_lock g) w)"

lemma no_lets_in [simp]: "\<not> lets_in r r i w"
  by (simp add: lets_in_def)

lemma put_lets_in:
  assumes "bget (hm_held r) i = Some g" and "hm_held r' = bput i g' (hm_held r)" and "lets_in r r' j w"
  shows "j = i \<and> is_crew (hd_lock g') w \<and> \<not> is_crew (hd_lock g) w"
  using assms by (auto simp: lets_in_def split: if_splits)

lemma quiet_lets_in:
  "set_locked i who lkd r = (res, r') \<Longrightarrow> \<not> lets_in r r' j w"
  "door i who opn r = (res, r') \<Longrightarrow> \<not> lets_in r r' j w"
  "leave_crew i who r = (res, r') \<Longrightarrow> \<not> lets_in r r' j w"
  "clear_crew i who r = (res, r') \<Longrightarrow> \<not> lets_in r r' j w"
  "knock_at i who r = (res, r') \<Longrightarrow> \<not> lets_in r r' j w"
  "\<not> lets_in r (visited i who now r) j w"
  "move_piece c i who k spot turn storey r = (res, r') \<Longrightarrow> \<not> lets_in r r' j w"
  "wake who r = (up, r') \<Longrightarrow> \<not> lets_in r r' j w"
  subgoal by (auto simp: set_locked_def lets_in_def is_crew_set split: sum.splits if_splits elim!: crew_ofE)
  subgoal by (auto simp: door_def lets_in_def split: option.splits if_splits)
  subgoal by (auto simp: leave_crew_def lets_in_def is_crew_set split: option.splits if_splits)
  subgoal by (auto simp: clear_crew_def Let_def lets_in_def is_crew_set split: sum.splits if_splits elim!: crew_ofE)
  subgoal by (auto simp: knock_at_def Let_def lets_in_def split: if_splits)
  subgoal by (auto simp: visited_def lets_in_def split: option.splits tenure.splits if_splits)
  subgoal by (auto simp: move_piece_def Let_def lets_in_def split: sum.splits option.splits if_splits elim!: crew_ofE)
  subgoal by (erule wake_cases) (auto simp: lets_in_def split: if_splits)
  done

lemma same_lock_lets_in:
  assumes "\<And>i g'. bget (hm_held r') i = Some g' \<Longrightarrow> bget (hm_held r) i = None \<or> (\<exists>g. bget (hm_held r) i = Some g \<and> hd_lock g' = hd_lock g)"
  shows "\<not> lets_in r r' j w"
  using assms by (fastforce simp: lets_in_def)

lemma moving_lets_in:
  "rent_home home who name weeks now r h = (res, r', h') \<Longrightarrow> \<not> lets_in r r' j w"
  "buy_home home who name now r h = (res, r', h') \<Longrightarrow> \<not> lets_in r r' j w"
  "give_up c i who r h = (res, r', h') \<Longrightarrow> \<not> lets_in r r' j w"
  "feed i cr r h = (res, r', h') \<Longrightarrow> \<not> lets_in r r' j w"
  "withdraw_rent i who cr r h = (res, r', h') \<Longrightarrow> \<not> lets_in r r' j w"
  "homes_collect who r h = (notes, r', h') \<Longrightarrow> \<not> lets_in r r' j w"
  subgoal by (auto simp: rent_home_def Let_def lets_in_def can_take_def split: option.splits if_splits)
  subgoal by (auto simp: buy_home_def Let_def lets_in_def can_take_def split: option.splits if_splits)
  subgoal by (auto simp: give_up_def cleared_out_def Let_def lets_in_def split: sum.splits tenure.splits if_splits)
  subgoal by (auto simp: feed_def lets_in_def split: option.splits tenure.splits if_splits)
  subgoal by (auto simp: withdraw_rent_def lets_in_def split: sum.splits tenure.splits if_splits elim!: crew_ofE)
  subgoal by (auto simp: homes_collect_def lets_in_def split: option.splits)
  done

lemma furnishing_lets_in:
  "furnish c i who kind spot turn storey r h = (res, r', h') \<Longrightarrow> \<not> lets_in r r' j w"
  "sell_piece i who k r h = (res, r', h') \<Longrightarrow> \<not> lets_in r r' j w"
  "stash i who k it qty r h = (res, r', h') \<Longrightarrow> \<not> lets_in r r' j w"
  "unstash i who k it qty r h = (res, r', h') \<Longrightarrow> \<not> lets_in r r' j w"
  subgoal by (auto simp: furnish_def Let_def lets_in_def split: sum.splits option.splits if_splits elim!: crew_ofE)
  subgoal by (auto simp: sell_piece_def Let_def lets_in_def split: sum.splits option.splits if_splits elim!: crew_ofE)
  subgoal by (auto simp: stash_def Let_def lets_in_def split: sum.splits option.splits if_splits prod.splits elim!: crew_ofE)
  subgoal by (auto simp: unstash_def Let_def lets_in_def split: sum.splits option.splits if_splits elim!: crew_ofE)
  done

lemma sleep_lets_in: "sleep hypot i who name spot storey r = (bed, r') \<Longrightarrow> \<not> lets_in r r' j w"
proof -
  assume e: "sleep hypot i who name spot storey r = (bed, r')"
  obtain up r1 where w: "wake who r = (up, r1)" by force
  have one: "\<exists>g. bget (hm_held r) i = Some g \<and> hd_lock g' = hd_lock g" if "bget (hm_held r1) i = Some g'" for i g'
    using w that by (cases rule: wake_cases) (auto split: if_splits)
  have "\<exists>g. bget (hm_held r1) i = Some g \<and> hd_lock g' = hd_lock g" if "bget (hm_held r') i = Some g'" for i g'
    using e w that by (auto simp: sleep_def split: option.splits if_splits)
  with one show ?thesis by (intro same_lock_lets_in) metis
qed

lemma clock_lets_in: "\<not> lets_in r (snd (hold now r)) j w" "\<not> lets_in r (snd (homes_tick c now r)) j w"
proof -
  have "hd_lock (fst (held_over now h)) = hd_lock h" for h
    by (cases "hd_tenure h") (simp_all add: held_over_def)
  then show "\<not> lets_in r (snd (hold now r)) j w"
    by (intro same_lock_lets_in) (auto simp: hold_def)
  have lock: "hd_lock (fst (charge c now i h)) = hd_lock h" for i h
    by (auto simp: charge_def Let_def split: option.split tenure.split)
  have "bget (hm_held (fold (evict c) gs q)) i = Some g \<Longrightarrow> bget (hm_held q) i = Some g" for gs q i g
  proof (induction gs arbitrary: q)
    case (Cons x gs)
    then have "bget (hm_held (evict c x q)) i = Some g" by simp
    then show ?case
      by (auto simp: evict_def cleared_out_def Let_def split: option.splits tenure.splits if_splits)
  qed simp
  note evicted = this
  show "\<not> lets_in r (snd (homes_tick c now r)) j w"
  proof (rule same_lock_lets_in)
    fix i g'
    assume "bget (hm_held (snd (homes_tick c now r))) i = Some g'"
    then have "bget (hm_held (charge_all c now r)) i = Some g'" by (auto simp: homes_tick_def Let_def dest: evicted)
    then show "bget (hm_held r) i = None \<or> (\<exists>g. bget (hm_held r) i = Some g \<and> hd_lock g' = hd_lock g)"
      by (auto simp: charge_all_def lock)
  qed
qed

lemma enter_code_lets_in:
  assumes "enter_code i who code now r = (ent, r')" and "lets_in r r' j w"
  shows "j = i \<and> w = who \<and> ent = Inr Crew \<and> (\<exists>g. bget (hm_held r) i = Some g \<and> lk_code (hd_lock g) = Some code)"
proof -
  obtain g where g: "bget (hm_held r) i = Some g" "code \<le> CODE_MAX"
    using assms by (cases "bget (hm_held r) i") (auto simp: enter_code_def split: if_splits)
  obtain re l where l: "lock_enter who code now (hd_lock g) = (re, l)" by force
  with assms(1) g have r': "r' = put_home i (g\<lparr>hd_lock := l\<rparr>) r" "ent = re" by (auto simp: enter_code_def)
  from put_lets_in [OF g(1) _ assms(2), of "g\<lparr>hd_lock := l\<rparr>"] r'
  have "j = i" "is_crew l w" "\<not> is_crew (hd_lock g) w" by simp_all
  with l have "w = who \<and> re = Inr Crew \<and> lk_code (hd_lock g) = Some code"
    unfolding lock_enter_def Let_def
    by (auto simp: is_crew_set split: if_splits prod.splits dest!: remember_result)
  with g r' \<open>j = i\<close> show ?thesis by auto
qed

lemma set_code_lets_in:
  assumes "set_code i who guest code r = (res, r')" and ok: "homes_ok r"
  shows "\<not> lets_in r r' j w"
proof
  assume in_: "lets_in r r' j w"
  with assms(1) obtain g where crew: "crew_of i who r = Inr g"
    by (cases "crew_of i who r") (auto simp: set_code_def split: if_splits)
  then have g: "bget (hm_held r) i = Some g" "is_crew (hd_lock g) who" by (auto elim: crew_ofE)
  have holder: "is_crew (hd_lock g) (hd_holder g)"
    using homes_okD [OF ok g(1)] by (simp add: held_ok_def lock_ok_def)
  obtain ok crew' where rem: "remember who CREW_CAP [hd_holder g] = (ok, crew')" by force
  have set: "set crew' \<subseteq> {who, hd_holder g}" using remember_result [OF rem] by (auto split: if_splits)
  from assms(1) crew in_ rem obtain g' where g': "hm_held r' = bput i g' (hm_held r)"
      "set (lk_crew (hd_lock g')) \<subseteq> set (lk_crew (hd_lock g)) \<union> set crew'"
    by (auto simp: set_code_def Let_def split: if_splits option.splits)
  from put_lets_in [OF g(1) g'(1) in_] g'(2) set g(2) holder show False
    by (auto simp: is_crew_set)
qed

text \<open>C22: Nobody is let in who was not: in a register in order, whatever is asked of it by anyone, a pilot
  not on a held home's crew is on it afterwards only if they entered that home's main code themselves.\<close>
theorem only_the_code_lets_in:
  assumes "town_run c hypot (homes_new, hs) (r, hs')" and "register_step c hypot (r, h) (r', h')"
    and "bget (hm_held r) i = Some g" "bget (hm_held r') i = Some g'"
    and "is_crew (hd_lock g') w" "\<not> is_crew (hd_lock g) w"
  shows "\<exists>code now. lk_code (hd_lock g) = Some code \<and> enter_code i w code now r = (Inr Crew, r')"
proof -
  have ok: "homes_ok r" using town_run_ok [OF assms(1) refl] homes_new_ok by blast
  have in_: "lets_in r r' i w" using assms(3-6) by (auto simp: lets_in_def)
  note asked = quiet_lets_in(1-5,7,8) [where j = i and w = w] moving_lets_in [where j = i and w = w]
    furnishing_lets_in [where j = i and w = w] sleep_lets_in [where j = i and w = w]
  note unasked = quiet_lets_in(6) clock_lets_in
  from assms(2) show ?thesis
  proof (cases rule: register_step.cases)
    case (Enters_code j who code now ent)
    from enter_code_lets_in [OF Enters_code(2) in_] Enters_code(2) assms(3) show ?thesis by auto
  next
    case (Sets_code j who guest new res)
    from set_code_lets_in [OF Sets_code(2) ok] in_ show ?thesis by blast
  qed (use in_ in \<open>auto dest: asked simp: unasked\<close>)
qed

theorem only_the_code_lets_in_witness:
  "\<exists>code now. lk_code ((key_lock ''0xa'')\<lparr>lk_code := Some 1234\<rparr>) = Some code
     \<and> enter_code 1 ''0xb'' code now
         (put_home 1 ((newly_held ''0xa'' ''ANN'' (Lease (rent flat_one) 0 None) 0)
             \<lparr>hd_lock := (key_lock ''0xa'')\<lparr>lk_code := Some 1234\<rparr>\<rparr>) homes_new)
       = (Inr Crew,
          put_home 1 ((newly_held ''0xa'' ''ANN'' (Lease (rent flat_one) 0 None) 0)
             \<lparr>hd_lock := (key_lock ''0xa'')\<lparr>lk_code := Some 1234, lk_crew := [''0xa'', ''0xb'']\<rparr>\<rparr>) homes_new)"
proof -
  let ?hs = "bput ''0xa'' anns_hangar bempty"
  let ?g = "(newly_held ''0xa'' ''ANN'' (Lease (rent flat_one) 0 None) 0)\<lparr>hd_lock := (key_lock ''0xa'')\<lparr>lk_code := Some 1234\<rparr>\<rparr>"
  let ?g' = "?g\<lparr>hd_lock := (key_lock ''0xa'')\<lparr>lk_code := Some 1234, lk_crew := [''0xa'', ''0xb'']\<rparr>\<rparr>"
  have rented: "town_run small_city (\<lambda>x y. x) (homes_new, ?hs) (anns_flat, bput ''0xa'' (hangar_empty\<lparr>credits := 500\<rparr>) ?hs)"
    by (rule Town_goes_on [OF Town_stands _ Rents [OF ann_rents]]) simp
  have "set_code 1 ''0xa'' False (Some 1234) anns_flat = (Inr CodeSet, put_home 1 ?g homes_new)"
    by (simp add: set_code_def crew_of_def anns_flat_def newly_held_def key_lock_def is_crew_def remember_def Let_def
        put_home_def CODE_MAX_def)
  then have coded: "town_run small_city (\<lambda>x y. x) (homes_new, ?hs)
      (put_home 1 ?g homes_new, bput ''0xa'' (hangar_empty\<lparr>credits := 500\<rparr>) (bput ''0xa'' (hangar_empty\<lparr>credits := 500\<rparr>) ?hs))"
    by (intro Town_goes_on [OF rented _ Sets_code]) simp_all
  have "enter_code 1 ''0xb'' 1234 50 (put_home 1 ?g homes_new) = (Inr Crew, put_home 1 ?g' homes_new)"
    by (simp add: enter_code_def lock_enter_def newly_held_def key_lock_def remember_def Let_def put_home_def CODE_MAX_def
        CREW_CAP_def)
  then have "register_step small_city (\<lambda>x y. x) (put_home 1 ?g homes_new, hangar_empty) (put_home 1 ?g' homes_new, hangar_empty)"
    by (rule Enters_code)
  from only_the_code_lets_in [OF coded this, of 1 ?g ?g' "''0xb''"] show ?thesis
    by (simp add: newly_held_def key_lock_def is_crew_def)
qed

end
