(* ===== verification/Rents.thy ===== *)
theory Rents
  imports Register
begin

text \<open>
  What the clock does to a home: nothing while the colony's inside is closed; the same rent however
  often it turns; and a lease lapses a day after its panel runs dry, no sooner.
\<close>

section \<open>What the clock charges\<close>

lemma hold_settles:
  assumes "bget (hm_held (snd (hold now r))) i = Some g"
  shows "case hd_tenure g of Lease _ charged _ \<Rightarrow> now \<le> charged | Deed _ seen \<Rightarrow> now \<le> seen"
proof -
  obtain h where "g = fst (held_over now h)" using assms by (auto simp: hold_def)
  then show ?thesis by (cases "hd_tenure h") (auto simp: held_over_def)
qed

lemma charge_nothing:
  assumes "case hd_tenure g of Lease _ charged _ \<Rightarrow> now < charged + HOUR_S | Deed _ seen \<Rightarrow> now < seen + ABANDONED_S"
  shows "charge c now i g = (g, 0, None, False)"
proof (cases "hd_tenure g")
  case (Lease bank charged unpaid)
  with assms have "(now - charged) div HOUR_S = 0" by (simp add: HOUR_S_def)
  with Lease show ?thesis by (simp add: charge_def split: option.split)
next
  case (Deed cost seen)
  with assms have "\<not> ABANDONED_S \<le> now - seen" by (simp add: ABANDONED_S_def HOUR_S_def)
  with Deed show ?thesis by (simp add: charge_def split: option.split)
qed

lemma tick_nothing:
  assumes "\<And>i g. bget (hm_held r) i = Some g \<Longrightarrow> charge c now i g = (g, 0, None, False)"
  shows "homes_tick c now r = (False, r)"
proof -
  have e: "charge c now i g = (g, 0, None, False)" if "(i, g) \<in> set (entries (hm_held r))" for i g
    using assms that by (simp add: bget_entries)
  have "map (\<lambda>(i, h). case charge c now i h of (_, _, None, _) \<Rightarrow> [] | (_, _, Some why, _) \<Rightarrow> [(i, why)]) (entries (hm_held r))
      = map (\<lambda>_. []) (entries (hm_held r))"
    by (rule map_cong [OF refl]) (auto simp: e)
  then have gone: "gone_homes c now r = []" unfolding gone_homes_def by (simp only: concat_eq_Nil_conv) auto
  have "bmapv (\<lambda>i h. fst (charge c now i h)) (hm_held r) = hm_held r"
  proof (rule bmap_eqI)
    show "bget (bmapv (\<lambda>i h. fst (charge c now i h)) (hm_held r)) k = bget (hm_held r) k" for k
      by (cases "bget (hm_held r) k") (simp_all add: assms)
  qed
  moreover have "sum_list (map (\<lambda>(i, h). fst (snd (charge c now i h))) (entries (hm_held r))) = 0"
    by (auto simp: sum_list_eq_0_iff e)
  ultimately have "charge_all c now r = r" by (simp add: charge_all_def)
  with gone show ?thesis by (auto simp: homes_tick_def list_ex_iff e)
qed

text \<open>While the colony's inside is closed a home costs nothing: once the register was held at \<open>now\<close>, a
  turn of its clock any time in the hour after it charges no rent, lapses nothing, sells nothing back
  and changes nothing at all.\<close>
theorem shut_inside_costs_nothing:
  assumes "now' < now + HOUR_S"
  shows "homes_tick c now' (snd (hold now r)) = (False, snd (hold now r))"
proof (rule tick_nothing)
  fix i g
  assume "bget (hm_held (snd (hold now r))) i = Some g"
  from hold_settles [OF this] assms show "charge c now' i g = (g, 0, None, False)"
    by (intro charge_nothing) (auto simp: ABANDONED_S_def HOUR_S_def split: tenure.splits)
qed

theorem shut_inside_costs_nothing_witness:
  "homes_tick small_city 1003599 (snd (hold 1000000 anns_flat)) = (False, snd (hold 1000000 anns_flat))"
  by (rule shut_inside_costs_nothing) (simp add: HOUR_S_def)

text \<open>Hours, whole ones.\<close>

lemma hours_after: "0 < k \<Longrightarrow> (m - j * k) div k = m div k - j" for m j k :: nat
proof (cases "j * k \<le> m")
  case True
  assume "0 < k"
  from True obtain x where "m = x + j * k" by (metis le_Suc_ex add.commute)
  with \<open>0 < k\<close> show ?thesis by simp
next
  case False
  assume "0 < k"
  with False have "m div k < j" by (simp add: div_less_iff_less_mult)
  with False show ?thesis by simp
qed

lemma a_day_after: "GRACE_S \<le> t - (ch + q * HOUR_S) \<longleftrightarrow> q + 24 \<le> (t - ch) div HOUR_S"
proof -
  have "GRACE_S \<le> t - (ch + q * HOUR_S) \<longleftrightarrow> (q + 24) * HOUR_S \<le> t - ch"
    by (auto simp: GRACE_S_def HOUR_S_def)
  also have "\<dots> \<longleftrightarrow> q + 24 \<le> (t - ch) div HOUR_S"
    by (simp add: less_eq_div_iff_mult_less_eq HOUR_S_def)
  finally show ?thesis .
qed

text \<open>A lease that has paid its way, charged \<open>n\<close> hours.\<close>

lemma charge_hours:
  assumes "ct_home c i = Some home" and "hd_tenure h = Lease bank ch None" and n: "n = (t - ch) div HOUR_S" "0 < n"
    and per: "per = per_hour home h"
  shows "charge c t i h =
    (h\<lparr>hd_tenure := Lease (bank - min (per * n) bank) (ch + n * HOUR_S)
         (if bank < per * n then Some (ch + bank div per * HOUR_S) else None)\<rparr>,
     min (per * n) bank, (if bank < per * n \<and> bank div per + 24 \<le> n then Some (Lapsed i) else None), True)"
proof -
  have grace: "GRACE_S \<le> t - (ch + q * HOUR_S) \<longleftrightarrow> q + 24 \<le> n" for q
    unfolding n by (rule a_day_after)
  show ?thesis using assms
    by (auto simp: charge_def Let_def min_def grace not_le)
qed

lemma charge_dry:
  assumes "ct_home c i = Some home" and "hd_tenure h = Lease 0 ch (Some s)" and n: "n = (t - ch) div HOUR_S" "0 < n"
  shows "charge c t i h = (h\<lparr>hd_tenure := Lease 0 (ch + n * HOUR_S) (Some s)\<rparr>, 0,
     (if GRACE_S \<le> t - s then Some (Lapsed i) else None), True)"
proof -
  have "0 < per_hour home h" by (simp add: per_hour_def)
  then have "0 < per_hour home h * n" using n(2) by simp
  then show ?thesis using assms by (simp add: charge_def Let_def)
qed

lemma charge_no_hour:
  assumes "hd_tenure h = Lease bank ch un" and "(t - ch) div HOUR_S = 0"
  shows "charge c t i h = (h, 0, None, False)"
  using assms by (simp add: charge_def split: option.split)

lemma per_hour_tenure [simp]: "per_hour home (h\<lparr>hd_tenure := t\<rparr>) = per_hour home h"
  by (simp add: per_hour_def)

text \<open>C24: The rent does not depend on how often the clock turns: charging a paid-up lease at one time and
  then at a later one takes the same rent in all, leaves the same panel and lapses it on the same
  terms as charging it once at the later time; and a lease that lapsed at the first would lapse at the
  later one too.\<close>
theorem rent_whenever_the_clock_turns:
  assumes "hd_tenure h = Lease bank ch None" and "t1 \<le> t2"
  shows "let (h1, p1, gone1, _) = charge c t1 i h; (h2, p2, gone2, _) = charge c t2 i h1;
             (h', p, gone, _) = charge c t2 i h
         in h2 = h' \<and> p1 + p2 = p \<and> (gone1 = None \<longrightarrow> gone2 = gone) \<and> (gone1 \<noteq> None \<longrightarrow> gone \<noteq> None)"
proof (cases "ct_home c i")
  case None
  then show ?thesis by (simp add: charge_def)
next
  case home: (Some home)
  define per where "per = per_hour home h"
  define n1 n2 where "n1 = (t1 - ch) div HOUR_S" and "n2 = (t2 - ch) div HOUR_S"
  have per: "0 < per" by (simp add: per_def per_hour_def)
  have n: "n1 \<le> n2" unfolding n1_def n2_def using assms(2) by (intro div_le_mono) simp
  have later: "(t2 - (ch + n1 * HOUR_S)) div HOUR_S = n2 - n1"
    using hours_after [of HOUR_S "t2 - ch" n1] by (simp add: n2_def HOUR_S_def)
  show ?thesis
  proof (cases "n1 = 0")
    case True
    then have "charge c t1 i h = (h, 0, None, False)" using charge_no_hour [OF assms(1)] by (simp add: n1_def)
    then show ?thesis by (simp add: Let_def split_beta)
  next
    case False
    note one = charge_hours [OF home assms(1) n1_def _ per_def] and whole = charge_hours [OF home assms(1) n2_def _ per_def]
    define h1 where "h1 = h\<lparr>hd_tenure := Lease (bank - min (per * n1) bank) (ch + n1 * HOUR_S)
         (if bank < per * n1 then Some (ch + bank div per * HOUR_S) else None)\<rparr>"
    have h1: "charge c t1 i h = (h1, min (per * n1) bank,
        (if bank < per * n1 \<and> bank div per + 24 \<le> n1 then Some (Lapsed i) else None), True)"
      using one False by (simp add: h1_def)
    have more: "per * n1 \<le> per * n2" using n by simp
    consider "n2 = n1" | "n1 < n2" "bank < per * n1" | "n1 < n2" "per * n1 \<le> bank" using n by linarith
    then show ?thesis
    proof cases
      case 1
      have "charge c t2 i h1 = (h1, 0, None, False)"
        by (rule charge_no_hour [of _ "bank - min (per * n1) bank" "ch + n1 * HOUR_S"]) (simp_all add: h1_def later 1)
      moreover have "charge c t2 i h = charge c t1 i h"
        using one whole 1 False by simp
      ultimately show ?thesis by (simp add: h1 Let_def split: if_splits)
    next
      case 2
      then have dry: "hd_tenure h1 = Lease 0 (ch + n1 * HOUR_S) (Some (ch + bank div per * HOUR_S))"
        by (simp add: h1_def min_def)
      have "0 < n2 - n1" using 2 by simp
      note two = charge_dry [OF home dry _ this, of t2, unfolded later a_day_after, folded n2_def, OF refl]
      have "bank < per * n2" using 2(2) more by linarith
      moreover have "ch + n1 * HOUR_S + (n2 - n1) * HOUR_S = ch + n2 * HOUR_S"
        using n by (simp flip: add_mult_distrib)
      ultimately show ?thesis using 2 False whole by (simp add: two h1 Let_def) (simp add: h1_def)
    next
      case 3
      obtain b where b: "bank = per * n1 + b" using 3(2) le_Suc_ex by blast
      obtain d where d: "n2 = n1 + d" "0 < d" using 3(1) by (metis less_imp_add_positive)
      have "hd_tenure h1 = Lease b (ch + n1 * HOUR_S) None" by (simp add: h1_def b)
      note two = charge_hours [OF home this, of d t2 per]
      have "d = (t2 - (ch + n1 * HOUR_S)) div HOUR_S" "per = per_hour home h1"
        using d by (simp_all add: later per_def h1_def)
      note two = two [OF this(1) d(2) this(2)]
      have "bank div per = n1 + b div per" using per by (simp add: b)
      then show ?thesis using False whole d per
        by (simp add: two h1 Let_def b add_mult_distrib add_mult_distrib2) (simp add: h1_def b add_mult_distrib)
    qed
  qed
qed

theorem rent_whenever_the_clock_turns_witness:
  "let h = newly_held ''0xa'' ''ANN'' (Lease 100 0 None) 0;
       (h1, p1, gone1, _) = charge small_city 7200 1 h; (h2, p2, gone2, _) = charge small_city 10000000 1 h1;
       (h', p, gone, _) = charge small_city 10000000 1 h
   in h2 = h' \<and> p1 + p2 = p \<and> (gone1 = None \<longrightarrow> gone2 = gone) \<and> (gone1 \<noteq> None \<longrightarrow> gone \<noteq> None)"
proof -
  have "hd_tenure (newly_held ''0xa'' ''ANN'' (Lease 100 0 None) 0) = Lease 100 0 None" by (simp add: newly_held_def)
  from rent_whenever_the_clock_turns [OF this, of 7200 10000000 small_city 1] show ?thesis by (simp only: Let_def)
qed

text \<open>C25: A lease lapses a day after its panel runs dry and no sooner: charged at \<open>t\<close>, a paid-up lease with
  \<open>bank\<close> credits on its panel at \<open>per\<close> an hour is gone exactly when 24 whole hours have passed since
  the \<open>bank div per\<close> it had paid for, and what it could pay it has paid: a home that lapsed had nothing left.\<close>
theorem lease_lapses_a_day_after_it_is_dry:
  assumes "ct_home c i = Some home" and "hd_tenure h = Lease bank ch None" and "ch \<le> t"
  shows "let (h', took, gone, _) = charge c t i h; per = per_hour home h; hours = (t - ch) div HOUR_S in
      (gone \<noteq> None \<longleftrightarrow> (bank div per + 24) * HOUR_S \<le> t - ch)
    \<and> took = min (per * hours) bank \<and> panel_bank h' = bank - took
    \<and> (gone \<noteq> None \<longrightarrow> panel_bank h' = 0)"
proof -
  define per where "per = per_hour home h"
  define n where "n = (t - ch) div HOUR_S"
  have per: "0 < per" by (simp add: per_def per_hour_def)
  have day: "(bank div per + 24) * HOUR_S \<le> t - ch \<longleftrightarrow> bank div per + 24 \<le> n"
    unfolding n_def by (simp add: less_eq_div_iff_mult_less_eq HOUR_S_def)
  show ?thesis
  proof (cases "n = 0")
    case True
    then have "charge c t i h = (h, 0, None, False)" using charge_no_hour [OF assms(2)] by (simp add: n_def)
    then show ?thesis using True day assms(2) by (simp add: Let_def panel_bank_def flip: per_def n_def)
  next
    case False
    have "bank < per * n" if "bank div per + 24 \<le> n"
    proof -
      have "bank < (bank div per + 1) * per" using per by (simp add: dividend_less_div_times add.commute)
      also have "\<dots> \<le> n * per" using that by (intro mult_le_mono1) simp
      finally show ?thesis by (simp add: mult.commute)
    qed
    then show ?thesis using False charge_hours [OF assms(1,2) n_def _ per_def] day
      by (auto simp: Let_def panel_bank_def simp flip: per_def n_def)
  qed
qed

theorem lease_lapses_a_day_after_it_is_dry_witness:
  "let h = newly_held ''0xa'' ''ANN'' (Lease 100 0 None) 0;
       (h', took, gone, _) = charge small_city 10000000 1 h; per = per_hour flat_one h; hours = (10000000 - 0) div HOUR_S in
      (gone \<noteq> None \<longleftrightarrow> (100 div per + 24) * HOUR_S \<le> 10000000 - 0)
    \<and> took = min (per * hours) 100 \<and> panel_bank h' = 100 - took
    \<and> (gone \<noteq> None \<longrightarrow> panel_bank h' = 0)"
proof -
  have "hd_tenure (newly_held ''0xa'' ''ANN'' (Lease 100 0 None) 0) = Lease 100 0 None" by (simp add: newly_held_def)
  moreover have "ct_home small_city 1 = Some flat_one" by (simp add: small_city_def)
  ultimately show ?thesis unfolding Let_def by (intro lease_lapses_a_day_after_it_is_dry [unfolded Let_def]) simp_all
qed

end
