(* ===== verification/Rooms.thy ===== *)
theory Rooms
  imports Register
begin

text \<open>
  What the placing check keeps of a room: its solid pieces apart and inside the walls.
\<close>

section \<open>Rooms\<close>

text \<open>No two solid pieces of a home on the same floor overlap, and their ids are their own.\<close>

definition clash :: "home \<Rightarrow> piece \<Rightarrow> piece \<Rightarrow> bool" where
  "clash home p q \<longleftrightarrow> fs_solid (spec (pc_kind p)) \<and> fs_solid (spec (pc_kind q))
     \<and> cb_h0 (boxed home p) = cb_h0 (boxed home q) \<and> overlaps (cb_rect (boxed home p)) (cb_rect (boxed home q))"

definition room_clear :: "home \<Rightarrow> piece list \<Rightarrow> bool" where
  "room_clear home ps \<longleftrightarrow> distinct (map pc_id ps)
     \<and> (\<forall>p \<in> set ps. \<forall>q \<in> set ps. pc_id p \<noteq> pc_id q \<longrightarrow> \<not> clash home p q)"

lemma clash_sym: "clash home p q = clash home q p"
  by (auto simp: clash_def overlaps_def)

lemma room_clear_snoc:
  assumes "room_clear home ps" and "pc_id p \<notin> pc_id ` set ps" and "\<forall>q \<in> set ps. \<not> clash home p q"
  shows "room_clear home (ps @ [p])"
proof -
  have "\<not> clash home a b" if ab: "a \<in> set (ps @ [p])" "b \<in> set (ps @ [p])" "pc_id a \<noteq> pc_id b" for a b
  proof -
    consider "a = p" "b \<in> set ps" | "b = p" "a \<in> set ps" | "a \<in> set ps" "b \<in> set ps"
      using ab by auto
    then show ?thesis
    proof cases
      case 2
      with assms(3) show ?thesis using clash_sym [of home a p] by blast
    next
      case 3
      with assms(1) ab(3) show ?thesis by (simp add: room_clear_def)
    qed (use assms(3) in blast)
  qed
  moreover have "distinct (map pc_id (ps @ [p]))" using assms(1,2) by (simp add: room_clear_def)
  ultimately show ?thesis unfolding room_clear_def by blast
qed

lemma placed_clear:
  assumes "placed_at c i h p moving = None" and "ct_home c i = Some home"
  shows "pc_storey p < ho_storeys home
    \<and> rect_holds (inset (rn32 (- (1 / 100))) (ho_rect home)) (cb_rect (boxed home p))
    \<and> (\<forall>q \<in> set (hd_pieces h). Some (pc_id q) \<noteq> moving \<longrightarrow> \<not> clash home p q)"
proof -
  obtain meets where
    f: "fits home meets (pc_kind p) (boxed home p) (pc_storey p)
          (map (\<lambda>q. (boxed home q, fs_solid (spec (pc_kind q)))) (filter (\<lambda>q. Some (pc_id q) \<noteq> moving) (hd_pieces h))) = None"
    using assms by (auto simp: placed_at_def split: option.splits)
  have "\<not> clash home p q" if "q \<in> set (hd_pieces h)" "Some (pc_id q) \<noteq> moving" for q
  proof
    assume "clash home p q"
    then have "fs_solid (spec (pc_kind p))" "fs_solid (spec (pc_kind q))" "cb_h0 (boxed home q) = cb_h0 (boxed home p)"
      "overlaps (cb_rect (boxed home q)) (cb_rect (boxed home p))"
      by (auto simp: clash_def overlaps_def)
    with that f show False by (auto simp: fits_def list_ex_iff split: if_splits)
  qed
  moreover have "pc_storey p < ho_storeys home"
      "rect_holds (inset (rn32 (- (1 / 100))) (ho_rect home)) (cb_rect (boxed home p))"
    using f by (auto simp: fits_def split: if_splits)
  ultimately show ?thesis by blast
qed

lemma furnish_result:
  assumes "furnish c i who kind spot turn storey r h = (Inr ok, r', h')"
  obtains g p where "crew_of i who r = Inr g" "pc_id p = hd_next_piece g" "pc_kind p = kind" "placed_at c i g p None = None"
    "bget (hm_held r') i = Some (g\<lparr>hd_next_piece := (hd_next_piece g + 1) mod 2 ^ 16, hd_pieces := hd_pieces g @ [p]\<rparr>)"
proof -
  obtain g where g: "crew_of i who r = Inr g" using assms by (cases "crew_of i who r") (simp_all add: furnish_def)
  define p where "p = \<lparr>pc_id = hd_next_piece g, pc_kind = kind, pc_s = fst spot, pc_x = snd spot, pc_turn = turn mod 4,
      pc_storey = storey, pc_holds = []\<rparr>"
  show ?thesis
    by (rule that [of g p]) (use assms g in \<open>auto simp: furnish_def Let_def p_def split: if_splits option.splits\<close>)
qed

lemma move_result:
  assumes "move_piece c i who k spot turn storey r = (Inr ok, r')"
  obtains g j p where "crew_of i who r = Inr g" "j < length (hd_pieces g)" "pc_id (hd_pieces g ! j) = k" "pc_id p = k"
    "placed_at c i g p (Some k) = None" "bget (hm_held r') i = Some (g\<lparr>hd_pieces := (hd_pieces g)[j := p]\<rparr>)"
proof -
  obtain g where g: "crew_of i who r = Inr g" using assms by (cases "crew_of i who r") (simp_all add: move_piece_def)
  obtain j where j: "position (\<lambda>p. pc_id p = k) (hd_pieces g) = Some j"
    using assms g by (cases "position (\<lambda>p. pc_id p = k) (hd_pieces g)") (simp_all add: move_piece_def)
  define p where "p = (hd_pieces g ! j)\<lparr>pc_s := fst spot, pc_x := snd spot, pc_turn := turn mod 4, pc_storey := storey\<rparr>"
  from position_Some [OF j] have "j < length (hd_pieces g)" "pc_id (hd_pieces g ! j) = k" by auto
  then show ?thesis
    by (intro that [of g j p]) (use assms g j in \<open>auto simp: move_piece_def Let_def p_def split: option.splits\<close>)
qed


text \<open>A chair put down in the middle of the flat.\<close>

definition a_chair :: piece where
  "a_chair = \<lparr>pc_id = 0, pc_kind = Chair, pc_s = 40, pc_x = 40, pc_turn = 0, pc_storey = 0, pc_holds = []\<rparr>"

definition anns_lease :: held where
  "anns_lease = newly_held ''0xa'' ''ANN'' (Lease (rent flat_one) 0 None) 0"

lemma chair_spec: "spec Chair = f_spec Chair ''chair'' (5 / 10, 5 / 10, 9 / 10) 80 True 0"
  by (simp add: spec_def FURNITURE_def)

lemma roundings:
  "rn32 (1 / 2) = 1 / 2" "rn32 (15 / 4) = 15 / 4" "rn32 (17 / 4) = 17 / 4" "rn32 4 = 4" "rn32 40 = 40" "rn32 (1 / 4) = 1 / 4"
  "rn32 3 = 3" "rn32 5 = 5" "rn32 (- 1) = - 1" "rn32 1 = 1"
  by code_simp+

lemma chair_box: "cb_rect (boxed flat_one a_chair) = rect_new (15 / 4) (17 / 4) (15 / 4) (17 / 4)"
  by (simp add: boxed_def piece_box_def piece_at_def a_chair_def chair_spec f_spec_def flat_one_def rect_new_def
      floor_of_def roundings)

lemma chair_within: "rect_holds (inset (rn32 (- (1 / 100))) (ho_rect flat_one)) (cb_rect (boxed flat_one a_chair))"
proof -
  let ?d = "rn32 (- (1 / 100))"
  have d: "?d \<le> 0" using rn_mono(1) [of "- (1 / 100)" 0] by simp
  have "rn32 ?d \<le> 0" using rn_mono(1) [OF d] by simp
  moreover have "17 / 4 \<le> rn32 (8 - ?d)" using rn_mono(1) [of "17 / 4" "8 - ?d"] d by (simp add: roundings)
  ultimately show ?thesis
    unfolding chair_box by (simp add: rect_holds_def inset_def rect_new_def flat_one_def)
qed

lemma chair_clear_of_the_door:
  "\<not> overlaps (cb_rect (boxed flat_one a_chair))
      (rect_new (rn32 (fst (ho_inside flat_one) - DOOR_CLEAR)) (rn32 (fst (ho_inside flat_one) + DOOR_CLEAR))
        (rn32 (snd (ho_inside flat_one) - DOOR_CLEAR)) (rn32 (snd (ho_inside flat_one) + DOOR_CLEAR)))"
  unfolding chair_box by (simp add: overlaps_def rect_new_def flat_one_def DOOR_CLEAR_def roundings)

lemma chair_fits: "placed_at small_city 1 anns_lease a_chair None = None"
proof -
  have "pc_kind a_chair = Chair" "pc_storey a_chair = 0" "hd_pieces anns_lease = []" "ho_storeys flat_one = 1"
    by (simp_all add: a_chair_def anns_lease_def newly_held_def flat_one_def)
  with chair_within chair_clear_of_the_door show ?thesis
    by (simp add: placed_at_def small_city_def fits_def)
qed

lemma ann_puts_a_chair:
  "furnish small_city 1 ''0xa'' Chair (40, 40) 0 0 anns_flat (hangar_empty\<lparr>credits := 500\<rparr>)
     = (Inr (PutDown Chair 80),
        (put_home 1 (anns_lease\<lparr>hd_next_piece := 1, hd_pieces := [a_chair]\<rparr>) anns_flat)\<lparr>furniture_sold := 80\<rparr>,
        hangar_empty\<lparr>credits := 420\<rparr>)"
proof -
  have crew: "crew_of 1 ''0xa'' anns_flat = Inr anns_lease"
    by (simp add: crew_of_def anns_flat_def anns_lease_def newly_held_def key_lock_def is_crew_def homes_new_def)
  have "hd_pieces anns_lease = []" "hd_next_piece anns_lease = 0" by (simp_all add: anns_lease_def newly_held_def)
  moreover have "fs_price (spec Chair) = 80" by (simp add: chair_spec f_spec_def)
  ultimately show ?thesis using crew chair_fits
    by (simp add: furnish_def a_chair_def MAX_PIECES_def Let_def anns_flat_def homes_new_def)
qed


end
