(* ===== verification/Seats.thy ===== *)
theory Seats
  imports Exchange
begin

text \<open>
  Seats (\<open>crates/bc-econ/src/seats.rs\<close>): the colony's jobs, worked by an Arrival who sits down in one
  or, when none does, by the staff. \<open>work_step\<close> is one change of who works what, \<open>shift_history\<close> what a
  colony's seats can come to. The lemmas show that nobody ever works two seats and the seats
  themselves never change, when a seat changes hands, and what practice does to an Arrival's work.
  Names and sentences are not modelled; a score is a rational, \<open>None\<close> for an infinity or NaN.
\<close>

section \<open>Jobs, posts and seats\<close>

definition STAFF_QUALITY :: nat where "STAFF_QUALITY = 50"
definition NOVICE_QUALITY :: nat where "NOVICE_QUALITY = 40"
definition NOVICE_CEILING :: nat where "NOVICE_CEILING = 60"
definition MASTER_QUALITY :: nat where "MASTER_QUALITY = 100"
definition HALF_PRACTICE :: nat where "HALF_PRACTICE = 200"
definition WAGE_PCT :: nat where "WAGE_PCT = 80"
definition SHIFT_LAPSE_S :: nat where "SHIFT_LAPSE_S = 10 * 60"

datatype seat_job = Cook | Barkeep | Courier | Customs | Dockmaster | FoundryJob | Mechanic

definition job_all :: "seat_job list" where
  "job_all = [Cook, Barkeep, Courier, Customs, Dockmaster, FoundryJob, Mechanic]"

fun job_slug :: "seat_job \<Rightarrow> string" where
  "job_slug Cook = ''cook''" | "job_slug Barkeep = ''barkeep''" | "job_slug Courier = ''courier''"
| "job_slug Customs = ''customs''" | "job_slug Dockmaster = ''dockmaster''" | "job_slug FoundryJob = ''foundry''"
| "job_slug Mechanic = ''mechanic''"

datatype job_post = TheArrival | Streets | HubGate nat | TheDock | TheFoundry | Bays

record holder =
  sh_who :: trader
  sh_name :: string
  sh_since :: nat
  sh_seen :: nat

datatype worker = Staff | Arrival holder

record pay =
  py_wage :: nat
  py_colony :: nat

record seat =
  se_id :: nat
  se_job :: seat_job
  se_post :: job_post
  se_held :: "holder option"

definition worker_of :: "seat \<Rightarrow> worker" where
  "worker_of s = (case se_held s of None \<Rightarrow> Staff | Some h \<Rightarrow> Arrival h)"

definition pay_of :: "nat \<Rightarrow> seat \<Rightarrow> pay" where
  "pay_of price s =
     (case worker_of s of
        Staff \<Rightarrow> \<lparr>py_wage = 0, py_colony = price\<rparr>
      | Arrival _ \<Rightarrow> let wage = price * WAGE_PCT div 100 in \<lparr>py_wage = wage, py_colony = price - wage\<rparr>)"

definition lapsed :: "nat \<Rightarrow> seat \<Rightarrow> bool" where
  "lapsed now s = (case se_held s of None \<Rightarrow> False | Some h \<Rightarrow> sh_seen h + SHIFT_LAPSE_S \<le> now)"

definition COLONY_SEATS :: "(seat_job \<times> job_post \<times> nat) list" where
  "COLONY_SEATS =
     [(Cook, TheArrival, 2), (Barkeep, TheArrival, 1), (Courier, Streets, 6), (Customs, HubGate 0, 1),
      (Customs, HubGate 1, 1), (Customs, HubGate 2, 1), (Dockmaster, TheDock, 1), (FoundryJob, TheFoundry, 2),
      (Mechanic, Bays, 3)]"

type_synonym seats = "seat list"

definition seats_colony :: seats where
  "seats_colony =
     fold (\<lambda>(j, p, n) ss. fold (\<lambda>_ ss. ss @ [\<lparr>se_id = length ss + 1, se_job = j, se_post = p, se_held = None\<rparr>]) [0..<n] ss)
       COLONY_SEATS []"

section \<open>Taking, leaving and losing a seat\<close>

definition works_at :: "trader \<Rightarrow> seat \<Rightarrow> bool" where
  "works_at who s = (case se_held s of None \<Rightarrow> False | Some h \<Rightarrow> sh_who h = who)"

definition seat_of :: "nat \<Rightarrow> seats \<Rightarrow> seat option" where
  "seat_of k ss = find (\<lambda>s. se_id s = k) ss"

definition seat_held_by :: "trader \<Rightarrow> seats \<Rightarrow> seat option" where
  "seat_held_by who ss = find (works_at who) ss"

definition open_seat :: "seat_job \<Rightarrow> job_post \<Rightarrow> seats \<Rightarrow> seat option" where
  "open_seat j p ss = find (\<lambda>s. se_job s = j \<and> se_post s = p \<and> se_held s = None) ss"

datatype seat_refusal = WorkingIt | OnShiftAs seat_job job_post | NoSuchSeat | WorkedBy string | NotOnShift

datatype seat_reply = OnShift seat_job job_post | OffShift seat_job

definition take_seat :: "nat \<Rightarrow> trader \<Rightarrow> string \<Rightarrow> nat \<Rightarrow> seats \<Rightarrow> (seat_refusal + seat_reply) \<times> seats" where
  "take_seat k who name now ss =
     (case seat_held_by who ss of
        Some s \<Rightarrow> (Inl (if se_id s = k then WorkingIt else OnShiftAs (se_job s) (se_post s)), ss)
      | None \<Rightarrow>
          (case position (\<lambda>s. se_id s = k) ss of
             None \<Rightarrow> (Inl NoSuchSeat, ss)
           | Some j \<Rightarrow>
               let s = ss ! j in
               case (if lapsed now s then None else se_held s) of
                 Some h \<Rightarrow> (Inl (WorkedBy (sh_name h)), ss)
               | None \<Rightarrow>
                   (Inr (OnShift (se_job s) (se_post s)),
                    ss[j := s\<lparr>se_held := Some \<lparr>sh_who = who, sh_name = name, sh_since = now, sh_seen = now\<rparr>\<rparr>])))"

definition leave_seat :: "trader \<Rightarrow> seats \<Rightarrow> (seat_refusal + seat_reply) \<times> seats" where
  "leave_seat who ss =
     (case position (works_at who) ss of
        None \<Rightarrow> (Inl NotOnShift, ss)
      | Some j \<Rightarrow> (Inr (OffShift (se_job (ss ! j))), ss[j := (ss ! j)\<lparr>se_held := None\<rparr>]))"

definition at_work :: "trader \<Rightarrow> nat \<Rightarrow> seats \<Rightarrow> bool \<times> seats" where
  "at_work who now ss =
     (case position (works_at who) ss of
        None \<Rightarrow> (False, ss)
      | Some j \<Rightarrow>
          (True, ss[j := (ss ! j)\<lparr>se_held := map_option (\<lambda>h. h\<lparr>sh_seen := max (sh_seen h) now\<rparr>) (se_held (ss ! j))\<rparr>]))"

definition lapse :: "nat \<Rightarrow> seats \<Rightarrow> trader list \<times> seats" where
  "lapse now ss =
     (concat (map (\<lambda>s. if lapsed now s then (case se_held s of None \<Rightarrow> [] | Some h \<Rightarrow> [sh_who h]) else []) ss),
      map (\<lambda>s. if lapsed now s then s\<lparr>se_held := None\<rparr> else s) ss)"

section \<open>Skills\<close>

type_synonym skills = "seat_job \<rightharpoonup> nat"

definition practice :: "seat_job \<Rightarrow> skills \<Rightarrow> nat" where
  "practice j k = (case k j of None \<Rightarrow> 0 | Some p \<Rightarrow> p)"

definition practise :: "seat_job \<Rightarrow> nat \<Rightarrow> skills \<Rightarrow> skills" where
  "practise j units k = k(j \<mapsto> sat32 (practice j k + units))"

definition ceiling_of :: "seat_job \<Rightarrow> skills \<Rightarrow> nat" where
  "ceiling_of j k =
     (let p = practice j k; room = MASTER_QUALITY - NOVICE_CEILING
      in NOVICE_CEILING + (room * p div (p + HALF_PRACTICE)) mod 2 ^ 8)"

definition work_quality :: "seat_job \<Rightarrow> rat option \<Rightarrow> skills \<Rightarrow> nat" where
  "work_quality j score k =
     (let s = (case score of None \<Rightarrow> 0 | Some x \<Rightarrow> max 0 (min x 1));
          lo = of_nat NOVICE_QUALITY; hi = of_nat (ceiling_of j k)
      in to_nat_trunc u8_max (of_int (round_away (rn64 (lo + rn64 (s * rn64 (hi - lo)))))))"

definition seat_quality :: "skills \<Rightarrow> rat option \<Rightarrow> seat \<Rightarrow> nat" where
  "seat_quality k score s =
     (case worker_of s of Staff \<Rightarrow> STAFF_QUALITY | Arrival _ \<Rightarrow> work_quality (se_job s) score k)"

section \<open>One shift each\<close>

text \<open>One change of who works what, and what a colony's seats can come to.\<close>

inductive work_step :: "seats \<Rightarrow> seats \<Rightarrow> bool" where
  Sits_down: "take_seat k who name now ss = (res, ss') \<Longrightarrow> work_step ss ss'"
| Gets_up: "leave_seat who ss = (res, ss') \<Longrightarrow> work_step ss ss'"
| Works: "at_work who now ss = (was, ss') \<Longrightarrow> work_step ss ss'"
| Lapses: "lapse now ss = (gone, ss') \<Longrightarrow> work_step ss ss'"

inductive shift_history :: "seats \<Rightarrow> bool" where
  Colony_opens: "shift_history seats_colony"
| Shifts_go_on: "shift_history ss \<Longrightarrow> work_step ss ss' \<Longrightarrow> shift_history ss'"

definition places :: "seats \<Rightarrow> (nat \<times> seat_job \<times> job_post) list" where
  "places ss = map (\<lambda>s. (se_id s, se_job s, se_post s)) ss"

definition one_each :: "seats \<Rightarrow> bool" where
  "one_each ss \<longleftrightarrow> (\<forall>i < length ss. \<forall>j < length ss. \<forall>who. works_at who (ss ! i) \<and> works_at who (ss ! j) \<longrightarrow> i = j)"

lemma places_update:
  "j < length ss \<Longrightarrow> places (ss[j := (ss ! j)\<lparr>se_held := x\<rparr>]) = places ss"
  by (simp add: places_def map_update list_update_same_conv)

text \<open>A seat handed to someone who had none, or changed without a new worker, leaves one shift each.\<close>

lemma one_each_update:
  assumes "one_each ss" and "j < length ss"
    and "\<forall>who. works_at who s \<longrightarrow> works_at who (ss ! j) \<or> (\<forall>t \<in> set ss. \<not> works_at who t)"
  shows "one_each (ss[j := s])"
  unfolding one_each_def length_list_update
proof (intro allI impI, elim conjE)
  fix a b who
  assume ab: "a < length ss" "b < length ss" "works_at who (ss[j := s] ! a)" "works_at who (ss[j := s] ! b)"
  show "a = b"
  proof (cases "a = j \<or> b = j")
    case True
    show ?thesis
    proof (rule ccontr)
      assume ne: "a \<noteq> b"
      with True ab assms(2) obtain c where c: "c < length ss" "c \<noteq> j" "works_at who (ss ! c)" "works_at who s"
        by (auto simp: nth_list_update split: if_splits)
      from assms(3) c(1,3,4) have "works_at who (ss ! j)" using nth_mem by blast
      with assms(1,2) c show False unfolding one_each_def by blast
    qed
  next
    case False
    with ab have "works_at who (ss ! a)" "works_at who (ss ! b)" "a < length ss" "b < length ss" by auto
    with assms(1) show ?thesis unfolding one_each_def by blast
  qed
qed

lemma take_seat_keeps:
  assumes "take_seat k who name now ss = (res, ss')" and "one_each ss"
  shows "one_each ss' \<and> places ss' = places ss"
proof (cases "seat_held_by who ss")
  case None
  then have free: "\<forall>t \<in> set ss. \<not> works_at who t" by (auto simp: seat_held_by_def find_None_iff)
  show ?thesis
  proof (cases "position (\<lambda>s. se_id s = k) ss")
    case (Some j)
    let ?h = "\<lparr>sh_who = who, sh_name = name, sh_since = now, sh_seen = now\<rparr>"
    from position_Some [OF Some] have j: "j < length ss" by simp
    from assms(1) None Some have "ss' = ss \<or> ss' = ss[j := (ss ! j)\<lparr>se_held := Some ?h\<rparr>]"
      by (auto simp: take_seat_def Let_def split: option.splits)
    moreover have "one_each (ss[j := (ss ! j)\<lparr>se_held := Some ?h\<rparr>])"
      by (rule one_each_update [OF assms(2) j]) (use free in \<open>simp add: works_at_def\<close>)
    ultimately show ?thesis using assms(2) places_update [OF j] by auto
  qed (use assms None in \<open>simp add: take_seat_def\<close>)
qed (use assms in \<open>simp add: take_seat_def\<close>)

lemma leave_seat_keeps:
  assumes "leave_seat who ss = (res, ss')" and "one_each ss"
  shows "one_each ss' \<and> places ss' = places ss"
proof (cases "position (works_at who) ss")
  case (Some j)
  from position_Some [OF Some] have j: "j < length ss" by simp
  have "one_each (ss[j := (ss ! j)\<lparr>se_held := None\<rparr>])"
    by (rule one_each_update [OF assms(2) j]) (simp add: works_at_def)
  with assms(1) Some places_update [OF j] show ?thesis by (auto simp: leave_seat_def)
qed (use assms in \<open>simp add: leave_seat_def\<close>)

lemma at_work_keeps:
  assumes "at_work who now ss = (was, ss')" and "one_each ss"
  shows "one_each ss' \<and> places ss' = places ss"
proof (cases "position (works_at who) ss")
  case (Some j)
  let ?h = "map_option (\<lambda>h. h\<lparr>sh_seen := max (sh_seen h) now\<rparr>) (se_held (ss ! j))"
  from position_Some [OF Some] have j: "j < length ss" by simp
  have "one_each (ss[j := (ss ! j)\<lparr>se_held := ?h\<rparr>])"
    by (rule one_each_update [OF assms(2) j]) (auto simp: works_at_def split: option.splits)
  with assms(1) Some places_update [OF j] show ?thesis by (auto simp: at_work_def)
qed (use assms in \<open>simp add: at_work_def\<close>)

lemma lapse_keeps:
  assumes "lapse now ss = (gone, ss')" and "one_each ss"
  shows "one_each ss' \<and> places ss' = places ss"
proof -
  let ?f = "\<lambda>s. if lapsed now s then s\<lparr>se_held := None\<rparr> else s"
  have ss': "ss' = map ?f ss" using assms(1) by (simp add: lapse_def)
  have "works_at who (?f s) \<Longrightarrow> works_at who s" for who s by (auto simp: works_at_def split: if_splits)
  with assms(2) have "one_each (map ?f ss)" unfolding one_each_def by (metis length_map nth_map)
  moreover have "places (map ?f ss) = places ss" by (simp add: places_def)
  ultimately show ?thesis by (simp add: ss')
qed

lemma work_step_keeps: "work_step ss ss' \<Longrightarrow> one_each ss \<Longrightarrow> one_each ss' \<and> places ss' = places ss"
  by (induction rule: work_step.induct)
    (erule (1) take_seat_keeps leave_seat_keeps at_work_keeps lapse_keeps)+

lemma colony_places:
  "places seats_colony =
     [(1, Cook, TheArrival), (2, Cook, TheArrival), (3, Barkeep, TheArrival), (4, Courier, Streets), (5, Courier, Streets),
      (6, Courier, Streets), (7, Courier, Streets), (8, Courier, Streets), (9, Courier, Streets), (10, Customs, HubGate 0),
      (11, Customs, HubGate 1), (12, Customs, HubGate 2), (13, Dockmaster, TheDock), (14, FoundryJob, TheFoundry),
      (15, FoundryJob, TheFoundry), (16, Mechanic, Bays), (17, Mechanic, Bays), (18, Mechanic, Bays)]"
  by code_simp

lemma colony_one_each: "one_each seats_colony"
proof -
  have "list_all (\<lambda>s. se_held s = None) seats_colony" by code_simp
  then have "\<forall>i < length seats_colony. \<not> works_at who (seats_colony ! i)" for who
    by (simp add: list_all_length works_at_def)
  then show ?thesis by (simp add: one_each_def)
qed

text \<open>C33: One shift each: whatever Arrivals do, sitting down, getting up, working or letting a shift
  lapse, nobody ever works two seats, and the colony keeps its eighteen seats, their jobs, posts and
  numbers.\<close>
theorem one_shift_each:
  assumes "shift_history ss"
  shows "places ss = places seats_colony
    \<and> (i < length ss \<longrightarrow> j < length ss \<longrightarrow> works_at who (ss ! i) \<longrightarrow> works_at who (ss ! j) \<longrightarrow> i = j)"
proof -
  from assms have "one_each ss \<and> places ss = places seats_colony"
    by (induction rule: shift_history.induct) (use colony_one_each work_step_keeps in auto)
  then show ?thesis unfolding one_each_def by blast
qed

definition anns_shift :: seats where
  "anns_shift = snd (take_seat 1 ''ann'' ''Ann'' 100 seats_colony)"

theorem one_shift_each_witness: "places anns_shift = places seats_colony"
proof -
  have "shift_history anns_shift"
    unfolding anns_shift_def by (rule Shifts_go_on [OF Colony_opens Sits_down]) (rule prod.collapse [symmetric])
  from one_shift_each [OF this] show ?thesis by blast
qed

section \<open>Whose seat it is\<close>

text \<open>A shift is kept by working it: while someone works a seat and was last seen at it less than ten
  minutes before, nobody else can sit down in it and the clock does not take it from them; and once
  ten minutes have passed anyone who has no seat can.\<close>
theorem shifts_are_kept_by_working:
  assumes "j < length ss" and "se_held (ss ! j) = Some h" and "distinct (map se_id ss)"
  shows "(now < sh_seen h + SHIFT_LAPSE_S
            \<longrightarrow> snd (take_seat k who name now ss) ! j = ss ! j \<and> snd (lapse now ss) ! j = ss ! j)
       \<and> (sh_seen h + SHIFT_LAPSE_S \<le> now \<and> seat_held_by who ss = None
            \<longrightarrow> take_seat (se_id (ss ! j)) who name now ss
                 = (Inr (OnShift (se_job (ss ! j)) (se_post (ss ! j))),
                    ss[j := (ss ! j)\<lparr>se_held := Some \<lparr>sh_who = who, sh_name = name, sh_since = now, sh_seen = now\<rparr>\<rparr>]))"
proof (intro conjI impI; (elim conjE)?)
  assume now: "now < sh_seen h + SHIFT_LAPSE_S"
  then have l: "\<not> lapsed now (ss ! j)" by (simp add: lapsed_def assms(2))
  show "snd (take_seat k who name now ss) ! j = ss ! j"
  proof (cases "position (\<lambda>s. se_id s = k) ss")
    case (Some i)
    then show ?thesis using l assms(2)
      by (cases "i = j") (auto simp: take_seat_def Let_def split: option.splits)
  qed (simp add: take_seat_def split: option.splits)
  show "snd (lapse now ss) ! j = ss ! j" using l assms(1) by (simp add: lapse_def)
next
  assume now: "sh_seen h + SHIFT_LAPSE_S \<le> now" and free: "seat_held_by who ss = None"
  have "position (\<lambda>s. se_id s = se_id (ss ! j)) ss = Some j"
  proof (cases "position (\<lambda>s. se_id s = se_id (ss ! j)) ss")
    case None
    then show ?thesis using assms(1) by (auto simp: position_None)
  next
    case (Some i)
    from position_Some [OF Some] have "i < length ss" "se_id (ss ! i) = se_id (ss ! j)" by auto
    with assms(1,3) Some show ?thesis by (auto simp: distinct_conv_nth)
  qed
  moreover have "lapsed now (ss ! j)" using now by (simp add: lapsed_def assms(2))
  ultimately show "take_seat (se_id (ss ! j)) who name now ss
             = (Inr (OnShift (se_job (ss ! j)) (se_post (ss ! j))),
                ss[j := (ss ! j)\<lparr>se_held := Some \<lparr>sh_who = who, sh_name = name, sh_since = now, sh_seen = now\<rparr>\<rparr>])"
    using free by (simp add: take_seat_def Let_def)
qed

lemma anns_seat:
  "0 < length anns_shift \<and> distinct (map se_id anns_shift)
   \<and> se_held (anns_shift ! 0) = Some \<lparr>sh_who = ''ann'', sh_name = ''Ann'', sh_since = 100, sh_seen = 100\<rparr>"
  by code_simp

theorem shifts_are_kept_by_working_witness:
  "snd (take_seat 1 ''bob'' ''Bob'' 699 anns_shift) ! 0 = anns_shift ! 0
   \<and> fst (take_seat 1 ''bob'' ''Bob'' 700 anns_shift) = Inr (OnShift Cook TheArrival)"
proof -
  let ?h = "\<lparr>sh_who = ''ann'', sh_name = ''Ann'', sh_since = 100, sh_seen = 100\<rparr>"
  have "seat_held_by ''bob'' anns_shift = None" "se_id (anns_shift ! 0) = 1" "se_job (anns_shift ! 0) = Cook"
    "se_post (anns_shift ! 0) = TheArrival"
    by code_simp+
  with shifts_are_kept_by_working [of 0 anns_shift ?h 699 1 "''bob''" "''Bob''"]
    shifts_are_kept_by_working [of 0 anns_shift ?h 700 1 "''bob''" "''Bob''"] anns_seat
  show ?thesis by (simp add: SHIFT_LAPSE_S_def)
qed

section \<open>What practice makes of the work\<close>

lemma ceiling_steps: "room * p div (p + c) \<le> room * (Suc p) div (Suc p + c)" for room p c :: nat
proof (cases "p + c = 0")
  case False
  have "room * p div (p + c) \<le> room * (p + 1) div (p + 1 + c)"
  proof -
    let ?q = "room * p div (p + c)"
    have q: "?q * (p + c) \<le> room * p" by simp
    have "?q \<le> room * (p + c) div (p + c)" by (intro div_le_mono) simp
    with False have "?q \<le> room" by simp
    with q have "?q * (p + 1 + c) \<le> room * (p + 1)" by (simp add: algebra_simps)
    then show ?thesis by (simp add: less_eq_div_iff_mult_less_eq)
  qed
  then show ?thesis by simp
qed simp

lemma ceiling_mono: "p \<le> q \<Longrightarrow> room * p div (p + c) \<le> room * q div (q + c)" for room p q c :: nat
proof (induction rule: dec_induct)
  case (step n)
  from step(3) ceiling_steps [of room n c] show ?case by (rule order_trans)
qed simp

lemma ceiling_small: "40 * p div (p + 200) < (40 :: nat)"
  by (simp add: div_less_iff_less_mult)

lemma ceiling_eq: "ceiling_of j k = 60 + 40 * practice j k div (practice j k + 200)"
proof -
  have "40 * practice j k div (practice j k + 200) < 2 ^ 8" using ceiling_small [of "practice j k"] by simp
  then show ?thesis
    by (simp add: ceiling_of_def Let_def MASTER_QUALITY_def NOVICE_CEILING_def HALF_PRACTICE_def)
qed

lemma ceiling_bounds: "60 \<le> ceiling_of j k" "ceiling_of j k < 100"
  using ceiling_small [of "practice j k"] by (simp_all add: ceiling_eq)

lemma round_away_mono: "0 \<le> x \<Longrightarrow> x \<le> y \<Longrightarrow> round_away x \<le> round_away y"
  by (simp add: round_away_def floor_mono)

lemma round_away_nat: "round_away (of_nat n) = int n"
  by (simp add: round_away_def floor_eq_iff)

text \<open>The work before rounding.\<close>

definition raw_work :: "rat \<Rightarrow> nat \<Rightarrow> rat" where
  "raw_work s c = rn64 (40 + rn64 (s * rn64 (of_nat c - 40)))"

lemma raw_work_bounds:
  assumes "0 \<le> s" and "s \<le> 1" and "60 \<le> c" and "c < 100"
  shows "40 \<le> raw_work s c" and "raw_work s c \<le> of_nat c"
proof -
  have n: "rn64 (of_nat k) = of_nat k" if "k < 100" for k using that by (intro rn64_nat) simp
  have room: "of_nat c - (40 :: rat) = of_nat (c - 40)" using assms(3) by (simp add: of_nat_diff)
  have "0 \<le> s * of_nat (c - 40)" "s * of_nat (c - 40) \<le> of_nat (c - 40)"
    using assms(1,2) by (simp_all add: mult_left_le_one_le)
  then have "0 \<le> rn64 (s * of_nat (c - 40))" "rn64 (s * of_nat (c - 40)) \<le> of_nat (c - 40)"
    using rn_nonneg(2) rn_mono(2) [of "s * of_nat (c - 40)" "of_nat (c - 40)"] n [of "c - 40"] assms(4) by auto
  then have "40 \<le> 40 + rn64 (s * of_nat (c - 40))" "40 + rn64 (s * of_nat (c - 40)) \<le> of_nat c"
    using room by linarith+
  note r = this
  have "rn64 (of_nat c - 40) = of_nat (c - 40)" unfolding room by (rule n) (use assms(4) in simp)
  then have raw: "raw_work s c = rn64 (40 + rn64 (s * of_nat (c - 40)))" by (simp only: raw_work_def)
  have "rn64 (of_nat 40) \<le> raw_work s c" unfolding raw by (rule rn_mono(2)) (use r(1) in simp)
  moreover have "raw_work s c \<le> rn64 (of_nat c)" unfolding raw by (rule rn_mono(2) [OF r(2)])
  ultimately show "40 \<le> raw_work s c" "raw_work s c \<le> of_nat c"
    unfolding n [OF assms(4)] using n [of 40] by auto
qed

lemma raw_work_mono:
  assumes "s \<le> t" and "60 \<le> c"
  shows "raw_work s c \<le> raw_work t c"
proof -
  have "0 \<le> rn64 (of_nat c - 40)" using assms(2) by (intro rn_nonneg(2)) simp
  with assms(1) show ?thesis
    unfolding raw_work_def by (intro rn_mono(2) add_left_mono mult_right_mono)
qed

lemma work_quality_eq:
  "work_quality j score k = min 255 (nat (round_away (raw_work (case score of None \<Rightarrow> 0 | Some x \<Rightarrow> max 0 (min x 1)) (ceiling_of j k))))"
proof -
  let ?s = "case score of None \<Rightarrow> 0 | Some x \<Rightarrow> max 0 (min x 1)"
  have "0 \<le> ?s" "?s \<le> 1" by (auto split: option.splits)
  from raw_work_bounds(1) [OF this ceiling_bounds] round_away_mono [of 40 "raw_work ?s (ceiling_of j k)"]
    round_away_nat [of 40]
  have "0 < round_away (raw_work ?s (ceiling_of j k))" by simp
  then show ?thesis
    by (simp add: work_quality_def raw_work_def Let_def NOVICE_QUALITY_def to_nat_trunc_def u8_max_def)
qed

lemma work_quality_bounds: "40 \<le> work_quality j score k" "work_quality j score k \<le> ceiling_of j k"
proof -
  let ?s = "case score of None \<Rightarrow> 0 | Some x \<Rightarrow> max 0 (min x 1)" and ?c = "ceiling_of j k"
  have "0 \<le> ?s" "?s \<le> 1" by (auto split: option.splits)
  note b = raw_work_bounds [OF this ceiling_bounds [of j k]]
  from round_away_mono [OF _ b(1)] round_away_nat [of 40] have "40 \<le> round_away (raw_work ?s ?c)" by simp
  moreover from round_away_mono [OF _ b(2)] b(1) round_away_nat [of ?c] have "round_away (raw_work ?s ?c) \<le> int ?c" by simp
  ultimately show "40 \<le> work_quality j score k" "work_quality j score k \<le> ?c"
    unfolding work_quality_eq by simp_all
qed

lemma work_quality_mono:
  assumes "x \<le> y"
  shows "work_quality j (Some x) k \<le> work_quality j (Some y) k"
proof -
  let ?s = "max 0 (min x 1)" and ?t = "max 0 (min y 1)" and ?c = "ceiling_of j k"
  have "0 \<le> ?s" "?s \<le> 1" "?s \<le> ?t" using assms by auto
  from raw_work_mono [OF this(3) ceiling_bounds(1)] raw_work_bounds(1) [OF this(1,2) ceiling_bounds [of j k]]
  have "round_away (raw_work ?s ?c) \<le> round_away (raw_work ?t ?c)" by (intro round_away_mono) auto
  then show ?thesis unfolding work_quality_eq by (simp add: nat_mono min_le_iff_disj)
qed

lemma work_quality_best: "work_quality j (Some 1) k = ceiling_of j k"
proof -
  let ?c = "ceiling_of j k"
  have n: "rn64 (of_nat m) = of_nat m" if "m < 100" for m using that by (intro rn64_nat) simp
  have "of_nat ?c - (40 :: rat) = of_nat (?c - 40)" using ceiling_bounds [of j k] by (simp add: of_nat_diff)
  then have "raw_work 1 ?c = of_nat ?c"
    using ceiling_bounds [of j k] n [of "?c - 40"] n [of ?c] by (simp add: raw_work_def of_nat_diff)
  then show ?thesis using ceiling_bounds [of j k] round_away_nat [of ?c] by (simp add: work_quality_eq)
qed

text \<open>Practice makes the work better and never perfect: an Arrival's work comes out between the
  novice's worst and a ceiling that starts at 60, never falls with practice and stays below 100;
  their best effort reaches the ceiling, a better effort never does worse, and a seat worked by the
  staff always comes out at the staff's 50.\<close>
theorem practice_makes_better:
  assumes "practice j k \<le> u32_max"
  shows "NOVICE_CEILING \<le> ceiling_of j k \<and> ceiling_of j k < MASTER_QUALITY
    \<and> ceiling_of j k \<le> ceiling_of j (practise j units k)
    \<and> NOVICE_QUALITY \<le> work_quality j score k \<and> work_quality j score k \<le> ceiling_of j k
    \<and> work_quality j (Some 1) k = ceiling_of j k
    \<and> work_quality j (Some x) k \<le> work_quality j (Some (max x y)) k
    \<and> (se_held s = None \<longrightarrow> seat_quality k score s = STAFF_QUALITY)"
proof -
  have "practice j k \<le> practice j (practise j units k)"
    using assms by (simp add: practise_def practice_def sat32_def)
  from ceiling_mono [OF this, of 40 200] have "ceiling_of j k \<le> ceiling_of j (practise j units k)"
    by (simp add: ceiling_eq)
  with ceiling_bounds work_quality_bounds work_quality_best work_quality_mono [of x "max x y"] show ?thesis
    by (simp add: NOVICE_CEILING_def MASTER_QUALITY_def NOVICE_QUALITY_def seat_quality_def worker_of_def)
qed

theorem practice_makes_better_witness: "ceiling_of Cook [Cook \<mapsto> 200] = 80 \<and> work_quality Cook (Some 1) [Cook \<mapsto> 200] = 80"
proof -
  have "practice Cook [Cook \<mapsto> 200] \<le> u32_max" by (simp add: practice_def u32_max_def)
  from practice_makes_better [OF this] show ?thesis by (simp add: ceiling_eq practice_def)
qed

text \<open>What a sale pays: the wage and the colony's share make the price, and the staff take nothing.\<close>

lemma pay_adds_up: "py_wage (pay_of price s) + py_colony (pay_of price s) = price"
  by (simp add: pay_of_def Let_def WAGE_PCT_def split: worker.splits)

end
