(* ===== verification/Body.thy ===== *)
theory Body
  imports Seats Hangar
begin

text \<open>
  The pilot's body and what is eaten (\<open>crates/bc-econ/src/body.rs\<close> and \<open>food.rs\<close>, \<open>Fed\<close> of
  \<open>crates/bc-sim/src/content/body.rs\<close>): food in seconds awake, burnt on the wall clock and at a quarter of
  the rate asleep; the staff's counter. The lemmas show that it does not matter how often the clock is
  looked at, what a night's sleep can do, when each condition comes, and that a meal is paid for
  exactly when it is eaten. Names and sentences are not modelled.
\<close>

section \<open>Dishes and meals\<close>

definition HOUR :: nat where "HOUR = 3600"
definition GOOD_QUALITY :: nat where "GOOD_QUALITY = 70"

datatype dish = RationBar | Breakfast | OrchardPlate | Noodles | FishSupper

definition dish_all :: "dish list" where
  "dish_all = [RationBar, OrchardPlate, Breakfast, Noodles, FishSupper]"

fun dish_slug :: "dish \<Rightarrow> string" where
  "dish_slug RationBar = ''ration_bar''" | "dish_slug Breakfast = ''breakfast''"
| "dish_slug OrchardPlate = ''orchard_plate''" | "dish_slug Noodles = ''noodles''"
| "dish_slug FishSupper = ''fish_supper''"

fun dish_food :: "dish \<Rightarrow> nat" where
  "dish_food RationBar = 3 * HOUR div 2" | "dish_food OrchardPlate = 3 * HOUR" | "dish_food Breakfast = 4 * HOUR"
| "dish_food Noodles = 5 * HOUR" | "dish_food FishSupper = 6 * HOUR"

fun dish_price :: "dish \<Rightarrow> nat" where
  "dish_price RationBar = 8" | "dish_price OrchardPlate = 18" | "dish_price Breakfast = 20"
| "dish_price Noodles = 25" | "dish_price FishSupper = 40"

record meal =
  me_dish :: dish
  me_quality :: nat

definition staff_meal :: "dish \<Rightarrow> meal" where
  "staff_meal d = \<lparr>me_dish = d, me_quality = STAFF_QUALITY\<rparr>"

definition glow :: "meal \<Rightarrow> nat" where
  "glow m =
     (if me_quality m < GOOD_QUALITY then 0
      else (dish_food (me_dish m) * min (me_quality m) 100 div 100) mod 2 ^ 32)"

section \<open>The body\<close>

datatype fed = Fed | WellFed | Peckish | Hungry | Starving

definition fed_all :: "fed list" where "fed_all = [WellFed, Fed, Peckish, Hungry, Starving]"

fun fed_index :: "fed \<Rightarrow> nat" where
  "fed_index Fed = 0" | "fed_index WellFed = 1" | "fed_index Peckish = 2" | "fed_index Hungry = 3"
| "fed_index Starving = 4"

definition fed_from_index :: "nat \<Rightarrow> fed option" where
  "fed_from_index k =
     (if k = 0 then Some Fed else if k = 1 then Some WellFed else if k = 2 then Some Peckish
      else if k = 3 then Some Hungry else if k = 4 then Some Starving else None)"

fun fed_slug :: "fed \<Rightarrow> string" where
  "fed_slug Fed = ''fed''" | "fed_slug WellFed = ''well_fed''" | "fed_slug Peckish = ''peckish''"
| "fed_slug Hungry = ''hungry''" | "fed_slug Starving = ''starving''"

fun fed_g :: "fed \<Rightarrow> rat" where
  "fed_g WellFed = 1 / 2" | "fed_g Fed = 0" | "fed_g Peckish = 0" | "fed_g Hungry = - (1 / 2)" | "fed_g Starving = - 1"

definition FULL_S :: nat where "FULL_S = 8 * HOUR"
definition PECKISH_S :: nat where "PECKISH_S = HOUR"
definition STARVING_AFTER_S :: nat where "STARVING_AFTER_S = 3 * HOUR"
definition SLEEP_DIV :: nat where "SLEEP_DIV = 4"
definition ARRIVAL_FOOD_S :: nat where "ARRIVAL_FOOD_S = 5 * HOUR"

record body =
  bo_food :: nat
  bo_well :: nat
  bo_empty :: nat
  bo_awake :: bool
  bo_at :: nat

definition body_default :: body where
  "body_default = \<lparr>bo_food = ARRIVAL_FOOD_S, bo_well = 0, bo_empty = 0, bo_awake = False, bo_at = 0\<rparr>"

text \<open>The clock run to \<open>now\<close>: what is burnt, then the food and the glow less it.\<close>

definition body_settle :: "nat \<Rightarrow> body \<Rightarrow> body" where
  "body_settle now b =
     (if bo_at b = 0 then b\<lparr>bo_at := now\<rparr>
      else if now < bo_at b then b
      else
        let dt = now - bo_at b;
            (burn, b1) =
              (if bo_awake b
               then (sat32 dt, b\<lparr>bo_at := now, bo_empty := sat32 (bo_empty b + (sat32 dt - bo_food b))\<rparr>)
               else (sat32 (dt div SLEEP_DIV), b\<lparr>bo_at := bo_at b + dt div SLEEP_DIV * SLEEP_DIV\<rparr>));
            food = bo_food b1 - burn
        in b1\<lparr>bo_food := food, bo_well := min (bo_well b1 - burn) food\<rparr>)"

definition body_wake :: "nat \<Rightarrow> body \<Rightarrow> body" where
  "body_wake now b = (body_settle now b)\<lparr>bo_awake := True\<rparr>"

definition body_sleep :: "nat \<Rightarrow> body \<Rightarrow> body" where
  "body_sleep now b = (body_settle now b)\<lparr>bo_awake := False\<rparr>"

definition condition :: "body \<Rightarrow> fed" where
  "condition b =
     (if bo_food b = 0 then (if STARVING_AFTER_S \<le> bo_empty b then Starving else Hungry)
      else if 0 < bo_well b then WellFed
      else if bo_food b \<le> PECKISH_S then Peckish
      else Fed)"

datatype meal_refusal = CouldntEat | DishCosts dish nat

datatype meal_reply = Ate dish fed | AtePaid dish nat fed

definition eat :: "meal \<Rightarrow> nat \<Rightarrow> body \<Rightarrow> (meal_refusal + meal_reply) \<times> body" where
  "eat m now b0 =
     (let b = body_settle now b0; food = dish_food (me_dish m)
      in if FULL_S < bo_food b + food div 2 then (Inl CouldntEat, b)
         else
           let f = min (bo_food b + food) FULL_S;
               b' = b\<lparr>bo_food := f, bo_empty := 0, bo_well := min (max (bo_well b) (glow m)) f\<rparr>
           in (Inr (Ate (me_dish m) (condition b')), b'))"

definition kept :: "nat \<Rightarrow> body \<Rightarrow> body" where
  "kept now b = body_sleep now b"

definition eat_at_counter :: "dish \<Rightarrow> nat \<Rightarrow> body \<Rightarrow> hangar \<Rightarrow> (meal_refusal + meal_reply) \<times> body \<times> hangar" where
  "eat_at_counter d now b h =
     (let price = dish_price d
      in if credits h < price then (Inl (DishCosts d price), b, h)
         else
           case eat (staff_meal d) now b of
             (Inl why, b') \<Rightarrow> (Inl why, b', h)
           | (Inr _, b') \<Rightarrow> (Inr (AtePaid d price (condition b')), b', h\<lparr>credits := credits h - price\<rparr>))"

record body_view =
  bv_fed :: fed
  bv_food :: nat
  bv_well :: nat

definition body_view_of :: "body \<Rightarrow> body_view" where
  "body_view_of b = \<lparr>bv_fed = condition b, bv_food = bo_food b, bv_well = bo_well b\<rparr>"

section \<open>The invariant\<close>

text \<open>What every body's history keeps: no more food than fits, no glow without food, and nobody counted
  as on an empty stomach while there is food.\<close>

definition body_ok :: "body \<Rightarrow> bool" where
  "body_ok b \<longleftrightarrow> bo_food b \<le> FULL_S \<and> bo_well b \<le> bo_food b \<and> (0 < bo_food b \<longrightarrow> bo_empty b = 0) \<and> bo_empty b \<le> u32_max"

inductive body_step :: "body \<Rightarrow> body \<Rightarrow> bool" where
  Clock: "body_step b (body_settle now b)"
| Wakes: "body_step b (body_wake now b)"
| Sleeps: "body_step b (body_sleep now b)"
| Eats: "eat m now b = (r, b') \<Longrightarrow> body_step b b'"
| Eats_at_counter: "eat_at_counter d now b h = (r, b', h') \<Longrightarrow> body_step b b'"

inductive life :: "body \<Rightarrow> bool" where
  Arrives: "life body_default"
| Lives_on: "life b \<Longrightarrow> body_step b b' \<Longrightarrow> life b'"

lemmas body_consts = HOUR_def FULL_S_def PECKISH_S_def STARVING_AFTER_S_def SLEEP_DIV_def ARRIVAL_FOOD_S_def
  u32_max_def

lemma settle_ok: "body_ok b \<Longrightarrow> body_ok (body_settle now b)"
  by (auto simp: body_settle_def body_ok_def Let_def sat32_def)

lemma asleep_ok [simp]: "body_ok (b\<lparr>bo_awake := x\<rparr>) = body_ok b"
  by (simp add: body_ok_def)

lemma eat_ok: "eat m now b = (r, b') \<Longrightarrow> body_ok b \<Longrightarrow> body_ok b'"
  using settle_ok [of b now] by (auto simp: eat_def Let_def body_ok_def split: if_splits)

lemma counter_eats:
  assumes "eat_at_counter d now b h = (r, b', h')"
  obtains "b' = b" | r1 where "eat (staff_meal d) now b = (r1, b')"
  using assms by (cases "eat (staff_meal d) now b") (auto simp: eat_at_counter_def Let_def split: if_splits sum.splits)

lemma body_step_ok: "body_step b b' \<Longrightarrow> body_ok b \<Longrightarrow> body_ok b'"
  by (induction rule: body_step.induct)
    (auto simp: settle_ok body_wake_def body_sleep_def elim: eat_ok elim!: counter_eats)

lemma life_ok: "life b \<Longrightarrow> body_ok b"
proof (induction rule: life.induct)
  case Arrives
  show ?case by (simp add: body_ok_def body_default_def body_consts)
qed (rule body_step_ok)

section \<open>The clock\<close>

text \<open>What the clock does to each field.\<close>

definition burnt :: "nat \<Rightarrow> body \<Rightarrow> nat" where
  "burnt dt b = (if bo_awake b then dt else dt div 4)"

lemma settle_fields:
  assumes "bo_at b \<noteq> 0" and "bo_at b \<le> now" and "now - bo_at b \<le> u32_max" and "bo_empty b \<le> u32_max"
  shows "body_settle now b = \<lparr>bo_food = bo_food b - burnt (now - bo_at b) b,
     bo_well = min (bo_well b - burnt (now - bo_at b) b) (bo_food b - burnt (now - bo_at b) b),
     bo_empty = (if bo_awake b then min (bo_empty b + (now - bo_at b - bo_food b)) u32_max else bo_empty b),
     bo_awake = bo_awake b,
     bo_at = (if bo_awake b then now else bo_at b + (now - bo_at b) div 4 * 4)\<rparr>"
proof -
  have "(now - bo_at b) div 4 \<le> u32_max" using assms(3) div_le_dividend order_trans by blast
  with assms show ?thesis
    by (simp add: body_settle_def burnt_def SLEEP_DIV_def sat32_def Let_def)
qed

lemma quarters: "q = (d :: nat) div 4 \<Longrightarrow> e = d - 4 * q + k \<Longrightarrow> q + e div 4 = (d + k) div 4"
proof -
  assume q: "q = d div 4" and e: "e = d - 4 * q + k"
  have "4 * q \<le> d" unfolding q by simp
  with e have "d + k = e + 4 * q" by linarith
  then show ?thesis by simp
qed

lemma glow_twice: "min (min (w - x) (f - x) - y) (f - (x + y)) = min (w - (x + y)) (f - (x + y :: nat))"
  by (auto simp: min_def)

lemma empty_twice: "min (min (e + (x - f)) m + (y - (f - x))) m = min (e + (x + y - f)) (m :: nat)"
proof -
  have "x - f + (y - (f - x)) = x + y - f" by simp
  then have "e + (x - f) + (y - (f - x)) = e + (x + y - f)" by simp
  moreover have "min (min a m + k) m = min (a + k) m" for a k by (cases "a \<le> m") simp_all
  ultimately show ?thesis by (simp only:)
qed

lemma settle_awake:
  assumes "a \<noteq> 0" and "d \<le> u32_max" and "e \<le> u32_max"
  shows "body_settle (a + d) \<lparr>bo_food = f, bo_well = w, bo_empty = e, bo_awake = True, bo_at = a\<rparr>
     = \<lparr>bo_food = f - d, bo_well = min (w - d) (f - d), bo_empty = min (e + (d - f)) u32_max, bo_awake = True, bo_at = a + d\<rparr>"
  using assms by (simp add: settle_fields burnt_def)

lemma settle_asleep:
  assumes "a \<noteq> 0" and "d \<le> u32_max" and "e \<le> u32_max"
  shows "body_settle (a + d) \<lparr>bo_food = f, bo_well = w, bo_empty = e, bo_awake = False, bo_at = a\<rparr>
     = \<lparr>bo_food = f - d div 4, bo_well = min (w - d div 4) (f - d div 4), bo_empty = e, bo_awake = False,
        bo_at = a + d div 4 * 4\<rparr>"
  using assms by (simp add: settle_fields burnt_def)

lemma awake_twice:
  assumes "a \<noteq> 0" and "d + d' \<le> u32_max" and "e \<le> u32_max"
    and "b = \<lparr>bo_food = f, bo_well = w, bo_empty = e, bo_awake = True, bo_at = a\<rparr>"
  shows "body_settle (a + d + d') (body_settle (a + d) b) = body_settle (a + d + d') b"
proof -
  have le: "d \<le> u32_max" "d' \<le> u32_max" "min (e + (d - f)) u32_max \<le> u32_max" "a + d \<noteq> 0" using assms by simp_all
  have "body_settle (a + d + d') (body_settle (a + d) b)
      = \<lparr>bo_food = f - (d + d'), bo_well = min (w - (d + d')) (f - (d + d')), bo_empty = min (e + (d + d' - f)) u32_max,
         bo_awake = True, bo_at = a + d + d'\<rparr>"
    unfolding assms(4) settle_awake [OF assms(1) le(1) assms(3)] settle_awake [OF le(4,2,3)]
      glow_twice empty_twice diff_diff_left ..
  also have "\<dots> = body_settle (a + (d + d')) b"
    unfolding assms(4) settle_awake [OF assms(1-3)] add.assoc ..
  finally show ?thesis by (simp only: add.assoc)
qed

lemma asleep_twice:
  assumes "a \<noteq> 0" and "d + d' \<le> u32_max" and "e \<le> u32_max"
    and "b = \<lparr>bo_food = f, bo_well = w, bo_empty = e, bo_awake = False, bo_at = a\<rparr>"
  shows "body_settle (a + d + d') (body_settle (a + d) b) = body_settle (a + d + d') b"
proof -
  define q where "q = d div 4"
  define k where "k = d - 4 * q + d'"
  have q: "4 * q \<le> d" by (simp add: q_def)
  have qp: "q + k div 4 = (d + d') div 4" by (rule quarters [OF q_def k_def])
  have le: "d \<le> u32_max" "k \<le> u32_max" "a + q * 4 \<noteq> 0" using assms q by (simp_all add: k_def)
  have at: "a + d + d' = a + q * 4 + k" using q by (simp add: k_def)
  have "body_settle (a + d + d') (body_settle (a + d) b)
      = body_settle (a + q * 4 + k)
          \<lparr>bo_food = f - q, bo_well = min (w - q) (f - q), bo_empty = e, bo_awake = False, bo_at = a + q * 4\<rparr>"
    unfolding assms(4) settle_asleep [OF assms(1) le(1) assms(3)] at q_def [symmetric] ..
  also have "\<dots> = \<lparr>bo_food = f - (q + k div 4), bo_well = min (w - (q + k div 4)) (f - (q + k div 4)), bo_empty = e,
      bo_awake = False, bo_at = a + q * 4 + k div 4 * 4\<rparr>"
    unfolding settle_asleep [OF le(3,2) assms(3)] diff_diff_left glow_twice ..
  also have "\<dots> = body_settle (a + (d + d')) b"
    unfolding assms(4) settle_asleep [OF assms(1-3)] qp [symmetric] add_mult_distrib add.assoc ..
  finally show ?thesis by (simp only: add.assoc)
qed

text \<open>C34: It does not matter how often the clock is looked at: a body settled at one time and again later is
  the body settled once, the same food, the same glow, the same time on an empty stomach and the
  same seconds left over, awake and asleep (for a span of less than 136 years).\<close>
theorem bodies_burn_by_the_clock:
  assumes "life b" and "bo_at b \<noteq> 0" and "bo_at b \<le> t" and "t \<le> t'" and "t' - bo_at b \<le> u32_max"
  shows "body_settle t' (body_settle t b) = body_settle t' b"
proof -
  from life_ok [OF assms(1)] have e: "bo_empty b \<le> u32_max" by (simp add: body_ok_def)
  obtain d d' where t: "t = bo_at b + d" "t' = bo_at b + d + d'" using assms(3,4) by (metis le_iff_add)
  with assms(5) have "d + d' \<le> u32_max" by simp
  with assms(2) e awake_twice asleep_twice show ?thesis
    unfolding t by (cases b; cases "bo_awake b") auto
qed

text \<open>An Arrival's first morning.\<close>

definition up :: body where "up = body_wake 1000 body_default"

lemma up_lives: "life up"
  unfolding up_def by (rule Lives_on [OF Arrives Wakes])

lemma up_eq: "up = \<lparr>bo_food = 18000, bo_well = 0, bo_empty = 0, bo_awake = True, bo_at = 1000\<rparr>"
  by code_simp

theorem bodies_burn_by_the_clock_witness: "body_settle 30000 (body_settle 7777 up) = body_settle 30000 up"
  by (rule bodies_burn_by_the_clock [OF up_lives]) (simp_all add: up_eq u32_max_def)

text \<open>Sleep never starves anyone: a sleeping pilot who was not starving is not starving whenever the
  clock is next looked at, and has burnt no more than a quarter of the time in food.\<close>
theorem sleep_never_starves:
  assumes "life b" and "\<not> bo_awake b" and "condition b \<noteq> Starving"
  shows "condition (body_settle now b) \<noteq> Starving \<and> bo_food b \<le> bo_food (body_settle now b) + (now - bo_at b) div 4"
proof -
  from life_ok [OF assms(1)] have ok: "0 < bo_food b \<longrightarrow> bo_empty b = 0" by (simp add: body_ok_def)
  have "bo_empty (body_settle now b) = bo_empty b" using assms(2) by (simp add: body_settle_def Let_def)
  moreover have "bo_empty b < STARVING_AFTER_S"
    using assms(3) ok by (cases "bo_food b = 0") (auto simp: condition_def STARVING_AFTER_S_def HOUR_def split: if_splits)
  ultimately have "condition (body_settle now b) \<noteq> Starving" by (simp add: condition_def)
  moreover have "bo_food b \<le> bo_food (body_settle now b) + (now - bo_at b) div 4"
    using assms(2) min.cobounded1 [of "(now - bo_at b) div 4" u32_max]
    by (auto simp: body_settle_def Let_def SLEEP_DIV_def sat32_def)
  ultimately show ?thesis ..
qed

theorem sleep_never_starves_witness:
  "condition (body_settle 999999 (body_sleep 2000 up)) \<noteq> Starving \<and> condition (body_settle 999999 up) = Starving"
proof -
  have b: "body_sleep 2000 up = \<lparr>bo_food = 17000, bo_well = 0, bo_empty = 0, bo_awake = False, bo_at = 2000\<rparr>"
    by (simp add: body_sleep_def up_eq body_settle_def Let_def sat32_def body_consts)
  have "life (body_sleep 2000 up)" by (rule Lives_on [OF up_lives Sleeps])
  moreover have "\<not> bo_awake (body_sleep 2000 up)" "condition (body_sleep 2000 up) \<noteq> Starving"
    unfolding b by (simp_all add: condition_def)
  ultimately have "condition (body_settle 999999 (body_sleep 2000 up)) \<noteq> Starving" by (rule sleep_never_starves [THEN conjunct1])
  moreover have "condition (body_settle 999999 up) = Starving"
    by (simp add: up_eq body_settle_def condition_def Let_def sat32_def body_consts)
  ultimately show ?thesis ..
qed

text \<open>C35: The conditions come when they should: \<open>dt\<close> seconds on, an awake pilot is well fed while the glow
  lasts, then fed, peckish in the last hour's food, hungry from the second the food is gone, and
  starving three hours of emptiness later.\<close>
theorem conditions_come_in_order:
  assumes "life b" and "bo_awake b" and "bo_at b \<noteq> 0" and "dt \<le> u32_max - STARVING_AFTER_S"
  shows "condition (body_settle (bo_at b + dt) b) =
    (if bo_food b + (STARVING_AFTER_S - bo_empty b) \<le> dt then Starving
     else if bo_food b \<le> dt then Hungry
     else if dt < bo_well b then WellFed
     else if bo_food b \<le> dt + PECKISH_S then Peckish
     else Fed)"
proof -
  from life_ok [OF assms(1)] have ok: "bo_well b \<le> bo_food b" "0 < bo_food b \<longrightarrow> bo_empty b = 0" "bo_empty b \<le> u32_max"
    by (simp_all add: body_ok_def)
  have dt: "dt \<le> u32_max" "STARVING_AFTER_S \<le> u32_max" using assms(4) by (simp_all add: STARVING_AFTER_S_def HOUR_def u32_max_def)
  have s: "body_settle (bo_at b + dt) b = \<lparr>bo_food = bo_food b - dt, bo_well = min (bo_well b - dt) (bo_food b - dt),
     bo_empty = min (bo_empty b + (dt - bo_food b)) u32_max, bo_awake = True, bo_at = bo_at b + dt\<rparr>"
    using settle_fields [of b "bo_at b + dt"] assms(2,3) dt(1) ok(3) by (simp add: burnt_def)
  show ?thesis
  proof (cases "bo_food b \<le> dt")
    case True
    have "STARVING_AFTER_S \<le> min (bo_empty b + (dt - bo_food b)) u32_max
        \<longleftrightarrow> bo_food b + (STARVING_AFTER_S - bo_empty b) \<le> dt"
      using True dt(2) ok(2) by (cases "bo_food b = 0") auto
    moreover have "condition (body_settle (bo_at b + dt) b)
        = (if STARVING_AFTER_S \<le> min (bo_empty b + (dt - bo_food b)) u32_max then Starving else Hungry)"
      using True by (simp add: s condition_def)
    ultimately show ?thesis using True by (simp only: if_True)
  next
    case False
    with ok(1) show ?thesis by (auto simp: s condition_def min_def)
  qed
qed

theorem conditions_come_in_order_witness:
  "condition (body_settle 15399 up) = Fed \<and> condition (body_settle 18999 up) = Peckish
   \<and> condition (body_settle 19000 up) = Hungry \<and> condition (body_settle 29800 up) = Starving"
proof -
  have a: "bo_awake up" "bo_at up \<noteq> 0" by (simp_all add: up_eq)
  note c = conditions_come_in_order [OF up_lives a]
  show ?thesis
    using c [of 14399] c [of 14400] c [of 17999] c [of 18000] c [of 28800]
    by (simp add: up_eq STARVING_AFTER_S_def PECKISH_S_def HOUR_def u32_max_def)
qed

section \<open>The counter\<close>

text \<open>A meal at the counter is paid for exactly when it is eaten: the price leaves the hangar with the
  meal and its food arrives, or nothing is paid, no food is gained, and either the credits were short
  or more than half the dish would not have fit. The staff's meals never make a pilot well fed.\<close>
theorem paid_when_eaten:
  assumes "life b" and "eat_at_counter d now b h = (r, b', h')"
  shows "case r of
      Inr _ \<Rightarrow> credits h = credits h' + dish_price d \<and> h' = h\<lparr>credits := credits h - dish_price d\<rparr>
        \<and> bo_food b' = min (bo_food (body_settle now b) + dish_food d) FULL_S \<and> bo_empty b' = 0
        \<and> bo_food (body_settle now b) < bo_food b' \<and> bo_well b' = bo_well (body_settle now b)
    | Inl _ \<Rightarrow> h' = h \<and> (credits h < dish_price d \<and> b' = b
        \<or> FULL_S < bo_food (body_settle now b) + dish_food d div 2 \<and> b' = body_settle now b)"
proof -
  let ?s = "body_settle now b"
  from settle_ok [OF life_ok [OF assms(1)]] have ok: "bo_food ?s \<le> FULL_S" "bo_well ?s \<le> bo_food ?s"
    by (simp_all add: body_ok_def)
  have g: "glow (staff_meal d) = 0" by (simp add: glow_def staff_meal_def STAFF_QUALITY_def GOOD_QUALITY_def)
  have f: "me_dish (staff_meal d) = d" by (simp add: staff_meal_def)
  have "0 < dish_food d div 2" by (cases d) (simp_all add: HOUR_def)
  then have more: "bo_food ?s < min (bo_food ?s + dish_food d) FULL_S" if "\<not> FULL_S < bo_food ?s + dish_food d div 2"
    using that by simp
  show ?thesis
  proof (cases "credits h < dish_price d")
    case True
    with assms(2) show ?thesis by (auto simp: eat_at_counter_def)
  next
    case False
    show ?thesis
    proof (cases "FULL_S < bo_food ?s + dish_food d div 2")
      case True
      then have "eat (staff_meal d) now b = (Inl CouldntEat, ?s)" by (simp add: eat_def f)
      with True False assms(2) show ?thesis by (auto simp: eat_at_counter_def)
    next
      case fits: False
      let ?f = "min (bo_food ?s + dish_food d) FULL_S"
      let ?b = "?s\<lparr>bo_food := ?f, bo_empty := 0, bo_well := min (bo_well ?s) ?f\<rparr>"
      have "eat (staff_meal d) now b = (Inr (Ate d (condition ?b)), ?b)"
        using fits by (simp add: eat_def f g Let_def)
      with False have "eat_at_counter d now b h
          = (Inr (AtePaid d (dish_price d) (condition ?b)), ?b, h\<lparr>credits := credits h - dish_price d\<rparr>)"
        by (simp add: eat_at_counter_def Let_def)
      then have e: "(r, b', h')
          = (Inr (AtePaid d (dish_price d) (condition ?b)), ?b, h\<lparr>credits := credits h - dish_price d\<rparr>)"
        by (simp only: assms(2) [symmetric])
      from e have r: "r = Inr (AtePaid d (dish_price d) (condition ?b))" by (simp only: prod.inject)
      from e have b: "b' = ?b" and h: "h' = h\<lparr>credits := credits h - dish_price d\<rparr>" by (simp_all only: prod.inject)
      have "min (bo_well ?s) ?f = bo_well ?s" using ok more [OF fits] by simp
      then show ?thesis unfolding r b h using False more [OF fits] by simp
    qed
  qed
qed

lemma arrival_supper:
  "eat_at_counter FishSupper 20000 up (hangar_empty\<lparr>credits := 2000\<rparr>)
     = (Inr (AtePaid FishSupper 40 Fed), \<lparr>bo_food = 21600, bo_well = 0, bo_empty = 0, bo_awake = True, bo_at = 20000\<rparr>,
        hangar_empty\<lparr>credits := 1960\<rparr>)"
proof -
  have "eat (staff_meal FishSupper) 20000 up
      = (Inr (Ate FishSupper Fed), \<lparr>bo_food = 21600, bo_well = 0, bo_empty = 0, bo_awake = True, bo_at = 20000\<rparr>)"
    by (simp add: eat_def up_eq body_settle_def condition_def Let_def sat32_def body_consts staff_meal_def glow_def
        STAFF_QUALITY_def GOOD_QUALITY_def)
  then show ?thesis by (simp add: eat_at_counter_def condition_def PECKISH_S_def HOUR_def)
qed

theorem paid_when_eaten_witness: "credits (hangar_empty\<lparr>credits := 2000\<rparr>) = credits (hangar_empty\<lparr>credits := 1960\<rparr>) + dish_price FishSupper"
  using paid_when_eaten [OF up_lives arrival_supper] by simp

end
