(* ===== verification/Proving.thy ===== *)
theory Proving
  imports Gantry
begin

text \<open>
  The Proving Ground (\<open>crates/bc-econ/src/proving.rs\<close>): what boards at the Blast Hall's gantry, the board of the
  day's best times and the records, and a pilot's own bests. The lemmas show what a day's list is, over any
  history of a day's flights: the ten best of the pilots' bests. Names, the clock's text and ordinals are left out.
\<close>

section \<open>Trainers\<close>

datatype trainer = OnBoards | OnBay | OnLine frame_id

datatype no_trainer = SuitOutThere | NoSuitInTheBay | ColonyDoesntBuild

definition loadout_full :: "frame_id \<Rightarrow> loadout" where
  "loadout_full line =
     \<lparr>lo_parts = replicate 6 1, lo_mounts = 7, lo_ammo = loadout_full_ammo line,
      lo_propellant = of_nat (propellant_cap line), lo_grade = Standard, lo_systems = 0, lo_modules = 0, lo_kits = 0\<rparr>"

text \<open>The bay's suit as built: its parts whole, no faults, tank and loads full, the rack empty.\<close>

definition as_built :: "suit \<Rightarrow> suit" where
  "as_built s =
     (let s1 = s\<lparr>su_parts := map (map_option (\<lambda>_. 100)) (su_parts s), su_faults := 0\<rparr>;
          s2 = s1\<lparr>su_propellant := tank s1\<rparr>
      in s2\<lparr>su_ammo := map (full_load s2) [0..<3], su_kits := replicate 4 0\<rparr>)"

definition trainer_loadout :: "trainer \<Rightarrow> hangar \<Rightarrow> no_trainer + frame_id \<times> loadout" where
  "trainer_loadout tr h =
     (case tr of
        OnBoards \<Rightarrow> Inr (Argo, loadout_full Argo)
      | OnBay \<Rightarrow>
          (case hbay h of
             Docked s \<Rightarrow> Inr (su_line s, loadout_of (as_built s))
           | Out _ \<Rightarrow> Inl SuitOutThere
           | Empty \<Rightarrow> Inl NoSuitInTheBay)
      | OnLine line \<Rightarrow>
          if is_line line then Inr (line, loadout_of (suit_complete line)) else Inl ColonyDoesntBuild)"

section \<open>The board\<close>

definition KEPT :: nat where "KEPT = 10"
definition DAY :: nat where "DAY = 86400"

datatype feat = Course | Drill

record entry =
  en_who :: trader
  en_name :: string
  en_ms :: nat
  en_unix :: nat

record times_board =
  tb_day :: nat
  tb_course :: "entry list"
  tb_drill :: "entry list"
  tb_course_record :: "entry option"
  tb_drill_record :: "entry option"

definition times_new :: times_board where
  "times_new = \<lparr>tb_day = 0, tb_course = [], tb_drill = [], tb_course_record = None, tb_drill_record = None\<rparr>"

fun day_list :: "feat \<Rightarrow> times_board \<Rightarrow> entry list" where
  "day_list Course b = tb_course b"
| "day_list Drill b = tb_drill b"

fun put_list :: "feat \<Rightarrow> entry list \<Rightarrow> times_board \<Rightarrow> times_board" where
  "put_list Course l b = b\<lparr>tb_course := l\<rparr>"
| "put_list Drill l b = b\<lparr>tb_drill := l\<rparr>"

fun best_ever :: "feat \<Rightarrow> times_board \<Rightarrow> entry option" where
  "best_ever Course b = tb_course_record b"
| "best_ever Drill b = tb_drill_record b"

fun put_best :: "feat \<Rightarrow> entry \<Rightarrow> times_board \<Rightarrow> times_board" where
  "put_best Course e b = b\<lparr>tb_course_record := Some e\<rparr>"
| "put_best Drill e b = b\<lparr>tb_drill_record := Some e\<rparr>"

definition turn_day :: "nat \<Rightarrow> times_board \<Rightarrow> bool \<times> times_board" where
  "turn_day now b =
     (let day = now div DAY
      in if day = tb_day b then (False, b) else (True, b\<lparr>tb_day := day, tb_course := [], tb_drill := []\<rparr>))"

text \<open>A time put on a day's list, if it is the pilot's best of the day (the list is sorted, so
  \<open>partition_point\<close> is the place of the first slower one).\<close>

definition listed :: "entry \<Rightarrow> entry list \<Rightarrow> bool \<times> entry list" where
  "listed en l =
     (let theirs = position (\<lambda>e. en_who e = en_who en) l;
          improved = (case theirs of None \<Rightarrow> True | Some k \<Rightarrow> en_ms en < en_ms (l ! k));
          others = (case theirs of None \<Rightarrow> l | Some k \<Rightarrow> remove_at k l)
      in if improved then (True, take KEPT (insert_by en_ms en others)) else (False, l))"

record placed_time =
  pt_rank :: "nat option"
  pt_improved :: bool
  pt_record :: bool

definition record_time :: "feat \<Rightarrow> trader \<Rightarrow> string \<Rightarrow> nat \<Rightarrow> nat \<Rightarrow> times_board \<Rightarrow> placed_time \<times> times_board" where
  "record_time f who name ms now b0 =
     (let b = snd (turn_day now b0);
          en = \<lparr>en_who = who, en_name = name, en_ms = ms, en_unix = now\<rparr>;
          (improved, l) = listed en (day_list f b);
          rank = map_option Suc (position (\<lambda>e. en_who e = who) l);
          record_broken = (case best_ever f b of None \<Rightarrow> True | Some e \<Rightarrow> ms < en_ms e);
          b1 = put_list f l b
      in (\<lparr>pt_rank = rank, pt_improved = improved, pt_record = record_broken\<rparr>,
          if record_broken then put_best f en b1 else b1))"

record time_row =
  tr_name :: string
  tr_ms :: nat
  tr_you :: bool

record pilot_bests =
  be_course :: "nat option"
  be_drill :: "nat option"

record times_view =
  tv_course :: "time_row list"
  tv_drill :: "time_row list"
  tv_course_record :: "time_row option"
  tv_drill_record :: "time_row option"
  tv_course_par_ms :: nat
  tv_drill_par_ms :: nat
  tv_mine :: pilot_bests
  tv_trainer :: trainer

definition row_of :: "trader \<Rightarrow> entry \<Rightarrow> time_row" where
  "row_of who e = \<lparr>tr_name = en_name e, tr_ms = en_ms e, tr_you = (en_who e = who)\<rparr>"

definition rows_of :: "trader \<Rightarrow> nat \<Rightarrow> feat \<Rightarrow> times_board \<Rightarrow> time_row list" where
  "rows_of who now f b = (if now div DAY = tb_day b then map (row_of who) (day_list f b) else [])"

definition times_seen :: "trader \<Rightarrow> nat \<Rightarrow> times_board \<Rightarrow> times_view" where
  "times_seen who now b =
     \<lparr>tv_course = rows_of who now Course b, tv_drill = rows_of who now Drill b,
      tv_course_record = map_option (row_of who) (tb_course_record b),
      tv_drill_record = map_option (row_of who) (tb_drill_record b),
      tv_course_par_ms = 120000, tv_drill_par_ms = 25000,
      tv_mine = \<lparr>be_course = None, be_drill = None\<rparr>, tv_trainer = OnBoards\<rparr>"

fun bests_get :: "feat \<Rightarrow> pilot_bests \<Rightarrow> nat option" where
  "bests_get Course b = be_course b"
| "bests_get Drill b = be_drill b"

definition bests_any :: "pilot_bests \<Rightarrow> bool" where
  "bests_any b \<longleftrightarrow> be_course b \<noteq> None \<or> be_drill b \<noteq> None"

definition bests_better :: "feat \<Rightarrow> nat \<Rightarrow> pilot_bests \<Rightarrow> bool \<times> pilot_bests" where
  "bests_better f ms b =
     (let better_yet = (case bests_get f b of None \<Rightarrow> True | Some x \<Rightarrow> ms < x)
      in (better_yet,
          if better_yet then (case f of Course \<Rightarrow> b\<lparr>be_course := Some ms\<rparr> | Drill \<Rightarrow> b\<lparr>be_drill := Some ms\<rparr>) else b))"

section \<open>A day's list\<close>

text \<open>\<open>l\<close> is the list of a day on which the times \<open>T\<close> were flown.\<close>

definition best_of_day :: "entry list \<Rightarrow> entry set \<Rightarrow> bool" where
  "best_of_day l T \<longleftrightarrow> sorted (map en_ms l) \<and> distinct (map en_who l) \<and> length l \<le> KEPT \<and> set l \<subseteq> T
     \<and> (\<forall>f\<in>T. (\<forall>e\<in>set l. en_who e = en_who f \<longrightarrow> en_ms e \<le> en_ms f)
          \<and> (en_who f \<notin> en_who ` set l \<longrightarrow> length l = KEPT \<and> (\<forall>e\<in>set l. en_ms e \<le> en_ms f)))"

lemma best_of_dayD:
  assumes "best_of_day l T" "f \<in> T"
  shows "e \<in> set l \<Longrightarrow> en_who e = en_who f \<Longrightarrow> en_ms e \<le> en_ms f"
    and "en_who f \<notin> en_who ` set l \<Longrightarrow> length l = KEPT"
    and "en_who f \<notin> en_who ` set l \<Longrightarrow> e \<in> set l \<Longrightarrow> en_ms e \<le> en_ms f"
  using assms by (auto simp: best_of_day_def)

lemma best_of_day_none: "best_of_day [] {}"
  by (simp add: best_of_day_def)

lemma same_who: "distinct (map en_who l) \<Longrightarrow> e \<in> set l \<Longrightarrow> e' \<in> set l \<Longrightarrow> en_who e = en_who e' \<Longrightarrow> e = e'"
  by (simp add: distinct_map inj_on_def)

text \<open>The list with a time in it, and what is left of it: all of it, or all but a slowest one.\<close>

lemma distinct_insert_at: "distinct (insert_at i x xs) \<longleftrightarrow> x \<notin> set xs \<and> distinct xs"
proof -
  have "distinct (take i xs @ drop i xs) \<longleftrightarrow> distinct xs" "set xs = set (take i xs) \<union> set (drop i xs)"
    by (simp_all flip: set_append)
  then show ?thesis unfolding insert_at_def distinct_append by auto
qed

lemma map_insert_by: "map g (insert_by key a xs) = insert_at (case position (\<lambda>u. key a < key u) xs of Some i \<Rightarrow> i | None \<Rightarrow> length xs) (g a) (map g xs)"
  by (simp add: insert_by_def insert_at_def take_map drop_map)

lemma kept:
  assumes "sorted (map en_ms m)" "distinct (map en_who m)" "length m \<le> KEPT" "en_who x \<notin> en_who ` set m"
  defines "k \<equiv> take KEPT (insert_by en_ms x m)"
  shows "sorted (map en_ms k) \<and> distinct (map en_who k) \<and> length k \<le> KEPT \<and> set k \<subseteq> insert x (set m)
     \<and> (set k = insert x (set m) \<and> length k = Suc (length m)
        \<or> length k = KEPT \<and> length m = KEPT
          \<and> (\<exists>z. insert x (set m) = insert z (set k) \<and> z \<notin> set k \<and> (\<forall>e\<in>set k. en_ms e \<le> en_ms z)))"
proof -
  let ?i = "insert_by en_ms x m"
  have s: "sorted (map en_ms ?i)" using assms(1) by (rule sorted_insert_by)
  have d: "distinct (map en_who ?i)" using assms(2,4) by (simp add: map_insert_by distinct_insert_at)
  have split: "?i = k @ drop KEPT ?i" by (simp add: k_def)
  have 1: "sorted (map en_ms k)" "distinct (map en_who k)" "length k \<le> KEPT" "set k \<subseteq> insert x (set m)"
    using s d set_take_subset [of KEPT ?i] by (auto simp: k_def take_map sorted_wrt_take simp flip: take_map)
  show ?thesis
  proof (cases "length m = KEPT")
    case False
    then have "length ?i \<le> KEPT" using assms(3) by simp
    then have "k = ?i" by (simp add: k_def)
    with 1 show ?thesis by simp
  next
    case True
    then have l: "length (drop KEPT ?i) = 1" by simp
    then obtain z where z: "drop KEPT ?i = [z]" by (metis One_nat_def length_0_conv length_Suc_conv)
    with split have i: "?i = k @ [z]" by simp
    then have "insert x (set m) = insert z (set k)" by (metis Un_insert_right append_Nil2 list.simps(15) set_append set_insert_by sup_bot_right)
    moreover have "z \<notin> set k" using d unfolding i by auto
    moreover have "\<forall>e\<in>set k. en_ms e \<le> en_ms z" using s unfolding i by (auto simp: sorted_append)
    moreover have "length k = KEPT" using True by (simp add: k_def)
    ultimately show ?thesis using 1 True by blast
  qed
qed

lemma listed_cases:
  assumes "listed x l = (b, l')" "distinct (map en_who l)"
  obtains e where "e \<in> set l" "en_who e = en_who x" "en_ms e \<le> en_ms x" "l' = l" "\<not> b"
  | k where "k < length l" "en_who (l ! k) = en_who x" "en_ms x < en_ms (l ! k)" "b"
      "l' = take KEPT (insert_by en_ms x (remove_at k l))"
  | "en_who x \<notin> en_who ` set l" "l' = take KEPT (insert_by en_ms x l)" b
proof (cases "position (\<lambda>e. en_who e = en_who x) l")
  case None
  then have "en_who x \<notin> en_who ` set l" by (force simp: position_None)
  with assms(1) None that(3) show ?thesis by (auto simp: listed_def Let_def)
next
  case (Some k)
  then have k: "k < length l" "en_who (l ! k) = en_who x" by (auto dest: position_Some)
  show ?thesis
  proof (cases "en_ms x < en_ms (l ! k)")
    case True
    with assms(1) k Some have "b" "l' = take KEPT (insert_by en_ms x (remove_at k l))" by (simp_all add: listed_def)
    with that(2) k True show ?thesis by blast
  next
    case False
    with assms(1) k Some have "\<not> b" "l' = l" by (simp_all add: listed_def)
    with that(1) [OF nth_mem [OF k(1)] k(2)] False show ?thesis by simp
  qed
qed

text \<open>A better time than the pilot's own on the list takes its place.\<close>

lemma best_of_day_better:
  assumes l: "best_of_day l T" and k: "k < length l" "en_who (l ! k) = en_who x" "en_ms x < en_ms (l ! k)"
  shows "best_of_day (take KEPT (insert_by en_ms x (remove_at k l))) (insert x T)"
proof -
  let ?m = "remove_at k l" and ?k = "take KEPT (insert_by en_ms x (remove_at k l))"
  have d: "distinct (map en_who l)" and s: "sorted (map en_ms l)" and n: "length l \<le> KEPT" and T: "set l \<subseteq> T"
    using l by (auto simp: best_of_day_def)
  have m: "en_who x \<notin> en_who ` set ?m"
    using nth_notin_remove_at [OF d, of k] k by (simp flip: map_remove_at set_map)
  have len: "Suc (length ?m) = length l" using k(1) length_remove_at [OF k(1)] by simp
  have whole: "set l = insert (l ! k) (set ?m)"
    using id_take_nth_drop [OF k(1)] by (metis Un_insert_right list.simps(15) remove_at_def set_append)
  have "distinct (map en_who ?m)" using distinct_remove_at [OF d] by (simp add: map_remove_at)
  with len n have k': "sorted (map en_ms ?k)" "distinct (map en_who ?k)" "length ?k = length l" "set ?k = insert x (set ?m)"
    using kept [OF sorted_map_remove_at [OF s], of k x] m by auto
  have mm: "e \<in> set l \<and> en_who e \<noteq> en_who x" if "e \<in> set ?m" for e
    using that whole m by (metis imageI insertCI)
  have old: "en_ms x \<le> en_ms f" if "f \<in> T" "en_who f = en_who x" for f
    using best_of_dayD(1) [OF l that(1) nth_mem [OF k(1)]] k that(2) by simp
  have own: "en_ms e \<le> en_ms f" if f: "f \<in> insert x T" and e: "e \<in> set ?k" and w: "en_who e = en_who f" for e f
  proof (cases "e = x")
    case True
    with f w old show ?thesis by auto
  next
    case False
    with e k'(4) have "e \<in> set ?m" by simp
    with mm [OF this] f w show ?thesis using best_of_dayD(1) [OF l, of f e] by auto
  qed
  have who: "en_who ` set ?k = en_who ` set l"
    unfolding k'(4) whole using k(2) by simp
  have out: "length ?k = KEPT" "e \<in> set ?k \<Longrightarrow> en_ms e \<le> en_ms f"
    if f: "f \<in> insert x T" and w: "en_who f \<notin> en_who ` set ?k" for e f
  proof -
    have "f \<noteq> x" using w k'(4) by auto
    with f w who have f': "f \<in> T" "en_who f \<notin> en_who ` set l" by auto
    show "length ?k = KEPT" using best_of_dayD(2) [OF l f'] k'(3) by simp
    have x: "en_ms x \<le> en_ms f" using best_of_dayD(3) [OF l f' nth_mem [OF k(1)]] k(3) by simp
    show "en_ms e \<le> en_ms f" if "e \<in> set ?k"
      using that k'(4) x mm best_of_dayD(3) [OF l f'] by auto
  qed
  have "set ?k \<subseteq> insert x T" "length ?k \<le> KEPT" using k'(3,4) T n mm by auto
  with k'(1,2) own out show ?thesis unfolding best_of_day_def by blast
qed

text \<open>A pilot's first time on the list is put in its place, and the slowest of eleven goes.\<close>

lemma best_of_day_first:
  assumes l: "best_of_day l T" and x: "en_who x \<notin> en_who ` set l"
  shows "best_of_day (take KEPT (insert_by en_ms x l)) (insert x T)"
proof -
  let ?k = "take KEPT (insert_by en_ms x l)"
  have d: "distinct (map en_who l)" "sorted (map en_ms l)" "length l \<le> KEPT" "set l \<subseteq> T"
    using l by (auto simp: best_of_day_def)
  note K = kept [OF d(2,1,3) x]
  then have k: "sorted (map en_ms ?k)" "distinct (map en_who ?k)" "length ?k \<le> KEPT" "set ?k \<subseteq> insert x T"
    using d(4) by blast+
  from K consider "set ?k = insert x (set l)" "length ?k = Suc (length l)"
    | z where "length ?k = KEPT" "length l = KEPT" "insert x (set l) = insert z (set ?k)" "z \<notin> set ?k"
        "\<forall>e\<in>set ?k. en_ms e \<le> en_ms z"
    by blast
  then show ?thesis
  proof cases
    case 1
    with k(3) have "length l \<noteq> KEPT" by simp
    then have here: "en_who f \<in> en_who ` set l" if "f \<in> T" for f using best_of_dayD(2) [OF l that] by blast
    have "en_ms e \<le> en_ms f" if "f \<in> insert x T" "e \<in> set ?k" "en_who e = en_who f" for e f
      using that 1(1) best_of_dayD(1) [OF l, of f e] here [of f] x imageI [of e "set l" en_who]
      by (cases "e = x"; cases "f = x") auto
    moreover have "en_who f \<in> en_who ` set ?k" if "f \<in> insert x T" for f
      using that here 1(1) by auto
    ultimately show ?thesis using k unfolding best_of_day_def by blast
  next
    case (2 z)
    have kl: "e = x \<or> e \<in> set l" if "e \<in> set ?k" for e using that 2(3) by blast
    have zl: "z = x \<or> z \<in> set l" using 2(3) by blast
    have slow: "en_ms e \<le> en_ms f" if f: "f \<in> T" "en_who f \<notin> en_who ` set l" and e: "e \<in> set ?k" for e f
      using kl [OF e] zl 2(4,5) e best_of_dayD(3) [OF l f] by (metis order.trans)
    have own: "en_ms e \<le> en_ms f" if f: "f \<in> insert x T" and e: "e \<in> set ?k" and w: "en_who e = en_who f" for e f
    proof (cases "f \<in> T \<and> en_who f \<notin> en_who ` set l")
      case True
      with slow e show ?thesis by blast
    next
      case False
      show ?thesis
      proof (cases "f = x")
        case True
        with kl [OF e] w x show ?thesis by (metis imageI order.refl)
      next
        case n: False
        with False f have "f \<in> T" "en_who f \<in> en_who ` set l" by auto
        with kl [OF e] w x best_of_dayD(1) [OF l, of f e] show ?thesis by auto
      qed
    qed
    have out: "en_ms e \<le> en_ms f" if f: "f \<in> insert x T" and w: "en_who f \<notin> en_who ` set ?k" and e: "e \<in> set ?k" for e f
    proof (cases "f \<in> T \<and> en_who f \<notin> en_who ` set l")
      case True
      with slow e show ?thesis by blast
    next
      case False
      obtain g where g: "g \<in> insert x (set l)" "en_who g = en_who f" "en_ms g \<le> en_ms f"
      proof (cases "f = x")
        case n: False
        with False f obtain h where h: "f \<in> T" "h \<in> set l" "en_who h = en_who f" by auto
        with best_of_dayD(1) [OF l h] h show ?thesis by (intro that [of h]) simp_all
      qed (use that [of x] in simp)
      with w 2(3) have "g = z" by (metis imageI insertE)
      with g(3) 2(5) e show ?thesis by (meson order.trans)
    qed
    from k own out 2(1) show ?thesis unfolding best_of_day_def by blast
  qed
qed

lemma best_of_day_same:
  assumes l: "best_of_day l T" and e: "e \<in> set l" "en_who e = en_who x" "en_ms e \<le> en_ms x"
  shows "best_of_day l (insert x T)"
proof -
  have "distinct (map en_who l)" using l by (simp add: best_of_day_def)
  then have "en_ms g \<le> en_ms x" if "g \<in> set l" "en_who g = en_who x" for g
    using same_who [of l g e] that e by simp
  with l e(1,2) show ?thesis unfolding best_of_day_def by (metis (no_types, lifting) imageI insert_iff subset_insertI2)
qed

lemma listed_best:
  assumes "best_of_day l T" shows "best_of_day (snd (listed x l)) (insert x T)"
proof -
  have "distinct (map en_who l)" using assms by (simp add: best_of_day_def)
  obtain b l' where L: "listed x l = (b, l')" by force
  from L \<open>distinct (map en_who l)\<close> have "best_of_day l' (insert x T)"
    by (cases rule: listed_cases) (use assms best_of_day_same best_of_day_better best_of_day_first in auto)
  with L show ?thesis by simp
qed

section \<open>A day's flights\<close>

text \<open>The board after a day's flights, each of a feat, in the order they were flown.\<close>

definition fly :: "feat \<times> entry \<Rightarrow> times_board \<Rightarrow> times_board" where
  "fly x b = (case x of (f, en) \<Rightarrow> snd (record_time f (en_who en) (en_name en) (en_ms en) (en_unix en) b))"

definition flown :: "feat \<Rightarrow> (feat \<times> entry) list \<Rightarrow> entry set" where
  "flown f fs = {en. (f, en) \<in> set fs}"

lemma lists_and_records [simp]:
  "day_list g (put_list f l b) = (if g = f then l else day_list g b)" "day_list g (put_best f e b) = day_list g b"
  "best_ever g (put_list f l b) = best_ever g b" "best_ever g (put_best f e b) = (if g = f then Some e else best_ever g b)"
  "tb_day (put_list f l b) = tb_day b" "tb_day (put_best f e b) = tb_day b"
  by (cases f; cases g; simp)+

lemma turned:
  "tb_day (snd (turn_day now b)) = now div DAY" "best_ever f (snd (turn_day now b)) = best_ever f b"
  "day_list f (snd (turn_day now b)) = (if now div DAY = tb_day b then day_list f b else [])"
  by (cases f; simp add: turn_day_def Let_def)+

lemma fly_lists:
  "tb_day (fly (f, en) b) = en_unix en div DAY"
  "day_list g (fly (f, en) b) =
     (let l = (if en_unix en div DAY = tb_day b then day_list g b else []) in if g = f then snd (listed en l) else l)"
  "best_ever g (fly (f, en) b) =
     (if g = f \<and> (\<forall>e. best_ever f b = Some e \<longrightarrow> en_ms en < en_ms e) then Some en else best_ever g b)"
  by (cases en; auto simp: fly_def record_time_def turned Let_def split: prod.split option.split)+

text \<open>C37: A day's list is the ten best of the pilots' bests: after any flights of one day, the list of each feat is
  fastest first, each pilot on it once, at most ten, each with their own best of the day; and who flew
  and is not on it has ten others on it, each at least as fast as they ever were that day. The record
  is no slower than any of them.\<close>
theorem days_list_is_the_ten_best:
  assumes "\<forall>(f, en)\<in>set fs. en_unix en div DAY = day" and "tb_day b \<noteq> day" and "fs \<noteq> []"
  defines "b' \<equiv> fold fly fs b"
  shows "sorted (map en_ms (day_list g b')) \<and> distinct (map en_who (day_list g b')) \<and> length (day_list g b') \<le> 10
     \<and> set (day_list g b') \<subseteq> flown g fs
     \<and> (\<forall>en\<in>flown g fs.
          (\<forall>e\<in>set (day_list g b'). en_who e = en_who en \<longrightarrow> en_ms e \<le> en_ms en)
          \<and> (en_who en \<notin> en_who ` set (day_list g b') \<longrightarrow>
               length (day_list g b') = 10 \<and> (\<forall>e\<in>set (day_list g b'). en_ms e \<le> en_ms en))
          \<and> (\<exists>r. best_ever g b' = Some r \<and> en_ms r \<le> en_ms en))"
proof -
  have "best_of_day (day_list g (fold fly fs b)) (flown g fs) \<and> tb_day (fold fly fs b) = day
      \<and> (\<forall>en\<in>flown g fs. \<exists>r. best_ever g (fold fly fs b) = Some r \<and> en_ms r \<le> en_ms en)"
    using assms(1,3)
  proof (induction fs rule: rev_induct)
    case (snoc x fs)
    obtain f en where x: "x = (f, en)" by force
    let ?b = "fold fly fs b"
    have day: "en_unix en div DAY = day" using snoc.prems(1) x by auto
    have T: "flown g (fs @ [x]) = (if g = f then insert en (flown g fs) else flown g fs)"
      by (auto simp: flown_def x)
    have L: "day_list g (fly x ?b) =
        (let l = (if day = tb_day ?b then day_list g ?b else []) in if g = f then snd (listed en l) else l)"
      by (simp add: x fly_lists day)
    have old: "best_of_day (if day = tb_day ?b then day_list g ?b else []) (flown g fs)
        \<and> (\<forall>e\<in>flown g fs. \<exists>r. best_ever g ?b = Some r \<and> en_ms r \<le> en_ms e)"
    proof (cases "fs = []")
      case True
      with assms(2) show ?thesis by (auto simp: flown_def best_of_day_none)
    next
      case False
      with snoc.IH snoc.prems(1) show ?thesis by auto
    qed
    have "\<exists>r. best_ever g (fly x ?b) = Some r \<and> en_ms r \<le> en_ms e" if e: "e \<in> flown g (fs @ [x])" for e
    proof (cases "g = f \<and> (\<forall>r. best_ever f ?b = Some r \<longrightarrow> en_ms en < en_ms r)")
      case True
      then have "best_ever g (fly x ?b) = Some en" by (simp add: x fly_lists)
      with True e T old show ?thesis by fastforce
    next
      case False
      then have "best_ever g (fly x ?b) = best_ever g ?b" by (auto simp: x fly_lists)
      with False e T old show ?thesis by (auto simp: not_less split: if_splits)
    qed
    moreover have "best_of_day (day_list g (fly x ?b)) (flown g (fs @ [x]))"
      using old listed_best [OF conjunct1 [OF old], of en] unfolding T L Let_def
      by (cases "g = f") (simp_all only: if_True if_False refl)
    moreover have "tb_day (fly x ?b) = day" by (simp add: x fly_lists day)
    ultimately show ?case by simp
  qed simp
  then show ?thesis by (auto simp: best_of_day_def b'_def KEPT_def)
qed

text \<open>Kai flies the course twice, the second time faster.\<close>

theorem days_list_is_the_ten_best_witness:
  "let k1 = \<lparr>en_who = ''a'', en_name = ''Kai'', en_ms = 130000, en_unix = 86400\<rparr>;
       k2 = \<lparr>en_who = ''a'', en_name = ''Kai'', en_ms = 118000, en_unix = 86401\<rparr>;
       b = fold fly [(Course, k1), (Course, k2)] times_new
   in day_list Course b = [k2] \<and> set (day_list Course b) \<subseteq> flown Course [(Course, k1), (Course, k2)]"
proof -
  let ?k1 = "\<lparr>en_who = ''a'', en_name = ''Kai'', en_ms = 130000, en_unix = 86400\<rparr>"
  let ?k2 = "\<lparr>en_who = ''a'', en_name = ''Kai'', en_ms = 118000, en_unix = 86401\<rparr>"
  let ?b = "fold fly [(Course, ?k1), (Course, ?k2)] times_new"
  have "day_list Course ?b = [?k2]"
    by (simp add: fly_lists times_new_def DAY_def listed_def KEPT_def insert_by_def insert_at_def)
  moreover have "set (day_list Course ?b) \<subseteq> flown Course [(Course, ?k1), (Course, ?k2)]"
    using days_list_is_the_ten_best [of "[(Course, ?k1), (Course, ?k2)]" 1 times_new Course]
    by (simp add: DAY_def times_new_def)
  ultimately show ?thesis by (simp add: Let_def)
qed

end
