(* ===== verification/Requests.thy ===== *)
theory Requests
  imports Colony Register Body Proving
begin

text \<open>
  The hangar's messages (\<open>crates/bc-econ/src/wire.rs\<close>): what a pilot asks for, where it is done (a desk, a
  home's door or panel), and the three functions that do it, \<open>apply\<close> on the hangar and the exchange,
  \<open>apply_homes\<close> on the register, \<open>apply_charter\<close> on the Board; and the colony's radio, a line of which is
  a list of code points. The lemmas show that every request is somebody's and nobody's twice, and that
  a line as sent is clean. The addresses that start a home's answers are left out.
\<close>

section \<open>Requests\<close>

type_synonym radio_text = "nat list"

datatype (plugins only: code size) request =
    RqCraft item nat | RqCancelJob station nat | RqFit item | RqStrip slot | RqDismantle | RqRepair "part option"
  | RqOverhaul "part option" | RqScrap item | RqFuel grade
  | RqOrder item side nat nat bool | RqCancelOrder nat | RqWatch "item option"
  | RqLaunch | RqLaunchInside | RqDock | RqEnterCity nat | RqLeaveCity | RqEnterBase | RqLeaveBase | RqBoardTrainer
  | RqTrainer trainer | RqAceTerms bool | RqEat dish
  | RqPost item nat nat nat | RqWithdraw nat | RqDeliver nat nat | RqTakePatrol nat | RqDropPatrol nat
  | RqContribute work item nat | RqSign | RqWatchBoard bool
  | RqUseKit kit | RqEject bool | RqSay radio_text
  | RqRent home_id nat | RqBuy home_id | RqGiveUp home_id | RqEnterCode home_id nat | RqDoor home_id bool | RqKnock home_id
  | RqSetCode home_id bool "nat option" | RqLock home_id bool | RqLeaveCrew home_id | RqClearCrew home_id
  | RqFeed home_id nat | RqTakeRent home_id nat
  | RqFurnish home_id string nat nat nat nat | RqMovePiece home_id nat nat nat nat nat | RqSellPiece home_id nat
  | RqStash home_id nat item nat | RqUnstash home_id nat item nat

datatype at_home = AtDoor | AtInside

datatype place_kind = PlaceHubGate | PlaceBar | PlaceExchange | PlaceCharter | PlaceProving

definition desk_needed :: "request \<Rightarrow> place_kind option" where
  "desk_needed q =
     (case q of
        RqOrder _ _ _ _ rest \<Rightarrow> if rest then Some PlaceExchange else None
      | RqPost _ _ _ _ \<Rightarrow> Some PlaceCharter | RqTakePatrol _ \<Rightarrow> Some PlaceCharter | RqSign \<Rightarrow> Some PlaceCharter
      | RqAceTerms _ \<Rightarrow> Some PlaceBar | RqEat _ \<Rightarrow> Some PlaceBar
      | RqTrainer _ \<Rightarrow> Some PlaceProving
      | _ \<Rightarrow> None)"

definition home_asked :: "request \<Rightarrow> (home_id \<times> at_home) option" where
  "home_asked q =
     (case q of
        RqRent i _ \<Rightarrow> Some (i, AtDoor) | RqBuy i \<Rightarrow> Some (i, AtDoor) | RqEnterCode i _ \<Rightarrow> Some (i, AtDoor)
      | RqDoor i _ \<Rightarrow> Some (i, AtDoor) | RqKnock i \<Rightarrow> Some (i, AtDoor)
      | RqGiveUp i \<Rightarrow> Some (i, AtInside) | RqSetCode i _ _ \<Rightarrow> Some (i, AtInside) | RqLock i _ \<Rightarrow> Some (i, AtInside)
      | RqLeaveCrew i \<Rightarrow> Some (i, AtInside) | RqClearCrew i \<Rightarrow> Some (i, AtInside) | RqFeed i _ \<Rightarrow> Some (i, AtInside)
      | RqTakeRent i _ \<Rightarrow> Some (i, AtInside) | RqFurnish i _ _ _ _ _ \<Rightarrow> Some (i, AtInside)
      | RqMovePiece i _ _ _ _ _ \<Rightarrow> Some (i, AtInside) | RqSellPiece i _ \<Rightarrow> Some (i, AtInside)
      | RqStash i _ _ _ \<Rightarrow> Some (i, AtInside) | RqUnstash i _ _ _ \<Rightarrow> Some (i, AtInside)
      | _ \<Rightarrow> None)"

section \<open>What the requests do\<close>

datatype answer =
    HangarSays "refusal + reply"
  | OrderCancelled nat | NoSuchOrder
  | BoardSays "charter_refusal + charter_reply"
  | RegisterSays "home_refusal + home_reply"
  | KeypadSays "home_refusal + entered"
  | NoHomeAt | NoSuchFurniture

text \<open>What becomes of a request: another's to do (\<open>None\<close> in the code), an arithmetic overflow, or done.\<close>

datatype 's served = NotOurs | Overflows | Served answer 's

definition in_bay :: "exchange \<Rightarrow> hangar outcome \<Rightarrow> (exchange \<times> hangar) served" where
  "in_bay e res = (case res of (r, h) \<Rightarrow> Served (HangarSays r) (e, h))"

definition apply_bay :: "(rat \<Rightarrow> rat \<Rightarrow> rat) \<Rightarrow> request \<Rightarrow> trader \<Rightarrow> nat \<Rightarrow> rules \<Rightarrow> exchange \<Rightarrow> hangar
    \<Rightarrow> (exchange \<times> hangar) served" where
  "apply_bay pw q t now rules e h =
     (case q of
        RqCraft i n \<Rightarrow> in_bay e (craft i n now rules h)
      | RqCancelJob st k \<Rightarrow> in_bay e (cancel_job st k now h)
      | RqFit i \<Rightarrow> in_bay e (fit i h)
      | RqStrip s \<Rightarrow> in_bay e (strip s h)
      | RqDismantle \<Rightarrow> in_bay e (dismantle h)
      | RqRepair p \<Rightarrow> in_bay e (repair p h)
      | RqOverhaul p \<Rightarrow> in_bay e (overhaul p h)
      | RqScrap i \<Rightarrow> in_bay e (scrap i h)
      | RqFuel g \<Rightarrow> in_bay e (fuel g h)
      | RqOrder i s price qty rest \<Rightarrow>
          (case hangar_trade pw e t i s price qty rest h of
             None \<Rightarrow> Overflows
           | Some (r, s') \<Rightarrow> Served (HangarSays r) s')
      | RqCancelOrder k \<Rightarrow>
          (case ex_cancel t k e of
             (True, e1) \<Rightarrow> (case collect e1 t h of (_, e2, h2) \<Rightarrow> Served (OrderCancelled k) (e2, h2))
           | (False, e1) \<Rightarrow> Served NoSuchOrder (e1, h))
      | _ \<Rightarrow> NotOurs)"

text \<open>The register's answers: with the hangar, or without it.\<close>

definition both :: "(homes \<times> hangar) home_outcome \<Rightarrow> (homes \<times> hangar) served" where
  "both res = (case res of (r, s) \<Rightarrow> Served (RegisterSays r) s)"

definition only_homes :: "hangar \<Rightarrow> homes home_outcome \<Rightarrow> (homes \<times> hangar) served" where
  "only_homes h res = (case res of (r, s) \<Rightarrow> Served (RegisterSays r) (s, h))"

definition at_home_of :: "city \<Rightarrow> home_id \<Rightarrow> home \<Rightarrow> request \<Rightarrow> trader \<Rightarrow> string \<Rightarrow> nat \<Rightarrow> homes \<Rightarrow> hangar
    \<Rightarrow> (homes \<times> hangar) served" where
  "at_home_of c i home q t name now r h =
     (case q of
        RqRent _ weeks \<Rightarrow> both (rent_home home t name weeks now r h)
      | RqBuy _ \<Rightarrow> both (buy_home home t name now r h)
      | RqGiveUp _ \<Rightarrow> both (give_up c i t r h)
      | RqEnterCode _ code \<Rightarrow> (case enter_code i t code now r of (res, r') \<Rightarrow> Served (KeypadSays res) (r', h))
      | RqDoor _ opn \<Rightarrow> only_homes h (door i t opn r)
      | RqKnock _ \<Rightarrow> only_homes h (knock_at i name r)
      | RqSetCode _ guest code \<Rightarrow> only_homes h (set_code i t guest code r)
      | RqLock _ lkd \<Rightarrow> only_homes h (set_locked i t lkd r)
      | RqLeaveCrew _ \<Rightarrow> only_homes h (leave_crew i t r)
      | RqClearCrew _ \<Rightarrow> only_homes h (clear_crew i t r)
      | RqFeed _ cr \<Rightarrow> both (feed i cr r h)
      | RqTakeRent _ cr \<Rightarrow> both (withdraw_rent i t cr r h)
      | RqFurnish _ slug s x turn storey \<Rightarrow>
          (case furniture_from_slug slug of
             Some kind \<Rightarrow> both (furnish c i t kind (s, x) turn storey r h)
           | None \<Rightarrow> Served NoSuchFurniture (r, h))
      | RqMovePiece _ k s x turn storey \<Rightarrow> only_homes h (move_piece c i t k (s, x) turn storey r)
      | RqSellPiece _ k \<Rightarrow> both (sell_piece i t k r h)
      | RqStash _ k it qty \<Rightarrow> both (stash i t k it qty r h)
      | RqUnstash _ k it qty \<Rightarrow> both (unstash i t k it qty r h)
      | _ \<Rightarrow> NotOurs)"

definition apply_homes :: "city \<Rightarrow> request \<Rightarrow> trader \<Rightarrow> string \<Rightarrow> nat \<Rightarrow> homes \<Rightarrow> hangar \<Rightarrow> (homes \<times> hangar) served" where
  "apply_homes c q t name now r h =
     (case home_asked q of
        None \<Rightarrow> NotOurs
      | Some (i, _) \<Rightarrow>
          (case ct_home c i of
             None \<Rightarrow> Served NoHomeAt (r, h)
           | Some home \<Rightarrow> at_home_of c i home q t name now r h))"

definition apply_charter :: "request \<Rightarrow> trader \<Rightarrow> string \<Rightarrow> nat \<Rightarrow> exchange \<Rightarrow> board \<Rightarrow> hangar
    \<Rightarrow> (exchange \<times> board \<times> hangar) served" where
  "apply_charter q t name now e b h =
     (case q of
        RqPost i qty reward hours \<Rightarrow>
          (case post t name i qty reward hours now b h of (r, b', h') \<Rightarrow> Served (BoardSays r) (e, b', h'))
      | RqWithdraw k \<Rightarrow> (case withdraw t k b h of (r, b', h') \<Rightarrow> Served (BoardSays r) (e, b', h'))
      | RqDeliver k qty \<Rightarrow> (case deliver t name k qty now e b h of (r, e', b', h') \<Rightarrow> Served (BoardSays r) (e', b', h'))
      | RqTakePatrol k \<Rightarrow> (case take_patrol t name k now b of (r, b') \<Rightarrow> Served (BoardSays r) (e, b', h))
      | RqDropPatrol k \<Rightarrow> (case drop_patrol t k now b of (r, b') \<Rightarrow> Served (BoardSays r) (e, b', h))
      | RqContribute w i qty \<Rightarrow>
          (case contribute t name w i qty now b h of (r, b', h') \<Rightarrow> Served (BoardSays r) (e, b', h'))
      | RqSign \<Rightarrow> (case sign_charter t name now b of (r, b') \<Rightarrow> Served (BoardSays r) (e, b', h))
      | RqAceTerms salv \<Rightarrow> (case set_terms t salv b of (r, b') \<Rightarrow> Served (BoardSays r) (e, b', h))
      | _ \<Rightarrow> NotOurs)"

section \<open>The radio\<close>

definition SAY_MAX_CHARS :: nat where "SAY_MAX_CHARS = 160"

text \<open>\<open>char::is_whitespace\<close> (Unicode's White_Space) and \<open>char::is_control\<close> (category Cc).\<close>

definition is_space :: "nat \<Rightarrow> bool" where
  "is_space c \<longleftrightarrow> 9 \<le> c \<and> c \<le> 13 \<or> c = 0x20 \<or> c = 0x85 \<or> c = 0xA0 \<or> c = 0x1680 \<or> 0x2000 \<le> c \<and> c \<le> 0x200A
     \<or> c = 0x2028 \<or> c = 0x2029 \<or> c = 0x202F \<or> c = 0x205F \<or> c = 0x3000"

definition is_control :: "nat \<Rightarrow> bool" where
  "is_control c \<longleftrightarrow> c < 32 \<or> 127 \<le> c \<and> c < 160"

fun clean_from :: "radio_text \<Rightarrow> radio_text \<Rightarrow> radio_text" where
  "clean_from out [] = out"
| "clean_from out (c0 # cs) =
     (let c = (if is_space c0 then 32 else c0)
      in if is_control c \<or> c = 32 \<and> (out = [] \<or> last out = 32) then clean_from out cs
         else if length out = SAY_MAX_CHARS then out
         else clean_from (out @ [c]) cs)"

definition trim_end :: "radio_text \<Rightarrow> radio_text" where
  "trim_end s = rev (dropWhile is_space (rev s))"

definition clean_line :: "radio_text \<Rightarrow> radio_text option" where
  "clean_line text = (let out = trim_end (clean_from [] text) in if out = [] then None else Some out)"

section \<open>A clean line\<close>

text \<open>A line part-way through cleaning: within the limit, no control character, no space but the space, not two
  together, and none in front.\<close>

definition tidy_line :: "radio_text \<Rightarrow> bool" where
  "tidy_line l \<longleftrightarrow> length l \<le> SAY_MAX_CHARS \<and> list_all (\<lambda>c. \<not> is_control c \<and> (is_space c \<longrightarrow> c = 32)) l
     \<and> successively (\<lambda>a b. a \<noteq> 32 \<or> b \<noteq> 32) l \<and> (l \<noteq> [] \<longrightarrow> hd l \<noteq> 32)"

lemma space_32: "is_space 32" "\<not> is_control 32"
  by (simp_all add: is_space_def is_control_def)

lemma tidy_line_snoc:
  "tidy_line (out @ [c]) \<longleftrightarrow> tidy_line out \<and> length out < SAY_MAX_CHARS \<and> \<not> is_control c \<and> (is_space c \<longrightarrow> c = 32)
     \<and> \<not> (c = 32 \<and> (out = [] \<or> last out = 32))"
  by (cases "out = []") (auto simp: tidy_line_def successively_append_iff)

lemma tidy_line_prefix: "tidy_line (l @ m) \<Longrightarrow> tidy_line l"
  by (cases "l = []") (auto simp: tidy_line_def successively_append_iff)

lemma clean_from_tidy: "tidy_line out \<Longrightarrow> tidy_line (clean_from out cs)"
proof (induction out cs rule: clean_from.induct)
  case (2 out c0 cs)
  let ?c = "if is_space c0 then 32 else c0"
  consider "is_control ?c \<or> ?c = 32 \<and> (out = [] \<or> last out = 32)" | "length out = SAY_MAX_CHARS"
    | "\<not> (is_control ?c \<or> ?c = 32 \<and> (out = [] \<or> last out = 32))" "length out \<noteq> SAY_MAX_CHARS" by blast
  then show ?case
  proof cases
    case 1
    with 2 show ?thesis by (simp add: Let_def)
  next
    case 2
    with "2.IH"(1) [OF refl] "2.prems" show ?thesis by (simp add: Let_def)
  next
    case 3
    with "2.prems" have "length out < SAY_MAX_CHARS" by (simp add: tidy_line_def)
    with 3 "2.prems" have "tidy_line (out @ [?c])" by (auto simp: tidy_line_snoc)
    with "2.IH"(2) [OF refl 3] 3 show ?thesis by (simp only: clean_from.simps Let_def if_False)
  qed
qed simp

lemma trim_end_prefix: "\<exists>m. s = trim_end s @ m \<and> list_all is_space m"
proof -
  have "s = rev (dropWhile is_space (rev s)) @ rev (takeWhile is_space (rev s))"
    by (metis rev_append rev_rev_ident takeWhile_dropWhile_id)
  moreover have "list_all is_space (rev (takeWhile is_space (rev s)))"
    by (auto simp: list_all_iff dest: set_takeWhileD)
  ultimately show ?thesis unfolding trim_end_def by blast
qed

lemma trim_end_last: "trim_end s \<noteq> [] \<Longrightarrow> \<not> is_space (last (trim_end s))"
  unfolding trim_end_def by (metis hd_dropWhile last_rev rev_is_Nil_conv)

lemma trim_end_same: "s = [] \<or> \<not> is_space (last s) \<Longrightarrow> trim_end s = s"
  unfolding trim_end_def by (cases s rule: rev_cases) auto

lemma clean_from_clean: "tidy_line (out @ s) \<Longrightarrow> clean_from out s = out @ s"
proof (induction s arbitrary: out)
  case (Cons c s)
  from Cons.prems have t: "tidy_line ((out @ [c]) @ s)" by simp
  from tidy_line_prefix [OF this] have "tidy_line (out @ [c])" .
  then have c: "length out < SAY_MAX_CHARS" "\<not> is_control c" "is_space c \<Longrightarrow> c = 32" "\<not> (c = 32 \<and> (out = [] \<or> last out = 32))"
    by (auto simp: tidy_line_snoc)
  then have "clean_from out (c # s) = clean_from (out @ [c]) s" by (auto simp: Let_def)
  with Cons.IH [OF t] show ?case by simp
qed simp

lemma clean_from_extends: "\<exists>m. clean_from out cs = out @ m"
proof (induction out cs rule: clean_from.induct)
  case (2 out c0 cs)
  then show ?case by (auto simp: Let_def)
qed simp

lemma clean_from_nothing: "(\<forall>c \<in> set cs. is_space c \<or> is_control c) \<longleftrightarrow> clean_from [] cs = []"
proof (induction cs)
  case (Cons c cs)
  obtain m where "clean_from [c] cs = [c] @ m" using clean_from_extends by blast
  with Cons show ?case by (auto simp: Let_def space_32 SAY_MAX_CHARS_def)
qed simp

text \<open>C40: A line sent on the radio is clean: of any text, what is sent is not empty, at most 160 characters,
  without control characters, its only spaces single ones inside it, and cleaning it again changes
  nothing; and only a text with nothing to see in it is not sent.\<close>
theorem lines_are_clean:
  "case clean_line t of
     None \<Rightarrow> (\<forall>c \<in> set t. is_space c \<or> is_control c)
   | Some l \<Rightarrow> l \<noteq> [] \<and> length l \<le> 160 \<and> (\<forall>c \<in> set l. \<not> is_control c \<and> (is_space c \<longrightarrow> c = 32))
       \<and> successively (\<lambda>a b. a \<noteq> 32 \<or> b \<noteq> 32) l \<and> hd l \<noteq> 32 \<and> last l \<noteq> 32 \<and> clean_line l = Some l"
proof -
  let ?s = "clean_from [] t"
  have tidy: "tidy_line ?s" by (rule clean_from_tidy) (simp add: tidy_line_def)
  obtain m where m: "?s = trim_end ?s @ m" "list_all is_space m" using trim_end_prefix by blast
  have l: "tidy_line (trim_end ?s)" using tidy m(1) tidy_line_prefix by metis
  show ?thesis
  proof (cases "trim_end ?s = []")
    case True
    with m have "list_all is_space ?s" by simp
    with tidy have "?s = []" by (cases ?s) (auto simp: tidy_line_def)
    with True show ?thesis by (simp add: clean_line_def clean_from_nothing)
  next
    case False
    note e = trim_end_last [OF False]
    have "clean_line (trim_end ?s) = Some (trim_end ?s)"
      using False e l clean_from_clean [of "[]" "trim_end ?s"] by (simp add: clean_line_def trim_end_same)
    moreover have "last (trim_end ?s) \<noteq> 32" using e space_32 by metis
    ultimately show ?thesis
      using False l by (simp add: clean_line_def [of t] tidy_line_def SAY_MAX_CHARS_def list_all_iff)
  qed
qed

text \<open>Two words with a tab, a bell and spaces around them.\<close>

theorem lines_are_clean_witness:
  "clean_line [32, 72, 105, 9, 32, 7, 33, 32] = Some [72, 105, 32, 33] \<and> clean_line [72, 105, 32, 33] = Some [72, 105, 32, 33]"
proof -
  have "clean_line [32, 72, 105, 9, 32, 7, 33, 32] = Some [72, 105, 32, 33]"
    by (simp add: clean_line_def trim_end_def is_space_def is_control_def SAY_MAX_CHARS_def)
  with lines_are_clean [of "[32, 72, 105, 9, 32, 7, 33, 32]"] show ?thesis by simp
qed

section \<open>Whose request it is\<close>

text \<open>What the session does itself: flying, walking, watching, eating, talking, the gantry.\<close>

definition sessions_own :: "request \<Rightarrow> bool" where
  "sessions_own q \<longleftrightarrow> (case q of
       RqWatch _ \<Rightarrow> True | RqLaunch \<Rightarrow> True | RqLaunchInside \<Rightarrow> True | RqDock \<Rightarrow> True | RqEnterCity _ \<Rightarrow> True
     | RqLeaveCity \<Rightarrow> True | RqEnterBase \<Rightarrow> True | RqLeaveBase \<Rightarrow> True | RqBoardTrainer \<Rightarrow> True | RqTrainer _ \<Rightarrow> True
     | RqEat _ \<Rightarrow> True | RqWatchBoard _ \<Rightarrow> True | RqUseKit _ \<Rightarrow> True | RqEject _ \<Rightarrow> True | RqSay _ \<Rightarrow> True
     | _ \<Rightarrow> False)"

definition boards_own :: "request \<Rightarrow> bool" where
  "boards_own q \<longleftrightarrow> (case q of
       RqPost _ _ _ _ \<Rightarrow> True | RqWithdraw _ \<Rightarrow> True | RqDeliver _ _ \<Rightarrow> True | RqTakePatrol _ \<Rightarrow> True
     | RqDropPatrol _ \<Rightarrow> True | RqContribute _ _ _ \<Rightarrow> True | RqSign \<Rightarrow> True | RqAceTerms _ \<Rightarrow> True
     | _ \<Rightarrow> False)"

lemmas served_simps = in_bay_def both_def only_homes_def

lemma charter_serves: "apply_charter q t name now e b h = NotOurs \<longleftrightarrow> \<not> boards_own q"
  by (cases q) (simp_all add: apply_charter_def boards_own_def split: prod.split)

lemma register_serves: "apply_homes c q t name now r h = NotOurs \<longleftrightarrow> home_asked q = None"
  by (cases q) (simp_all add: apply_homes_def home_asked_def at_home_of_def served_simps split: prod.split option.split)

lemma bay_serves:
  "apply_bay pw q t now rules e h = NotOurs \<longleftrightarrow> sessions_own q \<or> boards_own q \<or> home_asked q \<noteq> None"
  by (cases q) (simp_all add: apply_bay_def sessions_own_def boards_own_def home_asked_def served_simps
      split: prod.split option.split bool.split)

text \<open>C39: Every request is somebody's and nobody's twice: it is the session's own, or exactly one of the bay,
  the Board and the register does it; one about a home is always the register's and never a desk's,
  and nothing the bay's terminal does needs a desk but an order that would rest.\<close>
theorem every_request_is_somebodys:
  "(if sessions_own q then 1 else 0) + (if apply_bay pw q t now rules e h \<noteq> NotOurs then 1 else 0)
     + (if apply_charter q t name now e b h \<noteq> NotOurs then 1 else 0)
     + (if apply_homes c q t name now r h \<noteq> NotOurs then 1 else 0) = (1 :: nat)
   \<and> (apply_homes c q t name now r h \<noteq> NotOurs \<longleftrightarrow> home_asked q \<noteq> None)
   \<and> \<not> (desk_needed q \<noteq> None \<and> home_asked q \<noteq> None)
   \<and> (desk_needed q \<noteq> None \<and> apply_bay pw q t now rules e h \<noteq> NotOurs \<longleftrightarrow> (\<exists>i s price qty. q = RqOrder i s price qty True))"
  unfolding bay_serves charter_serves register_serves
  by (cases q) (simp_all add: sessions_own_def boards_own_def home_asked_def desk_needed_def)

end
