(* ===== verification/Economy.thy ===== *)
theory Economy
  imports Requests
begin

text \<open>
  The whole economy behind the requests (\<open>on_request\<close> and \<open>home_request\<close> of
  \<open>crates/bc-server/src/net/session.rs\<close>, what they do to the state): the exchange, the Board, the register
  of homes, and every pilot's hangar and body; a request of a pilot \<open>served\<close> by whoever's it is. What a
  job in a queue would give back of its fee counts with its hangar (\<open>worth_of\<close>). The lemmas show that
  the rule about desks lets nothing rest on the book from elsewhere, and that over any history of requests
  and clocks no credit is made but what the colony's own counters say it paid out.
\<close>

section \<open>Desks\<close>

text \<open>A request as it is done where the pilot stands (\<open>there\<close>), the colony open or not: refused for the
  desk it needs, or passed on, an order made away from the floor no longer to rest.\<close>

definition at_terminal :: "bool \<Rightarrow> (place_kind \<Rightarrow> bool) \<Rightarrow> request \<Rightarrow> place_kind + request \<times> bool" where
  "at_terminal open_now there q =
     (case (if open_now then desk_needed q else None) of
        None \<Rightarrow> Inr (q, False)
      | Some k \<Rightarrow>
          if there k then Inr (q, False)
          else case q of
            RqOrder i s price qty _ \<Rightarrow> Inr (RqOrder i s price qty False, True)
          | _ \<Rightarrow> Inl k)"

lemma no_rest_off_the_floor:
  assumes "hangar_trade pw e t i s price qty False h = Some (Inr (Traded ns w none), s')"
  shows "w = None"
proof -
  have pl: "place pw t i s price qty x False e = Some (Inr p, e1) \<Longrightarrow> p_resting p = None" for x p e1
    by (auto simp: place_def split: option.splits)
  from assms have i: "item_valid i" by (auto simp: hangar_trade_def split: if_splits)
  with assms obtain x h1 where p: "take_escrow i s price qty h = Inr (x, h1)"
    by (cases "take_escrow i s price qty h") (auto simp: hangar_trade_def)
  with assms i obtain q e1 where q: "place pw t i s price qty x False e = Some (q, e1)"
    by (auto simp: hangar_trade_def)
  obtain ns' e2 h2 where k: "collect e1 t h1 = (ns', e2, h2)" by (metis prod_cases3)
  from assms i p q k pl show ?thesis by (cases q) (auto simp: hangar_trade_def)
qed

lemma passed_needs_no_desk: "at_terminal True there q = Inr (q', off) \<Longrightarrow> desk_needed q' = Some k \<Longrightarrow> there k"
  by (auto simp: at_terminal_def desk_needed_def split: option.splits if_splits request.splits)

lemma passed_orders:
  "at_terminal True there q = Inr (RqOrder i s price qty rest, off) \<Longrightarrow> \<not> there PlaceExchange \<Longrightarrow> \<not> rest"
  using passed_needs_no_desk [of there q _ off PlaceExchange] by (fastforce simp: desk_needed_def)



section \<open>Serving a request\<close>

record world =
  wo_colony :: colony_state
  wo_homes :: homes
  wo_bodies :: "(trader, body) bmap"

abbreviation wo_hangars :: "world \<Rightarrow> (trader, hangar) bmap" where
  "wo_hangars w \<equiv> co_hangars (wo_colony w)"

definition put_hangar :: "trader \<Rightarrow> hangar \<Rightarrow> colony_state \<Rightarrow> colony_state" where
  "put_hangar t h s = s\<lparr>co_hangars := bput t h (co_hangars s)\<rparr>"

text \<open>At home, at a meal, at the Board, in the bay: each with the pilot's hangar \<open>h\<close>.\<close>

definition serve_home :: "city \<Rightarrow> request \<Rightarrow> trader \<Rightarrow> string \<Rightarrow> nat \<Rightarrow> hangar \<Rightarrow> world \<Rightarrow> world option" where
  "serve_home c q t name now h w =
     (case apply_homes c q t name now (wo_homes w) h of
        Served _ (r, h') \<Rightarrow> Some (w\<lparr>wo_homes := r, wo_colony := put_hangar t h' (wo_colony w)\<rparr>)
      | NotOurs \<Rightarrow> Some w
      | Overflows \<Rightarrow> None)"

definition serve_meal :: "dish \<Rightarrow> trader \<Rightarrow> nat \<Rightarrow> hangar \<Rightarrow> world \<Rightarrow> world" where
  "serve_meal d t now h w =
     (case eat_at_counter d now (bor body_default (bget (wo_bodies w) t)) h of
        (_, b, h') \<Rightarrow> w\<lparr>wo_bodies := bput t b (wo_bodies w), wo_colony := put_hangar t h' (wo_colony w)\<rparr>)"

definition serve_board :: "request \<Rightarrow> trader \<Rightarrow> string \<Rightarrow> nat \<Rightarrow> hangar \<Rightarrow> world \<Rightarrow> world option" where
  "serve_board q t name now h w =
     (case apply_charter q t name now (co_ex (wo_colony w)) (co_board (wo_colony w)) h of
        Served _ (e, b, h') \<Rightarrow>
          Some (w\<lparr>wo_colony := (put_hangar t h' (wo_colony w))\<lparr>co_ex := e, co_board := b\<rparr>\<rparr>)
      | NotOurs \<Rightarrow> Some w
      | Overflows \<Rightarrow> None)"

definition serve_bay :: "(rat \<Rightarrow> rat \<Rightarrow> rat) \<Rightarrow> request \<Rightarrow> trader \<Rightarrow> nat \<Rightarrow> rules \<Rightarrow> hangar \<Rightarrow> world \<Rightarrow> world option" where
  "serve_bay pw q t now rules h w =
     (case apply_bay pw q t now rules (co_ex (wo_colony w)) h of
        Served _ (e, h') \<Rightarrow> Some (w\<lparr>wo_colony := (put_hangar t h' (wo_colony w))\<lparr>co_ex := e\<rparr>\<rparr>)
      | NotOurs \<Rightarrow> Some w
      | Overflows \<Rightarrow> None)"

definition serve :: "city \<Rightarrow> (rat \<Rightarrow> rat \<Rightarrow> rat) \<Rightarrow> request \<Rightarrow> trader \<Rightarrow> string \<Rightarrow> nat \<Rightarrow> rules \<Rightarrow> hangar \<Rightarrow> world
    \<Rightarrow> world option" where
  "serve c pw q t name now rules h w =
     (if home_asked q \<noteq> None then serve_home c q t name now h w
      else case q of
        RqEat d \<Rightarrow> Some (serve_meal d t now h w)
      | _ \<Rightarrow> if boards_own q then serve_board q t name now h w else serve_bay pw q t now rules h w)"

section \<open>What queues would give back\<close>

definition job_fee :: "job \<Rightarrow> nat" where
  "job_fee j =
     (case job_recipe j of
        None \<Rightarrow> 0
      | Some r \<Rightarrow> r_fee r * (jb_batches j - jb_done j) * jb_fee_pct j div 100)"

definition queue_fees :: "queue \<Rightarrow> nat" where
  "queue_fees q = sum_list (map job_fee q)"

definition works_fees :: "works \<Rightarrow> nat" where
  "works_fees w = queue_fees (fabricator w) + queue_fees (foundry w)"

text \<open>A hangar's credits, with what its queues would give back.\<close>

definition worth_of :: "hangar \<Rightarrow> nat" where
  "worth_of h = credits h + works_fees (hworks h)"

lemma job_fee_started [simp]: "job_fee (j\<lparr>jb_started := t\<rparr>) = job_fee j"
  by (simp add: job_fee_def split: option.split)

lemma queue_fees_simps [simp]: "queue_fees [] = 0" "queue_fees (j # q) = job_fee j + queue_fees q"
  "queue_fees (p @ q) = queue_fees p + queue_fees q" "queue_fees (start_next t q) = queue_fees q"
  by (simp_all add: queue_fees_def) (cases q; simp)

lemma queue_fees_remove_at: "k < length q \<Longrightarrow> queue_fees q = job_fee (q ! k) + queue_fees (remove_at k q)"
  by (simp add: queue_fees_def sum_list_remove_at)

lemma run_batches_fee:
  assumes "run_batches r now j out = (j', out')"
  shows "job_fee j' \<le> job_fee j"
proof -
  note f = run_batches_fields [OF assms]
  from f have "job_recipe j' = job_recipe j" "jb_batches j' - jb_done j' \<le> jb_batches j - jb_done j"
    "jb_fee_pct j' = jb_fee_pct j" by (auto simp: job_recipe_def)
  then show ?thesis by (auto simp: job_fee_def split: option.split intro!: div_le_mono mult_le_mono)
qed

lemma settle_from_fees: "queue_fees (fst (settle_from now q out)) \<le> queue_fees q"
proof (induction now q out rule: settle_from.induct)
  case (2 now j q out)
  show ?case
  proof (cases "job_recipe j")
    case (Some r)
    obtain j' out' where r: "run_batches r now j out = (j', out')" by force
    show ?thesis
      using run_batches_fee [OF r] "2.IH"(2) [OF Some, of "(j', out')" j' out'] Some r by auto
  qed (use 2 in simp)
qed simp

lemma hangar_settle_worth: "worth_of (snd (hangar_settle now h)) \<le> worth_of h"
  using settle_from_fees [of now "fabricator (hworks h)" "[]"] settle_from_fees [of now "foundry (hworks h)" "[]"]
  by (simp add: worth_of_def works_fees_def hangar_settle_def works_settle_def settle_def split_beta Let_def)

lemma works_fees_set: "works_fees (works_set st q w) + queue_fees (works_queue st w) = works_fees w + queue_fees q"
  by (cases st) (simp_all add: works_fees_def)

lemma craft_worth: "worth_of (snd (craft i n now rules h)) \<le> worth_of h"
proof (cases "recipe_of i")
  case (Some r)
  let ?h = "snd (hangar_settle now h)"
  let ?q = "works_queue (r_station r) (hworks ?h)"
  let ?push = "queue_push i n (job_secs r rules) now (foundry_fee_pct rules) ?q"
  have "queue_fees ?push = queue_fees ?q + r_fee r * n * foundry_fee_pct rules div 100"
    by (simp add: queue_push_def job_fee_def job_recipe_def Some)
  with works_fees_set [of "r_station r" ?push "hworks ?h"] hangar_settle_worth [of now h] Some show ?thesis
    by (auto simp: craft_def Let_def worth_of_def)
qed (simp add: craft_def)

lemma queue_cancel_fees:
  assumes "queue_cancel k now q = (back, q')"
  shows "queue_fees q' + (case back of None \<Rightarrow> 0 | Some (_, fee) \<Rightarrow> fee) \<le> queue_fees q"
  using assms queue_fees_remove_at [of k q]
  by (auto simp: queue_cancel_def Let_def job_fee_def split: if_splits option.splits)

lemma cancel_job_worth: "worth_of (snd (cancel_job st k now h)) \<le> worth_of h"
proof -
  let ?h = "snd (hangar_settle now h)"
  obtain got q where c: "queue_cancel k now (works_queue st (hworks ?h)) = (got, q)" by force
  from queue_cancel_fees [OF c] works_fees_set [of st q "hworks ?h"] hangar_settle_worth [of now h] c show ?thesis
    by (auto simp: cancel_job_def Let_def worth_of_def split: option.splits)
qed

section \<open>What keeps a hangar's credits and queues\<close>

text \<open>Work on the suit costs goods only; trading, the Board, the register and meals leave the queues alone.\<close>

definition same_funds :: "hangar \<Rightarrow> hangar \<Rightarrow> bool" where
  "same_funds h h' \<longleftrightarrow> credits h' = credits h \<and> hworks h' = hworks h"

lemma same_funds_simps [simp]: "same_funds h h" "same_funds h (h\<lparr>hstores := st, hbay := b\<rparr>)"
  "same_funds h (h\<lparr>hstores := st\<rparr>)" "same_funds h (h\<lparr>hbay := b, hstores := st\<rparr>)"
  by (simp_all add: same_funds_def)

lemma same_funds_trans: "same_funds h h' \<Longrightarrow> same_funds h' h'' \<Longrightarrow> same_funds h h''"
  by (simp add: same_funds_def)

lemma same_funds_fold: "(\<And>x h. same_funds h (f x h)) \<Longrightarrow> same_funds h (fold f xs h)"
  by (induction xs arbitrary: h) (auto intro: same_funds_trans)

lemma same_funds_worth: "same_funds h h' \<Longrightarrow> worth_of h' = worth_of h"
  by (simp add: same_funds_def worth_of_def)

lemma fit_funds: "same_funds h (snd (fit i h))"
  by (simp add: fit_def fit_slot_def Let_def split: bay.split slot.split option.split prod.split item.split part.split)

lemma strip_funds: "same_funds h (snd (strip s h))"
proof -
  have "same_funds h (snd (strip_torso x h))" "same_funds h (snd (strip_part p x h))" for x p
    by (simp_all add: strip_torso_def strip_part_def Let_def split: option.split prod.split)
  then have "same_funds h (snd (strip_off s h))"
    by (simp add: strip_off_def Let_def split: sum.split slot.split option.split prod.split)
  moreover have "same_funds g (snd (settle_tank g))" for g
    by (simp add: settle_tank_def Let_def split: bay.split)
  ultimately show ?thesis
    by (cases "strip_off s h"; cases "fst (strip_off s h)") (auto simp: strip_def split_beta intro: same_funds_trans)
qed

lemma dismantle_funds: "same_funds h (snd (dismantle h))"
proof -
  have parts: "same_funds h (fold (\<lambda>p h. if p \<noteq> Torso then snd (strip (SPart p) h) else h) ps h)" for ps h
    by (rule same_funds_fold) (simp add: strip_funds)
  have "same_funds h (fold (\<lambda>m h. snd (strip (f m) h)) ms h)" for f :: "nat \<Rightarrow> slot" and ms h
    by (rule same_funds_fold) (rule strip_funds)
  note steps = this [THEN same_funds_trans]
  show ?thesis
    unfolding dismantle_def Let_def
    by (simp split: sum.split add: steps [OF steps, OF parts [THEN same_funds_trans, OF strip_funds]])
qed

lemma repair_funds: "same_funds h (snd (repair p h))" "same_funds h (snd (overhaul p h))"
  by (simp_all add: repair_def overhaul_def Let_def split: sum.split prod.split)

lemma scrap_funds: "same_funds h (snd (scrap i h))" "same_funds h (snd (fuel g h))"
  by (simp_all add: scrap_def fuel_def Let_def split: option.split prod.split bay.split)

lemma trade_works:
  assumes "hangar_trade pw e t i s price qty rest h = Some (r, e', h')" shows "hworks h' = hworks h"
proof (cases "\<not> item_valid i \<or> (\<exists>why. take_escrow i s price qty h = Inl why)")
  case False
  then obtain x h1 where i: "item_valid i" and p: "take_escrow i s price qty h = Inr (x, h1)"
    by (cases "take_escrow i s price qty h") auto
  have h1: "hworks h1 = hworks h"
    using p by (auto simp: take_escrow_def Let_def split: side.splits prod.splits if_splits)
  from assms(1) i p obtain q e1 where pl: "place pw t i s price qty x rest e = Some (q, e1)"
    by (auto simp: hangar_trade_def)
  obtain ns e2 h2 where k: "collect e1 t h1 = (ns, e2, h2)" by (metis prod_cases3)
  then have "hworks h2 = hworks h1" by (auto simp: collect_def split: prod.splits)
  with h1 assms(1) i p pl k show ?thesis
    by (cases q) (auto simp: hangar_trade_def hand_escrow_back_def split: side.splits)
qed (use assms in \<open>auto simp: hangar_trade_def split: if_splits\<close>)

lemma board_works: "board_step (e, b, h) (e', b', h') \<Longrightarrow> hworks h' = hworks h"
proof -
  have paid: "hworks (board_paid w cr h) = hworks h" "hworks (pay_out a h) = hworks h" for w cr a h
    by (simp_all add: board_paid_def pay_out_def)
  have ace: "pay_ace k t at_desk b h = (r', b', h') \<Longrightarrow> hworks h' = hworks h" for k t at_desk b h r' b' h'
    by (auto simp: pay_ace_def Let_def paid split: if_splits)
  have cert: "certify t e b h = (ro, e', b', h') \<Longrightarrow> hworks h' = hworks h" for t e b h ro e' b' h'
    by (auto simp: certify_def Let_def split: if_splits prod.splits)
  have col: "board_collect t b h = (ns, b', h') \<Longrightarrow> hworks h' = hworks h"
    "collect_at_desk t b h = (ns, b', h') \<Longrightarrow> hworks h' = hworks h" for t b h ns b' h'
    by (auto simp: board_collect_def collect_at_desk_def paid split: option.splits)
  have posted: "post t name i qty reward hours now b h = (r, b', h') \<Longrightarrow> hworks h' = hworks h"
    for t name i qty reward hours now b h r b' h'
    by (auto simp: post_def Let_def split: if_splits prod.splits)
  have gone: "withdraw t k b h = (r, b', h') \<Longrightarrow> hworks h' = hworks h" for t k b h r b' h'
    by (auto simp: withdraw_def Let_def dest: col split: option.splits if_splits prod.splits)
  have sent: "deliver t name k qty now e b h = (r, e', b', h') \<Longrightarrow> hworks h' = hworks h"
    for t name k qty now e b h r e' b' h'
    by (cases r) (auto dest: deliver_refused elim: deliver_DoneE)
  have flown: "bounties t n now at_desk b h = (rs, b', h') \<Longrightarrow> hworks h' = hworks h" for t n now at_desk b h rs b' h'
    by (auto simp: bounties_def Let_def paid split: option.splits task.splits if_splits prod.splits)
  have given: "contribute t name w i qty now b h = (r, b', h') \<Longrightarrow> hworks h' = hworks h"
    for t name w i qty now b h r b' h'
    by (auto simp: contribute_def contribution_def Let_def split: option.splits if_splits prod.splits)
  have "hworks (snd (snd s')) = hworks (snd (snd s))" if "board_step s s'" for s s'
    using that by (induction rule: board_step.induct) (simp_all add: ace cert col posted gone sent flown given)
  then show "board_step (e, b, h) (e', b', h') \<Longrightarrow> ?thesis" by fastforce
qed

lemma register_works: "register_step c hypot (r, h) (r', h') \<Longrightarrow> hworks h' = hworks h"
proof -
  have "hworks (snd s') = hworks (snd s)" if "register_step c hypot s s'" for s s'
    using that
  proof (induction rule: register_step.induct)
    case Rents then show ?case by (auto simp: rent_home_def Let_def split: if_splits option.splits)
  next
    case Buys then show ?case by (auto simp: buy_home_def Let_def split: if_splits option.splits)
  next
    case Gives_up then show ?case by (auto simp: give_up_def Let_def split: sum.splits tenure.splits prod.splits)
  next
    case Feeds then show ?case by (auto simp: feed_def Let_def split: if_splits option.splits tenure.splits)
  next
    case Takes_rent then show ?case by (auto simp: withdraw_rent_def Let_def split: if_splits sum.splits tenure.splits)
  next
    case Furnishes then show ?case by (auto simp: furnish_def Let_def split: if_splits option.splits sum.splits)
  next
    case Sells_piece then show ?case by (auto simp: sell_piece_def Let_def split: if_splits sum.splits option.splits)
  next
    case Stashes then show ?case by (auto simp: stash_def Let_def split: if_splits option.splits prod.splits sum.splits)
  next
    case Unstashes then show ?case by (auto simp: unstash_def Let_def split: if_splits option.splits prod.splits sum.splits)
  next
    case Collects then show ?case by (auto simp: homes_collect_def Let_def split: if_splits option.splits)
  qed simp_all
  then show "register_step c hypot (r, h) (r', h') \<Longrightarrow> ?thesis" by fastforce
qed

section \<open>No request makes credits\<close>

lemma at_home_steps:
  assumes "at_home_of c i home q t name now r h = Served a (r', h')"
  shows "register_step c hypot (r, h) (r', h') \<or> (r', h') = (r, h)"
  using assms unfolding at_home_of_def both_def only_homes_def
  by (cases q) (auto intro: register_step.intros split: prod.splits option.splits)

lemma home_request_steps:
  assumes "apply_homes c q t name now r h = Served a (r', h')"
  shows "register_step c hypot (r, h) (r', h') \<or> (r', h') = (r, h)"
  using assms by (auto simp: apply_homes_def dest!: at_home_steps [where hypot = hypot] split: option.splits)

definition reward_fits :: "request \<Rightarrow> bool" where
  "reward_fits q \<longleftrightarrow> (case q of RqPost _ _ reward _ \<Rightarrow> reward \<le> u64_max | _ \<Rightarrow> True)"

lemma board_request_steps:
  assumes "apply_charter q t name now e b h = Served a (e', b', h')" and "reward_fits q"
  shows "board_step (e, b, h) (e', b', h')"
  using assms unfolding apply_charter_def
  by (cases q) (auto simp: reward_fits_def intro: board_step.intros split: prod.splits)

text \<open>What a bay request costs: credits and what the queues would give back, never made.\<close>

definition bay_pays :: "exchange \<Rightarrow> hangar \<Rightarrow> exchange \<Rightarrow> hangar \<Rightarrow> bool" where
  "bay_pays e h e' h' \<longleftrightarrow> exchange_ok e' \<and> worth_of h' + ex_money e' + colony_paid e \<le> worth_of h + ex_money e + colony_paid e'"

lemma bay_pays_same_works:
  "exchange_ok e' \<Longrightarrow> hworks h' = hworks h \<Longrightarrow> credits h' + ex_money e' + colony_paid e = credits h + ex_money e + colony_paid e'
   \<Longrightarrow> bay_pays e h e' h'"
  by (simp add: bay_pays_def worth_of_def)

lemma trade_pays:
  assumes "hangar_trade pw e t i s price qty rest h = Some (r, e', h')" and "exchange_ok e" and "credits h \<le> FEE_CAP"
  shows "bay_pays e h e' h'"
  using trade_ledger [OF assms] trade_keeps_ok [OF assms] trade_works [OF assms(1)]
  by (intro bay_pays_same_works) (simp_all add: ex_money_def)

lemma cancel_pays:
  assumes "exchange_ok e" and "ex_cancel t k e = (ok, e1)" and "collect e1 t h = (ns, e', h')"
  shows "bay_pays e h e1 h" "bay_pays e h e' h'"
proof -
  from cancel_money [OF assms(1), of t k] assms(2)
  have e1: "ex_money e1 = ex_money e" "colony_paid e1 = colony_paid e" "exchange_ok e1" by simp_all
  moreover have "hworks h' = hworks h" using assms(3) by (auto simp: collect_def split: prod.splits)
  ultimately show "bay_pays e h e1 h" "bay_pays e h e' h'"
    using collect_money [OF e1(3) assms(3)] by (auto intro!: bay_pays_same_works)
qed

lemma in_bay_pays:
  assumes "in_bay e res = Served a (e', h')" and "exchange_ok e" and "worth_of (snd res) \<le> worth_of h"
  shows "bay_pays e h e' h'"
  using assms by (auto simp: in_bay_def bay_pays_def split: prod.splits)

lemma bay_request_pays:
  assumes "apply_bay pw q t now rules e h = Served a (e', h')" and "exchange_ok e" and "credits h \<le> FEE_CAP"
  shows "bay_pays e h e' h'"
proof -
  note bay = in_bay_pays [OF _ assms(2)]
  note funds = fit_funds strip_funds dismantle_funds repair_funds scrap_funds
  note worth = craft_worth cancel_job_worth funds [THEN same_funds_worth, THEN eq_imp_le]
  show ?thesis
  proof (cases q)
    case (RqOrder i s price qty rest)
    with assms(1) obtain res where "hangar_trade pw e t i s price qty rest h = Some (res, e', h')"
      by (auto simp: apply_bay_def split: option.splits)
    then show ?thesis using assms(2,3) by (rule trade_pays)
  next
    case (RqCancelOrder k)
    obtain ok e1 where k: "ex_cancel t k e = (ok, e1)" by force
    obtain ns e2 h2 where c: "collect e1 t h = (ns, e2, h2)" by (metis prod_cases3)
    from assms(1) RqCancelOrder k c have "(e', h') = (e2, h2) \<or> (e', h') = (e1, h)"
      by (auto simp: apply_bay_def split: bool.splits)
    with cancel_pays [OF assms(2) k c] show ?thesis by auto
  qed (use assms(1) in \<open>auto simp: apply_bay_def intro: bay worth\<close>)
qed

section \<open>Histories of the world\<close>

text \<open>A request of a pilot (credits within what a fee can be computed on, as in \<open>colony_step\<close>), the exchange's
  and the register's clocks, what the exchange, the Board and the register do for a pilot by themselves
  (collecting, bounties, sleeping), and a new pilot.\<close>

inductive world_step :: "city \<Rightarrow> (rat \<Rightarrow> rat \<Rightarrow> rat) \<Rightarrow> (rat \<Rightarrow> rat) \<Rightarrow> (rat \<Rightarrow> rat \<Rightarrow> rat) \<Rightarrow> world \<Rightarrow> world \<Rightarrow> bool"
  for c :: city and pw :: "rat \<Rightarrow> rat \<Rightarrow> rat" and ex :: "rat \<Rightarrow> rat" and hypot :: "rat \<Rightarrow> rat \<Rightarrow> rat" where
  Asks: "bget (wo_hangars w) t = Some h \<Longrightarrow> credits h \<le> FEE_CAP \<Longrightarrow> reward_fits q
    \<Longrightarrow> serve c pw q t name now rules h w = Some w' \<Longrightarrow> world_step c pw ex hypot w w'"
| Market_clock: "ex_tick pw ex dt (co_ex (wo_colony w)) = Some e'
    \<Longrightarrow> world_step c pw ex hypot w (w\<lparr>wo_colony := (wo_colony w)\<lparr>co_ex := e'\<rparr>\<rparr>)"
| Market_pays: "bget (wo_hangars w) t = Some h \<Longrightarrow> collect (co_ex (wo_colony w)) t h = (ns, e', h')
    \<Longrightarrow> world_step c pw ex hypot w (w\<lparr>wo_colony := (put_hangar t h' (wo_colony w))\<lparr>co_ex := e'\<rparr>\<rparr>)"
| Board_does: "bget (wo_hangars w) t = Some h
    \<Longrightarrow> board_step (co_ex (wo_colony w), co_board (wo_colony w), h) (e', b', h')
    \<Longrightarrow> world_step c pw ex hypot w (w\<lparr>wo_colony := (put_hangar t h' (wo_colony w))\<lparr>co_ex := e', co_board := b'\<rparr>\<rparr>)"
| Register_does: "bget (wo_hangars w) t = Some h \<Longrightarrow> register_step c hypot (wo_homes w, h) (r', h')
    \<Longrightarrow> world_step c pw ex hypot w (w\<lparr>wo_homes := r', wo_colony := put_hangar t h' (wo_colony w)\<rparr>)"
| Homes_clock: "world_step c pw ex hypot w (w\<lparr>wo_homes := snd (homes_tick c now (wo_homes w))\<rparr>)"
| New_pilot: "bget (wo_hangars w) t = None \<Longrightarrow> world_step c pw ex hypot w (w\<lparr>wo_colony := put_hangar t starter (wo_colony w)\<rparr>)"

inductive world_run :: "city \<Rightarrow> (rat \<Rightarrow> rat \<Rightarrow> rat) \<Rightarrow> (rat \<Rightarrow> rat) \<Rightarrow> (rat \<Rightarrow> rat \<Rightarrow> rat) \<Rightarrow> world \<Rightarrow> world \<Rightarrow> bool"
  for c pw ex hypot where
  Is_so: "world_run c pw ex hypot w w"
| And_then: "world_run c pw ex hypot w w' \<Longrightarrow> world_step c pw ex hypot w' w'' \<Longrightarrow> world_run c pw ex hypot w w''"

text \<open>All the credits there are, with what the queues would give back; and all the colony says it paid out.\<close>

definition world_money :: "world \<Rightarrow> nat" where
  "world_money w = bsum worth_of (wo_hangars w) + ex_money (co_ex (wo_colony w)) + board_credits (co_board (wo_colony w))
     + homes_books (wo_homes w)"

definition world_issued :: "world \<Rightarrow> nat" where
  "world_issued w = colony_issued (wo_colony w) + handed_back (wo_homes w)"

definition world_ok :: "world \<Rightarrow> bool" where
  "world_ok w \<longleftrightarrow> colony_ok (wo_colony w) \<and> homes_ok (wo_homes w)"

text \<open>A change of the world is sound when it keeps the invariant and makes no credits.\<close>

definition sound_change :: "world \<Rightarrow> world \<Rightarrow> bool" where
  "sound_change w w' \<longleftrightarrow> world_ok w' \<and> world_money w' + world_issued w \<le> world_money w + world_issued w'"

lemmas world_simps = world_money_def world_issued_def world_ok_def colony_ok_def colony_issued_def put_hangar_def

lemma sound_refl: "world_ok w \<Longrightarrow> sound_change w w"
  by (simp add: sound_change_def)

lemma sound_trans: "sound_change w w' \<Longrightarrow> sound_change w' w'' \<Longrightarrow> sound_change w w''"
  by (simp add: sound_change_def)

lemma worth_put:
  "bget hs t = Some h \<Longrightarrow> bsum worth_of (bput t h' hs) + worth_of h = bsum worth_of hs + worth_of h'
     \<and> arrived_with (bput t h' hs) = arrived_with hs"
  by (simp add: bsum_bput_old)

lemma sound_bay:
  assumes "bget (wo_hangars w) t = Some h" and "world_ok w" and "bay_pays (co_ex (wo_colony w)) h e' h'"
  shows "sound_change w (w\<lparr>wo_colony := (put_hangar t h' (wo_colony w))\<lparr>co_ex := e'\<rparr>\<rparr>)"
  using assms(2,3) worth_put [OF assms(1), of h'] by (simp add: sound_change_def bay_pays_def world_simps)

lemma sound_board:
  assumes "bget (wo_hangars w) t = Some h" and "world_ok w"
    and "board_step (co_ex (wo_colony w), co_board (wo_colony w), h) (e', b', h')"
  shows "sound_change w (w\<lparr>wo_colony := (put_hangar t h' (wo_colony w))\<lparr>co_ex := e', co_board := b'\<rparr>\<rparr>)"
proof -
  from assms(2) have b: "board_ok (co_board (wo_colony w))" "contracts_ok (co_board (wo_colony w))"
    by (simp_all add: world_ok_def colony_ok_def board_ok_def)
  show ?thesis
    using board_step_balanced [OF assms(3) b(2)] same_money_ok [OF board_step_exchange [OF assms(3)]]
      board_step_ok [OF assms(3) b(1)] board_works [OF assms(3)] worth_put [OF assms(1), of h'] assms(2)
    by (simp add: sound_change_def world_simps balanced_def worth_of_def)
qed

lemma sound_register:
  assumes "bget (wo_hangars w) t = Some h" and "world_ok w" and "register_step c hypot (wo_homes w, h) (r', h')"
  shows "sound_change w (w\<lparr>wo_homes := r', wo_colony := put_hangar t h' (wo_colony w)\<rparr>)"
  using assms(2) register_step_moves [OF assms(3)] register_works [OF assms(3)] worth_put [OF assms(1), of h']
  by (simp add: sound_change_def world_simps moves_def worth_of_def)

lemma meal_worth: "eat_at_counter d now b h = (r, b', h') \<Longrightarrow> worth_of h' \<le> worth_of h"
  by (auto simp: eat_at_counter_def Let_def worth_of_def split: if_splits sum.splits prod.splits)

lemma serve_other:
  "home_asked q = None \<Longrightarrow> \<nexists>d. q = RqEat d \<Longrightarrow> serve c pw q t name now rules h w
     = (if boards_own q then serve_board q t name now h w else serve_bay pw q t now rules h w)"
  by (cases q) (simp_all add: serve_def)

lemma serve_sound:
  assumes "bget (wo_hangars w) t = Some h" "credits h \<le> FEE_CAP" "reward_fits q" "world_ok w"
    and "serve c pw q t name now rules h w = Some w'"
  shows "sound_change w w'"
proof -
  have still: "put_hangar t h (wo_colony w) = wo_colony w"
    using bput_same [OF assms(1)] by (simp add: put_hangar_def)
  consider "serve_home c q t name now h w = Some w'" | d where "q = RqEat d" "w' = serve_meal d t now h w"
    | "serve_board q t name now h w = Some w'" | "serve_bay pw q t now rules h w = Some w'"
    using assms(5) serve_other by (cases "home_asked q = None"; cases "\<exists>d. q = RqEat d") (auto simp: serve_def split: if_splits)
  then show ?thesis
  proof cases
    case 1
    then consider a r' h' where "apply_homes c q t name now (wo_homes w) h = Served a (r', h')"
        "w' = w\<lparr>wo_homes := r', wo_colony := put_hangar t h' (wo_colony w)\<rparr>" | "w' = w"
      by (auto simp: serve_home_def split: served.splits prod.splits)
    then show ?thesis
      using home_request_steps sound_register [OF assms(1,4)] sound_refl [OF assms(4)] still by cases fastforce+
  next
    case (2 d)
    obtain r b' h' where "eat_at_counter d now (bor body_default (bget (wo_bodies w) t)) h = (r, b', h')"
      by (metis prod_cases3)
    with 2 meal_worth [OF this] worth_put [OF assms(1), of h'] assms(4) show ?thesis
      by (simp add: serve_meal_def sound_change_def world_simps)
  next
    case 3
    then show ?thesis
      using board_request_steps [OF _ assms(3)] sound_board [OF assms(1,4)] sound_refl [OF assms(4)]
      by (auto simp: serve_board_def split: served.splits prod.splits)
  next
    case 4
    have ok: "exchange_ok (co_ex (wo_colony w))" using assms(4) by (simp add: world_ok_def colony_ok_def)
    from 4 show ?thesis
      using bay_request_pays [OF _ ok assms(2)] sound_bay [OF assms(1,4)] sound_refl [OF assms(4)]
      by (auto simp: serve_bay_def split: served.splits prod.splits)
  qed
qed

lemma world_step_sound: "world_step c pw ex hypot w w' \<Longrightarrow> world_ok w \<Longrightarrow> sound_change w w'"
proof (induction rule: world_step.induct)
  case (Asks w t h q name now rules w')
  then show ?case by (intro serve_sound)
next
  case (Market_clock dt w e')
  then show ?case using same_money_ok [OF ex_tick_same [OF Market_clock(1)]] by (simp add: sound_change_def world_simps)
next
  case (Market_pays w t h ns e' h')
  then have "hworks h' = hworks h" by (auto simp: collect_def split: prod.splits)
  with Market_pays have "bay_pays (co_ex (wo_colony w)) h e' h'"
    using collect_money [OF _ Market_pays(2)] by (intro bay_pays_same_works) (simp_all add: world_simps)
  with Market_pays show ?case by (intro sound_bay)
next
  case (Homes_clock w now)
  then show ?case using homes_tick_moves [of "wo_homes w" hangar_empty c now]
    by (simp add: sound_change_def world_simps moves_def)
next
  case (New_pilot w t)
  have "worth_of starter = credits starter" by (simp add: worth_of_def starter_def hangar_empty_def works_fees_def works_empty_def)
  with New_pilot show ?case by (simp add: sound_change_def world_simps)
qed (simp_all add: sound_board sound_register)


text \<open>Ann, with Bob's order on the exchange and no homes held, posts a contract on the Board.\<close>

definition first_world :: world where
  "first_world = \<lparr>wo_colony = two_pilots, wo_homes = homes_new, wo_bodies = bempty\<rparr>"


end
