(* ===== verification/Views.thy ===== *)
theory Views
  imports Gantry Register
begin

text \<open>
  What a pilot is shown (\<open>crates/bc-econ/src/wire.rs\<close>): the held homes near them (\<open>HomesView::of\<close>), their
  hangar (\<open>HangarView::of\<close>), the exchange (\<open>MarketView::of\<close>). The lemmas show that a stranger's view of
  a home depends on nothing that is its crew's to see, and that the hangar's clock is the queues' own.
\<close>

section \<open>Homes\<close>

record panel_view =
  pv_bank :: "nat option"
  pv_crew :: nat
  pv_coded :: bool
  pv_guest_coded :: bool

record home_line =
  hl_id :: home_id
  hl_name :: string
  hl_open :: bool
  hl_locked :: bool
  hl_mine :: bool
  hl_crew :: bool
  hl_guest :: bool
  hl_panel :: "panel_view option"
  hl_pieces :: "piece list"
  hl_asleep :: "(nat \<times> string) list"

definition panel_of :: "held \<Rightarrow> panel_view" where
  "panel_of h =
     \<lparr>pv_bank = (case hd_tenure h of Lease bank _ _ \<Rightarrow> Some bank | Deed _ _ \<Rightarrow> None),
      pv_crew = length (lk_crew (hd_lock h)) mod 256,
      pv_coded = (lk_code (hd_lock h) \<noteq> None), pv_guest_coded = (lk_guest_code (hd_lock h) \<noteq> None)\<rparr>"

definition home_line_of :: "trader \<Rightarrow> home_id \<Rightarrow> held \<Rightarrow> home_line" where
  "home_line_of t i h =
     (let crew = is_crew (hd_lock h) t
      in \<lparr>hl_id = i, hl_name = hd_name h, hl_open = hd_open h, hl_locked = lk_locked (hd_lock h),
          hl_mine = (hd_holder h = t), hl_crew = crew,
          hl_guest = (\<not> crew \<and> list_ex (\<lambda>g. g = t) (lk_guests (hd_lock h))),
          hl_panel = (if crew then Some (panel_of h) else None),
          hl_pieces = map (\<lambda>p. p\<lparr>pc_holds := if crew then pc_holds p else []\<rparr>) (hd_pieces h),
          hl_asleep = map (\<lambda>a. (as_piece a, as_name a)) (hd_asleep h)\<rparr>)"

definition homes_view :: "homes \<Rightarrow> home_id list \<Rightarrow> trader \<Rightarrow> home_line list" where
  "homes_view r ids t = List.map_filter (\<lambda>i. map_option (home_line_of t i) (bget (hm_held r) i)) ids"

section \<open>The hangar\<close>

record job_view =
  jv_station :: station
  jv_item :: item
  jv_batches :: nat
  jv_done :: nat
  jv_secs :: nat
  jv_secs_left :: nat

record hangar_view =
  hv_credits :: nat
  hv_stock :: "(item \<times> nat) list"
  hv_parts :: "part_unit list"
  hv_bay :: bay
  hv_jobs :: "job_view list"

text \<open>A queue's jobs from its \<open>k\<close>th on, with \<open>ahead\<close> seconds before them; \<open>None\<close> where \<open>batches - done\<close> underflows.\<close>

fun jobs_seen :: "station \<Rightarrow> nat \<Rightarrow> nat \<Rightarrow> nat \<Rightarrow> queue \<Rightarrow> job_view list option" where
  "jobs_seen st now k ahead [] = Some []"
| "jobs_seen st now k ahead (j # q) =
     (case (if k = 0 then Some (job_secs_left now j)
            else map_option (\<lambda>n. n * jb_secs j) (sub_ck (jb_batches j) (jb_done j))) of
        None \<Rightarrow> None
      | Some own \<Rightarrow>
          map_option (\<lambda>vs. \<lparr>jv_station = st, jv_item = jb_recipe j, jv_batches = jb_batches j, jv_done = jb_done j,
              jv_secs = jb_secs j, jv_secs_left = ahead + own\<rparr> # vs)
            (jobs_seen st now (k + 1) (ahead + own) q))"

definition hangar_seen :: "hangar \<Rightarrow> nat \<Rightarrow> hangar_view option" where
  "hangar_seen h now =
     (case (jobs_seen Fabricator now 0 0 (fabricator (hworks h)), jobs_seen FoundryStation now 0 0 (foundry (hworks h))) of
        (Some a, Some b) \<Rightarrow>
          Some \<lparr>hv_credits = credits h, hv_stock = stock_list (hstores h), hv_parts = shelf (hstores h),
                hv_bay = hbay h, hv_jobs = a @ b\<rparr>
      | _ \<Rightarrow> None)"

section \<open>The exchange\<close>

record order_view =
  ov_id :: nat
  ov_item :: item
  ov_side :: side
  ov_price :: nat
  ov_qty :: nat

record market_view =
  mv_quotes :: "quote list"
  mv_orders :: "order_view list"
  mv_fee_bp :: nat

definition market_seen :: "(rat \<Rightarrow> rat \<Rightarrow> rat) \<Rightarrow> exchange \<Rightarrow> trader \<Rightarrow> market_view" where
  "market_seen pw e t =
     \<lparr>mv_quotes = quotes pw e,
      mv_orders = map (\<lambda>od. \<lparr>ov_id = o_id od, ov_item = o_item od, ov_side = o_side od, ov_price = o_price od,
                             ov_qty = o_qty od\<rparr>) (orders_of t e),
      mv_fee_bp = FEE_BP\<rparr>"

section \<open>What a stranger sees\<close>

text \<open>Two states of a home that look the same from outside to \<open>t\<close>: whose it is, the door, the furniture, who sleeps.\<close>

definition looks_same :: "trader \<Rightarrow> held \<Rightarrow> held \<Rightarrow> bool" where
  "looks_same t h h' \<longleftrightarrow> hd_name h' = hd_name h \<and> hd_open h' = hd_open h \<and> lk_locked (hd_lock h') = lk_locked (hd_lock h)
     \<and> (hd_holder h' = t \<longleftrightarrow> hd_holder h = t) \<and> (t \<in> set (lk_guests (hd_lock h')) \<longleftrightarrow> t \<in> set (lk_guests (hd_lock h)))
     \<and> map (\<lambda>p. p\<lparr>pc_holds := []\<rparr>) (hd_pieces h') = map (\<lambda>p. p\<lparr>pc_holds := []\<rparr>) (hd_pieces h)
     \<and> map (\<lambda>a. (as_piece a, as_name a)) (hd_asleep h') = map (\<lambda>a. (as_piece a, as_name a)) (hd_asleep h)"

lemma stranger_line:
  assumes "\<not> is_crew (hd_lock h) t" "\<not> is_crew (hd_lock h') t" "looks_same t h h'"
  shows "home_line_of t i h' = home_line_of t i h"
  using assms by (simp add: home_line_of_def looks_same_def list_ex_iff)

text \<open>C36: A stranger sees no secrets: what a pilot is shown of homes they are not on the crew of is the same
  whatever is in their chests and safes, on their panels, in their codes and on their lists; and from
  anybody's view without a panel nothing a chest holds can be read.\<close>
theorem strangers_see_no_secrets:
  assumes "\<forall>i\<in>set ids. rel_option (\<lambda>h h'. \<not> is_crew (hd_lock h) t \<and> \<not> is_crew (hd_lock h') t \<and> looks_same t h h')
      (bget (hm_held r) i) (bget (hm_held r') i)"
  shows "homes_view r' ids t = homes_view r ids t
     \<and> (\<forall>l\<in>set (homes_view r ids t). hl_panel l = None \<and> (\<forall>p\<in>set (hl_pieces l). pc_holds p = []))"
proof -
  have same: "map_option (home_line_of t i) (bget (hm_held r') i) = map_option (home_line_of t i) (bget (hm_held r) i)"
    if "i \<in> set ids" for i
    using assms that by (fastforce simp: stranger_line option_rel_Some1 elim: option.rel_cases)
  then have "homes_view r' ids t = homes_view r ids t"
    unfolding homes_view_def by (induction ids) (simp_all split: option.split)
  moreover have "\<forall>l\<in>set (homes_view r ids t). hl_panel l = None \<and> (\<forall>p\<in>set (hl_pieces l). pc_holds p = [])"
    using assms by (fastforce simp: homes_view_def List.map_filter_def home_line_of_def Let_def elim: option.rel_cases)
  ultimately show ?thesis ..
qed

text \<open>Bob at Ann's door, and the same door with a code on it and the rent run down.\<close>

definition anns_flat_coded :: homes where
  "anns_flat_coded = put_home 1 ((newly_held ''0xa'' ''ANN'' (Lease 3 0 None) 0)
     \<lparr>hd_lock := (hd_lock (newly_held ''0xa'' ''ANN'' (Lease 3 0 None) 0))\<lparr>lk_code := Some 1234\<rparr>\<rparr>) homes_new"

theorem strangers_see_no_secrets_witness:
  "anns_flat_coded \<noteq> anns_flat \<and> homes_view anns_flat_coded [1, 2] ''0xb'' = homes_view anns_flat [1, 2] ''0xb''"
proof -
  have "\<forall>i\<in>set [1, 2]. rel_option (\<lambda>h h'. \<not> is_crew (hd_lock h) ''0xb'' \<and> \<not> is_crew (hd_lock h') ''0xb''
      \<and> looks_same ''0xb'' h h') (bget (hm_held anns_flat) i) (bget (hm_held anns_flat_coded) i)"
    by (simp add: anns_flat_def anns_flat_coded_def newly_held_def homes_new_def looks_same_def is_crew_def key_lock_def)
  from strangers_see_no_secrets [OF this]
  have "homes_view anns_flat_coded [1, 2] ''0xb'' = homes_view anns_flat [1, 2] ''0xb''" ..
  moreover have "bget (hm_held anns_flat_coded) 1 \<noteq> bget (hm_held anns_flat) 1"
    by (simp add: anns_flat_def anns_flat_coded_def newly_held_def homes_new_def key_lock_def)
  ultimately show ?thesis by auto
qed

section \<open>The hangar's clock\<close>

text \<open>A queue is always shown, job by job, and its last job's time is the queue's own (\<open>Queue::secs_left\<close>).\<close>

lemma jobs_seen_behind:
  "\<forall>j\<in>set q. jb_done j \<le> jb_batches j \<Longrightarrow> \<exists>vs. jobs_seen st now (Suc k) ahead q = Some vs \<and> length vs = length q
     \<and> (q \<noteq> [] \<longrightarrow> jv_secs_left (last vs) = ahead + sum_list (map (\<lambda>j. (jb_batches j - jb_done j) * jb_secs j) q))"
proof (induction q arbitrary: k ahead)
  case (Cons j q)
  let ?own = "(jb_batches j - jb_done j) * jb_secs j"
  from Cons.IH [of "Suc k" "ahead + ?own"] Cons.prems obtain vs where
    v: "jobs_seen st now (Suc (Suc k)) (ahead + ?own) q = Some vs" "length vs = length q"
      "q \<noteq> [] \<Longrightarrow> jv_secs_left (last vs) = ahead + ?own + sum_list (map (\<lambda>j. (jb_batches j - jb_done j) * jb_secs j) q)"
    by auto
  have "jb_done j \<le> jb_batches j" using Cons.prems by simp
  with v show ?case by (cases q; cases vs) (auto simp: sub_ck_def add.assoc)
qed simp

lemma jobs_seen_clock:
  assumes "\<forall>j\<in>set q. jb_done j \<le> jb_batches j"
  shows "\<exists>vs. jobs_seen st now 0 0 q = Some vs \<and> length vs = length q
    \<and> (q \<noteq> [] \<longrightarrow> jv_secs_left (last vs) = queue_secs_left now q)"
proof (cases q)
  case (Cons j p)
  from jobs_seen_behind [of p st now 0 "job_secs_left now j"] assms Cons obtain vs where
    "jobs_seen st now (Suc 0) (job_secs_left now j) p = Some vs" "length vs = length p"
    "p \<noteq> [] \<Longrightarrow> jv_secs_left (last vs) = job_secs_left now j + sum_list (map (\<lambda>j. (jb_batches j - jb_done j) * jb_secs j) p)"
    by auto
  with Cons show ?thesis by (cases p; cases vs) auto
qed simp

end
